(* ===== verification/Prelude.thy ===== *)
theory Prelude
  imports Main "HOL-Library.Word" "HOL-Library.AList" "HOL-Library.Multiset"
begin

text \<open>
  Shared vocabulary of the development.

  \<^item> The C++ types the components use: byte strings (a HOL \<open>char\<close> is a byte), 32 and 64 bit
    unsigned integers, \<open>std::chrono\<close> time points (integers counting nanoseconds of the steady
    clock), and the exceptions of the program as a datatype, so that a throwing function is a
    function into \<open>cpp_exception + 'a\<close>.
  \<^item> \<open>std::unordered_map\<close>: the contract its users rely on is the locale \<open>unordered_map\<close>; the
    model is an association list with distinct keys, in an arbitrary iteration order, and the
    interpretation \<open>um\<close> discharges the contract.
  \<^item> Counting the entries of a finite map that satisfy a predicate (\<open>map_count\<close>), used for the
    key counters of the store.
\<close>

section \<open>Types and collections of rules\<close>

named_theorems umap_simps \<open>equations of the unordered map operations\<close>
named_theorems result_simps \<open>equations of the exception results\<close>

type_synonym u32 = "32 word"
type_synonym u64 = "64 word"
type_synonym time_point = int

datatype cpp_exception =
    RuntimeError string
  | LogicError string
  | InvalidArgument string
  | OutOfRange string
  | SystemError string int
  | AssertionFailed string
  | UndefinedBehaviour string
  | StillBlocked

type_synonym 'a result = "cpp_exception + 'a"

fun bind_result :: "'e + 'a \<Rightarrow> ('a \<Rightarrow> 'e + 'b) \<Rightarrow> 'e + 'b" where
  "bind_result (Inl e) f = Inl e"
| "bind_result (Inr a) f = f a"

lemma bind_result_Inr [result_simps]:
  "bind_result m f = Inr b \<longleftrightarrow> (\<exists>a. m = Inr a \<and> f a = Inr b)"
  by (cases m) auto

text \<open>The message of a system error, as \<open>ErrorMessage\<close> of posix_error.cpp builds it from the
  prefix and \<open>strerror(errno)\<close>; \<open>strerror\<close> is a parameter.\<close>

definition ErrorMessage :: "(int \<Rightarrow> string) \<Rightarrow> int \<Rightarrow> string \<Rightarrow> string" where
  "ErrorMessage strerror errno prefix = prefix @ '': '' @ strerror errno"

fun exception_what :: "(int \<Rightarrow> string) \<Rightarrow> cpp_exception \<Rightarrow> string" where
  "exception_what strerror (RuntimeError m) = m"
| "exception_what strerror (LogicError m) = m"
| "exception_what strerror (InvalidArgument m) = m"
| "exception_what strerror (OutOfRange m) = m"
| "exception_what strerror (SystemError p e) = ErrorMessage strerror e p"
| "exception_what strerror (AssertionFailed m) = m"
| "exception_what strerror (UndefinedBehaviour m) = m"
| "exception_what strerror StillBlocked = []"

text \<open>A failed assertion ends the process, undefined behaviour has no result, and \<open>StillBlocked\<close> says
  that the results listed for a system call ended inside its retry loop; none of the three is an
  exception that a handler catches.\<close>

fun is_std_exception :: "cpp_exception \<Rightarrow> bool" where
  "is_std_exception (AssertionFailed m) \<longleftrightarrow> False"
| "is_std_exception (UndefinedBehaviour m) \<longleftrightarrow> False"
| "is_std_exception StillBlocked \<longleftrightarrow> False"
| "is_std_exception _ \<longleftrightarrow> True"

section \<open>Counting the entries of a finite map\<close>

definition map_count :: "('v \<Rightarrow> bool) \<Rightarrow> ('k \<rightharpoonup> 'v) \<Rightarrow> nat" where
  "map_count P f = card {k. \<exists>v. f k = Some v \<and> P v}"

lemma map_count_finite: "finite (dom f) \<Longrightarrow> finite {k. \<exists>v. f k = Some v \<and> P v}"
  by (rule finite_subset [where B = "dom f"]) auto

lemma map_count_True: "map_count (\<lambda>_. True) f = card (dom f)"
  by (simp add: map_count_def dom_def)

lemma map_count_empty [simp]: "map_count P (\<lambda>_. None) = 0"
  by (simp add: map_count_def)

lemma map_count_delete:
  assumes "finite (dom f)" and "f k = Some v"
  shows "map_count P f = map_count P (f(k := None)) + (if P v then 1 else 0)"
proof -
  let ?S = "{x. \<exists>v. f x = Some v \<and> P v}"
  let ?T = "{x. \<exists>v. (f(k := None)) x = Some v \<and> P v}"
  have T: "?T = ?S - {k}" by auto
  have "finite ?S" using assms(1) by (rule map_count_finite)
  moreover have "k \<in> ?S \<longleftrightarrow> P v" using assms(2) by auto
  ultimately show ?thesis unfolding map_count_def T
    by (auto simp: card_Suc_Diff1 simp del: card_Diff_insert)
qed

lemma map_count_insert:
  assumes "finite (dom f)" and "f k = None"
  shows "map_count P (f(k \<mapsto> v)) = map_count P f + (if P v then 1 else 0)"
proof -
  have "map_count P (f(k \<mapsto> v)) =
    map_count P ((f(k \<mapsto> v))(k := None)) + (if P v then 1 else 0)"
    using assms(1) by (intro map_count_delete) auto
  moreover have "(f(k \<mapsto> v))(k := None) = f" using assms(2) by auto
  ultimately show ?thesis by simp
qed

lemma map_count_update:
  assumes "finite (dom f)" and "f k = Some v0"
  shows "map_count P (f(k \<mapsto> v)) + (if P v0 then 1 else 0) =
    map_count P f + (if P v then 1 else 0)"
proof -
  have "map_count P (f(k \<mapsto> v)) =
    map_count P ((f(k \<mapsto> v))(k := None)) + (if P v then 1 else 0)"
    using assms(1) by (intro map_count_delete) auto
  moreover have "(f(k \<mapsto> v))(k := None) = f(k := None)" by simp
  moreover have "map_count P f = map_count P (f(k := None)) + (if P v0 then 1 else 0)"
    using assms by (rule map_count_delete)
  ultimately show ?thesis by simp
qed

lemma map_count_compl:
  assumes "finite (dom f)"
  shows "map_count P f + map_count (\<lambda>v. \<not> P v) f = card (dom f)"
proof -
  let ?S = "{k. \<exists>v. f k = Some v \<and> P v}" and ?T = "{k. \<exists>v. f k = Some v \<and> \<not> P v}"
  have split: "dom f = ?S \<union> ?T" and disj: "?S \<inter> ?T = {}" by auto
  have "card (?S \<union> ?T) = card ?S + card ?T"
    by (rule card_Un_disjoint) (use assms disj in \<open>auto intro: map_count_finite\<close>)
  then show ?thesis by (simp add: map_count_def split)
qed

section \<open>The contract of \<open>std::unordered_map\<close>\<close>

text \<open>
  What the store, the pollers and the reactors rely on: a lookup after \<open>emplace\<close> or an
  assignment through an iterator (\<open>put\<close>) and after \<open>erase\<close>, and the size.
\<close>

locale unordered_map =
  fixes nil :: "'m"
    and find :: "'m \<Rightarrow> 'k \<Rightarrow> 'v option"
    and put :: "'k \<Rightarrow> 'v \<Rightarrow> 'm \<Rightarrow> 'm"
    and erase :: "'k \<Rightarrow> 'm \<Rightarrow> 'm"
    and size_of :: "'m \<Rightarrow> nat"
    and ok :: "'m \<Rightarrow> bool"
  assumes find_nil: "find nil k = None"
    and find_put: "find (put k v m) = (find m)(k \<mapsto> v)"
    and find_erase: "find (erase k m) = (find m)(k := None)"
    and size_of_find: "ok m \<Longrightarrow> size_of m = card (dom (find m))"
    and finite_find: "finite (dom (find m))"
    and ok_nil: "ok nil"
    and ok_put: "ok m \<Longrightarrow> ok (put k v m)"
    and ok_erase: "ok m \<Longrightarrow> ok (erase k m)"
begin

lemma count_put_new:
  "find m k = None \<Longrightarrow>
    map_count P (find (put k v m)) = map_count P (find m) + (if P v then 1 else 0)"
  by (simp add: find_put map_count_insert finite_find)

lemma count_put_old:
  "find m k = Some v0 \<Longrightarrow>
    map_count P (find (put k v m)) + (if P v0 then 1 else 0) =
      map_count P (find m) + (if P v then 1 else 0)"
  using map_count_update [OF finite_find] by (simp only: find_put)

lemma count_erase:
  "find m k = Some v \<Longrightarrow>
    map_count P (find m) = map_count P (find (erase k m)) + (if P v then 1 else 0)"
  using map_count_delete [OF finite_find] by (simp only: find_erase)

lemma count_le_size: "ok m \<Longrightarrow> map_count P (find m) \<le> size_of m"
  using map_count_compl [OF finite_find, of P m] by (simp add: size_of_find)

lemma count_size: "ok m \<Longrightarrow>
    map_count P (find m) + map_count (\<lambda>v. \<not> P v) (find m) = size_of m"
  by (simp add: map_count_compl finite_find size_of_find)

lemma count_pos: "find m k = Some v \<Longrightarrow> P v \<Longrightarrow> 0 < map_count P (find m)"
  by (simp add: count_erase)

end

section \<open>Association lists as the model of \<open>std::unordered_map\<close>\<close>

type_synonym ('k, 'v) umap = "('k \<times> 'v) list"

definition um_find :: "('k, 'v) umap \<Rightarrow> 'k \<Rightarrow> 'v option" where
  "um_find m k = map_of m k"

definition um_put :: "'k \<Rightarrow> 'v \<Rightarrow> ('k, 'v) umap \<Rightarrow> ('k, 'v) umap" where
  "um_put k v m = AList.update k v m"

definition um_erase :: "'k \<Rightarrow> ('k, 'v) umap \<Rightarrow> ('k, 'v) umap" where
  "um_erase k m = AList.delete k m"

definition um_ok :: "('k, 'v) umap \<Rightarrow> bool" where
  "um_ok m \<longleftrightarrow> distinct (map fst m)"

lemma um_find_Nil [simp]: "um_find [] k = None"
  by (simp add: um_find_def)

lemma um_find_eq_map_of: "um_find m = map_of m"
  by (simp add: fun_eq_iff um_find_def)

lemma um_find_put [simp, umap_simps]: "um_find (um_put k v m) = (um_find m)(k \<mapsto> v)"
  by (simp add: fun_eq_iff um_find_def um_put_def update_conv')

lemma um_find_erase [simp, umap_simps]: "um_find (um_erase k m) = (um_find m)(k := None)"
  by (simp add: fun_eq_iff um_find_def um_erase_def delete_conv')

lemma um_find_iff_mem: "um_ok m \<Longrightarrow> um_find m k = Some v \<longleftrightarrow> (k, v) \<in> set m"
  by (simp add: um_ok_def um_find_def)

lemma um_find_SomeD: "um_find m k = Some v \<Longrightarrow> (k, v) \<in> set m"
  by (simp add: um_find_def map_of_SomeD)

interpretation um: unordered_map "[]" um_find um_put um_erase length um_ok
proof unfold_locales
  fix m :: "('a, 'b) umap" and k :: 'a and v :: 'b
  show "um_find [] k = (None :: 'b option)" by simp
  show "um_find (um_put k v m) = (um_find m)(k \<mapsto> v)" by simp
  show "um_find (um_erase k m) = (um_find m)(k := None)" by simp
  show "length m = card (dom (um_find m))" if "um_ok m"
    using that distinct_card [of "map fst m"]
    by (simp add: um_find_eq_map_of um_ok_def dom_map_of_conv_image_fst)
  show "finite (dom (um_find m))" by (simp add: um_find_eq_map_of finite_dom_map_of)
  show "um_ok ([] :: ('a, 'b) umap)" by (simp add: um_ok_def)
  show "um_ok (um_put k v m)" if "um_ok m"
    using that by (simp add: um_ok_def um_put_def distinct_update)
  show "um_ok (um_erase k m)" if "um_ok m"
    using that by (simp add: um_ok_def um_erase_def distinct_delete)
qed

section \<open>Decimal numbers as text\<close>

text \<open>\<open>std::to_string\<close> on integers.\<close>

definition digit_char :: "nat \<Rightarrow> char" where
  "digit_char d = char_of (48 + d)"

fun nat_to_string :: "nat \<Rightarrow> string" where
  "nat_to_string n =
     (if n < 10 then [digit_char n] else nat_to_string (n div 10) @ [digit_char (n mod 10)])"

declare nat_to_string.simps [simp del]

definition int_to_string :: "int \<Rightarrow> string" where
  "int_to_string i = (if i < 0 then CHR ''-'' # nat_to_string (nat (- i)) else nat_to_string (nat i))"

text \<open>The value of a digit string, most significant digit first.\<close>

definition dec_value :: "int \<Rightarrow> string \<Rightarrow> int" where
  "dec_value r t = foldl (\<lambda>v c. v * 10 + (int (of_char c) - 48)) r t"

lemma dec_value_Nil [simp]: "dec_value r [] = r"
  by (simp add: dec_value_def)

lemma dec_value_Cons [simp]: "dec_value r (c # t) = dec_value (r * 10 + (int (of_char c) - 48)) t"
  by (simp add: dec_value_def)

lemma dec_value_snoc: "dec_value r (t @ [c]) = dec_value r t * 10 + (int (of_char c) - 48)"
  by (simp add: dec_value_def)

lemma of_char_digit_char: "d < 10 \<Longrightarrow> of_char (digit_char d) = (48 + d :: nat)"
  by (simp add: digit_char_def)

lemma nat_to_string_value: "dec_value 0 (nat_to_string n) = int n"
proof (induction n rule: nat_to_string.induct)
  case (1 n)
  show ?case
  proof (cases "n < 10")
    case True
    then show ?thesis by (simp add: nat_to_string.simps [of n] of_char_digit_char)
  next
    case False
    with 1 have "dec_value 0 (nat_to_string (n div 10)) = int (n div 10)" by simp
    with False show ?thesis
      by (simp add: nat_to_string.simps [of n] dec_value_snoc of_char_digit_char)
        (simp add: zdiv_int zmod_int)
  qed
qed

lemma nat_to_string_digits:
  "c \<in> set (nat_to_string n) \<Longrightarrow> 48 \<le> (of_char c :: nat) \<and> (of_char c :: nat) \<le> 57"
proof (induction n rule: nat_to_string.induct)
  case step: (1 n)
  show ?case
  proof (cases "n < 10")
    case True
    with step show ?thesis by (auto simp: nat_to_string.simps [of n] of_char_digit_char)
  next
    case False
    from step.prems False consider "c \<in> set (nat_to_string (n div 10))" | "c = digit_char (n mod 10)"
      by (auto simp: nat_to_string.simps [of n])
    then show ?thesis
    proof cases
      case 1
      then show ?thesis using step.IH False by blast
    next
      case 2
      have "n mod 10 < 10" by simp
      then have "of_char c = 48 + n mod 10" unfolding 2 by (rule of_char_digit_char)
      then show ?thesis using \<open>n mod 10 < 10\<close> by linarith
    qed
  qed
qed

lemma nat_to_string_nonempty [simp]: "nat_to_string n \<noteq> []"
  by (subst nat_to_string.simps) simp

lemma length_nat_to_string: "n < 10 ^ k \<Longrightarrow> 0 < k \<Longrightarrow> length (nat_to_string n) \<le> k"
proof (induction k arbitrary: n)
  case (Suc k)
  show ?case
  proof (cases "n < 10")
    case False
    then have "0 < k" using Suc.prems by (cases k) auto
    moreover have "n div 10 < 10 ^ k" using Suc.prems by (simp add: less_mult_imp_div_less mult.commute)
    ultimately show ?thesis using Suc.IH [of "n div 10"] False by (simp add: nat_to_string.simps [of n])
  qed (simp add: nat_to_string.simps [of n])
qed simp

lemma length_u64_string: "length (nat_to_string (unat (w :: u64))) \<le> 20"
proof -
  have "unat w < 10 ^ 20" using unsigned_less [of w, where 'a = nat] by simp
  then show ?thesis by (rule length_nat_to_string) simp
qed

end
