(* ===== verification/Frame_Codec.thy ===== *)
theory Frame_Codec
  imports Prelude
begin

text \<open>
  The frame codec (\<open>FrameCodec\<close> of frame_codec.h and frame_codec.cpp): a payload travels as a
  4 byte length in network byte order followed by the payload bytes.

  The code converts with \<open>htonl\<close>/\<open>ntohl\<close> and copies object representations with \<open>memcpy\<close>, so the
  model has the byte order of the host as a parameter and keeps both steps; the theorems show
  that the bytes on the wire do not depend on it. \<open>memcpy\<close> past the end of its destination is
  undefined behaviour, an error value of the model.

  \<open>Decode\<close> takes complete frames off the front of the connection's buffer until the rest is
  incomplete; on an oversized length it throws, and the caller sees the buffer from the offending
  header on while the frames already taken are lost.
\<close>

section \<open>Object representation of \<open>uint32_t\<close> and the byte order of the host\<close>

datatype endianness = LittleEndian | BigEndian

definition u32_bytes_le :: "u32 \<Rightarrow> string" where
  "u32_bytes_le w =
     [char_of (unat w), char_of (unat w div 256), char_of (unat w div 256 ^ 2),
      char_of (unat w div 256 ^ 3)]"

fun u32_of_bytes_le :: "string \<Rightarrow> u32" where
  "u32_of_bytes_le [a, b, c, d] =
     of_nat (of_char a + 256 * (of_char b + 256 * (of_char c + 256 * of_char d)))"
| "u32_of_bytes_le _ = 0"

fun store_u32 :: "endianness \<Rightarrow> u32 \<Rightarrow> string" where
  "store_u32 LittleEndian w = u32_bytes_le w"
| "store_u32 BigEndian w = rev (u32_bytes_le w)"

fun load_u32 :: "endianness \<Rightarrow> string \<Rightarrow> u32" where
  "load_u32 LittleEndian bs = u32_of_bytes_le bs"
| "load_u32 BigEndian bs = u32_of_bytes_le (rev bs)"

definition bswap32 :: "u32 \<Rightarrow> u32" where
  "bswap32 w = u32_of_bytes_le (rev (u32_bytes_le w))"

fun htonl :: "endianness \<Rightarrow> u32 \<Rightarrow> u32" where
  "htonl LittleEndian w = bswap32 w"
| "htonl BigEndian w = w"

definition ntohl :: "endianness \<Rightarrow> u32 \<Rightarrow> u32" where
  "ntohl h w = htonl h w"

section \<open>The codec\<close>

definition HEADER_SIZE :: nat where
  "HEADER_SIZE = 4"

definition MAX_FRAME_SIZE :: u32 where
  "MAX_FRAME_SIZE = 1024 * 1024"

definition memcpy_at :: "string \<Rightarrow> nat \<Rightarrow> string \<Rightarrow> string result" where
  "memcpy_at dst off src =
     (if off + length src \<le> length dst
      then Inr (take off dst @ src @ drop (off + length src) dst)
      else Inl (UndefinedBehaviour ''memcpy past the end of the destination''))"

definition FrameCodec_Encode :: "endianness \<Rightarrow> string \<Rightarrow> string result" where
  "FrameCodec_Encode h payload =
     (let payloadLen = (of_nat (length payload) :: u32) in
      if payloadLen > MAX_FRAME_SIZE then Inl (RuntimeError ''The payload is too large'')
      else
        let frame = replicate (HEADER_SIZE + unat payloadLen) (CHR 0x00);
            netLen = htonl h payloadLen
        in bind_result (memcpy_at frame 0 (store_u32 h netLen)) (\<lambda>frame.
             if payload \<noteq> [] then memcpy_at frame HEADER_SIZE payload else Inr frame))"

text \<open>The decoding loop: the frames taken so far, or the exception, with the buffer as the
  caller's reference sees it afterwards.\<close>

function FrameCodec_Decode_loop ::
  "endianness \<Rightarrow> string \<Rightarrow> string list \<Rightarrow> (string list) result \<times> string" where
  "FrameCodec_Decode_loop h buffer frames =
     (if HEADER_SIZE \<le> length buffer then
        let netLen = load_u32 h (take HEADER_SIZE buffer);
            payloadLen = ntohl h netLen
        in if payloadLen > MAX_FRAME_SIZE then (Inl (RuntimeError ''frame too large''), buffer)
           else
             let totalSize = HEADER_SIZE + unat payloadLen
             in if length buffer < totalSize then (Inr frames, buffer)
                else FrameCodec_Decode_loop h (drop totalSize buffer)
                       (frames @ [take (unat payloadLen) (drop HEADER_SIZE buffer)])
      else (Inr frames, buffer))"
  by pat_completeness auto
termination
  by (relation "measure (\<lambda>(h, buffer, frames). length buffer)") (auto simp: HEADER_SIZE_def Let_def)

declare FrameCodec_Decode_loop.simps [simp del]

definition FrameCodec_Decode :: "endianness \<Rightarrow> string \<Rightarrow> (string list) result \<times> string" where
  "FrameCodec_Decode h buffer = FrameCodec_Decode_loop h buffer []"

text \<open>The overload that first appends the received bytes. The pointer argument is \<open>None\<close> for a
  null pointer and otherwise the bytes it points to, of which \<open>n\<close> are read.\<close>

definition FrameCodec_DecodeAppend ::
  "endianness \<Rightarrow> string \<Rightarrow> string option \<Rightarrow> nat \<Rightarrow> (string list) result \<times> string" where
  "FrameCodec_DecodeAppend h buffer data n =
     (case data of
        None \<Rightarrow>
          if n > 0 then (Inl (RuntimeError ''decode input data is null''), buffer)
          else FrameCodec_Decode h buffer
      | Some bytes \<Rightarrow>
          FrameCodec_Decode h (if n > 0 then buffer @ take n bytes else buffer))"

section \<open>The wire format\<close>

text \<open>The specification of a frame: big endian length, then the payload.\<close>

definition be32 :: "nat \<Rightarrow> string" where
  "be32 n = [char_of (n div 256 ^ 3), char_of (n div 256 ^ 2), char_of (n div 256), char_of n]"

definition wire_frame :: "string \<Rightarrow> string" where
  "wire_frame p = be32 (length p) @ p"

definition frame_limit :: nat where
  "frame_limit = 1048576"

text \<open>The length announced by the first four bytes of a buffer.\<close>

fun be32_value :: "string \<Rightarrow> nat" where
  "be32_value (a # b # c # d # _) =
     256 * (256 * (256 * of_char a + of_char b) + of_char c) + of_char d"
| "be32_value _ = 0"

lemma MAX_FRAME_SIZE_limit [simp]: "unat MAX_FRAME_SIZE = frame_limit"
  by (simp add: MAX_FRAME_SIZE_def frame_limit_def)

section \<open>Byte order\<close>

lemma of_char_bound: "(of_char c :: nat) \<le> 255"
  using nat_of_char_less_256 [of c] by linarith

lemma char_of_digit: "char_of (of_char c + 256 * n :: nat) = c"
proof -
  have "(of_char c + 256 * n :: nat) mod 256 = of_char c" using of_char_bound [of c] by simp
  then show ?thesis by (metis char_of_mod_256 char_of_char)
qed

lemma div_digit: "(of_char c + 256 * n :: nat) div 256 = n"
  using of_char_bound [of c] by simp

lemma unat_u32_of_bytes_le:
  "unat (u32_of_bytes_le [a, b, c, d]) =
     of_char a + 256 * (of_char b + 256 * (of_char c + 256 * of_char d))"
proof -
  have "w + 256 * (x + 256 * (y + 256 * z)) < 4294967296"
    if "w \<le> 255" "x \<le> 255" "y \<le> 255" "z \<le> 255" for w x y z :: nat
    using that by (simp only: distrib_left mult.assoc [symmetric])
  then have "(of_char a + 256 * (of_char b + 256 * (of_char c + 256 * of_char d)) :: nat) < 4294967296"
    using of_char_bound by blast
  then show ?thesis by (simp only: u32_of_bytes_le.simps unat_of_nat) simp
qed

lemma u32_bytes_le_of_bytes [simp]: "u32_bytes_le (u32_of_bytes_le [a, b, c, d]) = [a, b, c, d]"
proof -
  have "n div 256 ^ 2 = n div 256 div 256" and "n div 256 ^ 3 = n div 256 div 256 div 256"
    for n :: nat
    by (simp_all add: div_mult2_eq [symmetric] power2_eq_square power3_eq_cube)
  then show ?thesis
    by (simp only: u32_bytes_le_def unat_u32_of_bytes_le div_digit char_of_digit)
      (simp add: char_of_char)
qed

lemma u32_bytes_le_rev: "u32_bytes_le (of_nat n) = rev (be32 n)" if "n < 2 ^ 32"
  using that by (simp add: u32_bytes_le_def be32_def unat_of_nat)

lemma length4_cases:
  assumes "length bs = 4" obtains a b c d where "bs = [a, b, c, d]"
  using assms by (auto simp: numeral_eq_Suc length_Suc_conv)

lemma length_u32_bytes_le [simp]: "length (u32_bytes_le w) = 4"
  by (simp add: u32_bytes_le_def)

text \<open>Converting to network order and copying the object representation yields the bytes of the
  number most significant first, whatever the host; and the other way round.\<close>

lemma store_htonl: "store_u32 h (htonl h w) = rev (u32_bytes_le w)"
proof (cases h)
  case LittleEndian
  obtain a b c d where "u32_bytes_le w = [a, b, c, d]"
    by (rule length4_cases [OF length_u32_bytes_le])
  with LittleEndian show ?thesis by (simp add: bswap32_def del: u32_of_bytes_le.simps)
qed simp

lemma ntohl_load:
  assumes len: "length bs = 4"
  shows "ntohl h (load_u32 h bs) = u32_of_bytes_le (rev bs)"
proof (cases h)
  case LittleEndian
  obtain a b c d where "bs = [a, b, c, d]" by (rule length4_cases [OF len])
  with LittleEndian show ?thesis
    by (simp add: ntohl_def bswap32_def del: u32_of_bytes_le.simps)
qed (simp add: ntohl_def)

lemma be32_value_take: "4 \<le> length buf \<Longrightarrow>
    unat (u32_of_bytes_le (rev (take 4 buf))) = be32_value buf"
  by (cases buf rule: be32_value.cases)
    (auto simp: unat_u32_of_bytes_le simp del: u32_of_bytes_le.simps)

lemma length_be32 [simp]: "length (be32 n) = 4"
  by (simp add: be32_def)

lemma be32_value_append: "4 \<le> length buf \<Longrightarrow> be32_value (buf @ more) = be32_value buf"
  by (cases buf rule: be32_value.cases) auto

lemma be32_value_be32: "n < 2 ^ 32 \<Longrightarrow> be32_value (be32 n @ rest) = n"
proof -
  assume n: "n < 2 ^ 32"
  define q1 q2 q3 where "q1 = n div 256" and "q2 = q1 div 256" and "q3 = q2 div 256"
  have d: "n div 256 ^ 2 = q2" "n div 256 ^ 3 = q3"
    by (simp_all add: q1_def q2_def q3_def div_mult2_eq [symmetric])
  have "q3 < 256" using n by (simp add: q1_def q2_def q3_def div_mult2_eq [symmetric]
    less_mult_imp_div_less)
  moreover have "256 * q3 + q2 mod 256 = q2" "256 * q2 + q1 mod 256 = q1" "256 * q1 + n mod 256 = n"
    by (simp_all add: q1_def q2_def q3_def)
  ultimately show ?thesis
    unfolding be32_def d q1_def [symmetric] by simp
qed

lemma be32_be32_value: "4 \<le> length buf \<Longrightarrow> be32 (be32_value buf) = take 4 buf"
proof (cases buf rule: be32_value.cases)
  case (1 a b c d rest)
  have "be32_value buf = of_char d + 256 * (of_char c + 256 * (of_char b + 256 * of_char a))"
    using 1 by simp
  moreover have "n div 256 ^ 2 = n div 256 div 256" "n div 256 ^ 3 = n div 256 div 256 div 256"
    for n :: nat
    by (simp_all add: div_mult2_eq [symmetric] power2_eq_square power3_eq_cube)
  ultimately show ?thesis using 1
    by (simp only: be32_def div_digit char_of_digit) (simp add: char_of_char)
qed auto

section \<open>Encoding\<close>

lemma memcpy_at_start: "length src \<le> length dst \<Longrightarrow>
    memcpy_at dst 0 src = Inr (src @ drop (length src) dst)"
  by (simp add: memcpy_at_def)

lemma Encode_wire_frame:
  assumes "length p \<le> frame_limit"
  shows "FrameCodec_Encode h p = Inr (wire_frame p)"
proof -
  have n: "length p < 2 ^ 32" using assms by (simp add: frame_limit_def)
  then have u: "unat (of_nat (length p) :: u32) = length p" by (simp add: unat_of_nat)
  have le: "\<not> MAX_FRAME_SIZE < (of_nat (length p) :: u32)"
    using assms u by (simp add: word_less_nat_alt)
  have hdr: "store_u32 h (htonl h (of_nat (length p))) = be32 (length p)"
    using n by (simp add: store_htonl u32_bytes_le_rev)
  show ?thesis
    unfolding FrameCodec_Encode_def Let_def u hdr
    using le by (simp add: memcpy_at_def HEADER_SIZE_def wire_frame_def)
qed

lemma Encode_too_large:
  assumes "frame_limit < length p" and "length p < 2 ^ 32"
  shows "FrameCodec_Encode h p = Inl (RuntimeError ''The payload is too large'')"
  using assms by (simp add: FrameCodec_Encode_def Let_def word_less_nat_alt unat_of_nat)

section \<open>Decoding\<close>

lemma length_wire_frame [simp]: "length (wire_frame p) = 4 + length p"
  by (simp add: wire_frame_def)

text \<open>The loop in terms of the announced length.\<close>

lemma Decode_loop_short:
  "length buf < 4 \<Longrightarrow> FrameCodec_Decode_loop h buf fs = (Inr fs, buf)"
  by (simp add: FrameCodec_Decode_loop.simps [of h buf fs] HEADER_SIZE_def)

lemma Decode_loop_long:
  assumes "4 \<le> length buf"
  shows "FrameCodec_Decode_loop h buf fs =
     (if frame_limit < be32_value buf then (Inl (RuntimeError ''frame too large''), buf)
      else if length buf < 4 + be32_value buf then (Inr fs, buf)
      else FrameCodec_Decode_loop h (drop (4 + be32_value buf) buf)
             (fs @ [take (be32_value buf) (drop 4 buf)]))"
proof -
  have "length (take 4 buf) = 4" using assms by simp
  note load = ntohl_load [OF this, of h]
  note val = be32_value_take [OF assms]
  show ?thesis
    unfolding FrameCodec_Decode_loop.simps [of h buf fs] Let_def HEADER_SIZE_def load
      word_less_nat_alt val MAX_FRAME_SIZE_limit
    using assms by simp
qed

lemma Decode_loop_frame:
  assumes "length p \<le> frame_limit"
  shows "FrameCodec_Decode_loop h (wire_frame p @ rest) fs =
     FrameCodec_Decode_loop h rest (fs @ [p])"
proof -
  have "be32_value (wire_frame p @ rest) = length p"
    using assms by (simp add: wire_frame_def be32_value_be32 frame_limit_def)
  then show ?thesis using assms
    by (simp add: Decode_loop_long) (simp add: wire_frame_def)
qed

lemma Decode_loop_frames:
  assumes "\<forall>p \<in> set ps. length p \<le> frame_limit"
  shows "FrameCodec_Decode_loop h (concat (map wire_frame ps) @ rest) fs =
     FrameCodec_Decode_loop h rest (fs @ ps)"
  using assms by (induction ps arbitrary: fs) (simp_all add: Decode_loop_frame)

text \<open>A buffer that the loop cannot take a frame from: too short for a header, or for the frame
  its header announces.\<close>

definition incomplete :: "string \<Rightarrow> bool" where
  "incomplete buf \<longleftrightarrow> length buf < 4 \<or>
     (be32_value buf \<le> frame_limit \<and> length buf < 4 + be32_value buf)"

definition oversized :: "string \<Rightarrow> bool" where
  "oversized buf \<longleftrightarrow> 4 \<le> length buf \<and> frame_limit < be32_value buf"

lemma Decode_loop_incomplete: "incomplete buf \<Longrightarrow> FrameCodec_Decode_loop h buf fs = (Inr fs, buf)"
  by (cases "length buf < 4") (auto simp: incomplete_def Decode_loop_short Decode_loop_long)

lemma Decode_loop_oversized:
  "oversized buf \<Longrightarrow>
    FrameCodec_Decode_loop h buf fs = (Inl (RuntimeError ''frame too large''), buf)"
  by (simp add: oversized_def Decode_loop_long)

lemma incomplete_bound: "incomplete buf \<Longrightarrow> length buf < 4 + frame_limit"
  by (auto simp: incomplete_def frame_limit_def)

text \<open>Every buffer is a sequence of complete frames followed by an incomplete rest or by an
  oversized header; the loop finds that decomposition.\<close>

lemma stream_decompose:
  obtains ps rest where
    "buf = concat (map wire_frame ps) @ rest" and "\<forall>p \<in> set ps. length p \<le> frame_limit"
    and "incomplete rest \<or> oversized rest"
proof (induction buf arbitrary: thesis rule: length_induct)
  case (1 buf)
  show ?case
  proof (cases "incomplete buf \<or> oversized buf")
    case True
    then show ?thesis using 1(2) [of "[]" buf] by simp
  next
    case False
    define n where "n = be32_value buf"
    from False have b: "4 \<le> length buf" "n \<le> frame_limit" "4 + n \<le> length buf"
      by (auto simp: incomplete_def oversized_def n_def)
    define p where "p = take n (drop 4 buf)"
    have "length p = n" using b by (simp add: p_def)
    moreover have "be32 n = take 4 buf" using b by (simp add: n_def be32_be32_value)
    ultimately have buf: "buf = wire_frame p @ drop (4 + n) buf"
      by (simp add: wire_frame_def p_def flip: drop_drop)
         (metis add.commute append_take_drop_id drop_drop)
    have "length (drop (4 + n) buf) < length buf" using b by simp
    then obtain ps rest where
      ih: "drop (4 + n) buf = concat (map wire_frame ps) @ rest"
        "\<forall>p \<in> set ps. length p \<le> frame_limit" "incomplete rest \<or> oversized rest"
      using 1(1) by blast
    show ?thesis
    proof (rule 1(2) [of "p # ps" rest])
      show "buf = concat (map wire_frame (p # ps)) @ rest" using buf ih(1) by simp
      show "\<forall>q \<in> set (p # ps). length q \<le> frame_limit"
        using ih(2) \<open>length p = n\<close> b by simp
    qed (rule ih(3))
  qed
qed

lemma Decode_decomposed:
  assumes "\<forall>p \<in> set ps. length p \<le> frame_limit"
  shows "incomplete rest \<Longrightarrow>
      FrameCodec_Decode h (concat (map wire_frame ps) @ rest) = (Inr ps, rest)"
    and "oversized rest \<Longrightarrow>
      FrameCodec_Decode h (concat (map wire_frame ps) @ rest) =
        (Inl (RuntimeError ''frame too large''), rest)"
  using assms
  by (simp_all add: FrameCodec_Decode_def Decode_loop_frames Decode_loop_incomplete
    Decode_loop_oversized)

lemma Decode_cases:
  obtains (Frames) ps rest where "FrameCodec_Decode h buf = (Inr ps, rest)"
      "buf = concat (map wire_frame ps) @ rest" "\<forall>p \<in> set ps. length p \<le> frame_limit"
      "incomplete rest"
  | (Oversized) ps rest where
      "FrameCodec_Decode h buf = (Inl (RuntimeError ''frame too large''), rest)"
      "buf = concat (map wire_frame ps) @ rest" "\<forall>p \<in> set ps. length p \<le> frame_limit"
      "oversized rest"
  using stream_decompose [of buf] Decode_decomposed by metis

section \<open>Feeding a stream in pieces\<close>

text \<open>What a connection does over its lifetime: the pieces \<open>recv\<close> returns go through
  \<open>Decode(buffer, data, size)\<close> one after the other, up to the first exception.\<close>

fun feed_chunks ::
  "endianness \<Rightarrow> string \<Rightarrow> string list \<Rightarrow> (string list) result \<times> string" where
  "feed_chunks h buffer [] = (Inr [], buffer)"
| "feed_chunks h buffer (c # cs) =
     (case FrameCodec_DecodeAppend h buffer (Some c) (length c) of
        (Inl e, b) \<Rightarrow> (Inl e, b)
      | (Inr fs, b) \<Rightarrow>
          (case feed_chunks h b cs of
             (Inl e, b') \<Rightarrow> (Inl e, b')
           | (Inr gs, b') \<Rightarrow> (Inr (fs @ gs), b')))"

lemma DecodeAppend_all:
  "FrameCodec_DecodeAppend h buf (Some c) (length c) = FrameCodec_Decode h (buf @ c)"
  by (simp add: FrameCodec_DecodeAppend_def)

lemma oversized_append: "oversized buf \<Longrightarrow> oversized (buf @ more)"
  by (simp add: oversized_def be32_value_append)

lemma Decode_prefix_frames:
  assumes "\<forall>p \<in> set ps. length p \<le> frame_limit"
  shows "FrameCodec_Decode h (concat (map wire_frame ps) @ rest) =
    (case FrameCodec_Decode h rest of
       (Inl e, b) \<Rightarrow> (Inl e, b) | (Inr gs, b) \<Rightarrow> (Inr (ps @ gs), b))"
proof (cases h rest rule: Decode_cases)
  case (Frames gs tl)
  then have "\<forall>p \<in> set (ps @ gs). length p \<le> frame_limit" using assms by auto
  with Frames show ?thesis using Decode_decomposed(1) [of "ps @ gs" tl h] by simp
next
  case (Oversized gs tl)
  then have "\<forall>p \<in> set (ps @ gs). length p \<le> frame_limit" using assms by auto
  with Oversized show ?thesis using Decode_decomposed(2) [of "ps @ gs" tl h] by simp
qed

lemma Decode_append:
  "FrameCodec_Decode h (buf @ more) =
    (case FrameCodec_Decode h buf of
       (Inl e, b) \<Rightarrow> (Inl e, b @ more)
     | (Inr fs, b) \<Rightarrow>
         (case FrameCodec_Decode h (b @ more) of
            (Inl e, b') \<Rightarrow> (Inl e, b') | (Inr gs, b') \<Rightarrow> (Inr (fs @ gs), b')))"
proof (cases h buf rule: Decode_cases)
  case (Frames ps rest)
  then show ?thesis using Decode_prefix_frames [of ps h "rest @ more"] by simp
next
  case (Oversized ps rest)
  then show ?thesis
    using Decode_decomposed(2) [of ps "rest @ more" h] by (simp add: oversized_append)
qed

section \<open>Properties of the codec\<close>

text \<open>Claim C17: a sequence of payloads of at most 1 MiB, encoded on one host and decoded on
  another (of either byte order), followed by an incomplete rest, comes out unchanged and in
  order, and the rest stays in the buffer.\<close>

theorem codec_roundtrip:
  assumes "\<forall>p \<in> set ps. length p \<le> frame_limit" and "incomplete tail"
  shows "\<exists>fs. map (FrameCodec_Encode sender) ps = map Inr fs \<and>
    FrameCodec_Decode receiver (concat fs @ tail) = (Inr ps, tail)"
proof (intro exI conjI)
  show "map (FrameCodec_Encode sender) ps = map Inr (map wire_frame ps)"
    using assms(1) by (simp add: Encode_wire_frame)
  show "FrameCodec_Decode receiver (concat (map wire_frame ps) @ tail) = (Inr ps, tail)"
    using assms by (rule Decode_decomposed(1))
qed

theorem codec_roundtrip_witness:
  "\<exists>fs. map (FrameCodec_Encode LittleEndian) [''PING'', ''GET k''] = map Inr fs \<and>
    FrameCodec_Decode BigEndian (concat fs @ ''ab'') = (Inr [''PING'', ''GET k''], ''ab'')"
  by (rule codec_roundtrip) (simp_all add: frame_limit_def incomplete_def)

text \<open>Claim C10: decoding does not depend on how TCP cuts the stream: feeding any pieces one after
  the other gives the frames, or the exception, of decoding the whole stream at once, and leaves
  the same rest in the buffer.\<close>

theorem decode_chunking:
  assumes "incomplete buf"
  shows "fst (feed_chunks h buf chunks) = fst (FrameCodec_Decode h (buf @ concat chunks)) \<and>
    (\<forall>fs rest. feed_chunks h buf chunks = (Inr fs, rest) \<longleftrightarrow>
       FrameCodec_Decode h (buf @ concat chunks) = (Inr fs, rest))"
  using assms
proof (induction chunks arbitrary: buf)
  case Nil
  then have "FrameCodec_Decode h buf = (Inr [], buf)"
    using Decode_decomposed(1) [of "[]"] by simp
  then show ?case by auto
next
  case (Cons c cs)
  note whole = Decode_append [of h "buf @ c" "concat cs", unfolded append_assoc]
  show ?case
  proof (cases h "buf @ c" rule: Decode_cases)
    case (Frames ps rest)
    have "FrameCodec_Decode h (buf @ concat (c # cs)) =
      (case FrameCodec_Decode h (rest @ concat cs) of
         (Inl e, b') \<Rightarrow> (Inl e, b') | (Inr gs, b') \<Rightarrow> (Inr (ps @ gs), b'))"
      using whole by (simp add: Frames(1))
    moreover have "feed_chunks h buf (c # cs) =
      (case feed_chunks h rest cs of
         (Inl e, b') \<Rightarrow> (Inl e, b') | (Inr gs, b') \<Rightarrow> (Inr (ps @ gs), b'))"
      by (simp add: DecodeAppend_all Frames(1))
    ultimately show ?thesis using Cons.IH [OF Frames(4)]
      by (cases "feed_chunks h rest cs"; cases "FrameCodec_Decode h (rest @ concat cs)")
        (auto split: sum.splits)
  next
    case (Oversized ps rest)
    with whole show ?thesis by (simp add: DecodeAppend_all)
  qed
qed

theorem decode_chunking_witness:
  "fst (feed_chunks LittleEndian [] [[CHR 0x00, CHR 0x00], [CHR 0x00, CHR 0x02, CHR ''h''], ''i'']) =
     fst (FrameCodec_Decode LittleEndian [CHR 0x00, CHR 0x00, CHR 0x00, CHR 0x02, CHR ''h'', CHR ''i''])"
  using decode_chunking [of "[]" LittleEndian
    "[[CHR 0x00, CHR 0x00], [CHR 0x00, CHR 0x02, CHR ''h''], ''i'']"]
  by (simp add: incomplete_def)

text \<open>Claim C35: decoding accounts for every byte: on success the buffer was the encoding of the
  returned payloads followed by what is left, each payload is at most 1 MiB, and what is left is
  an incomplete frame of fewer than 4 + 1 MiB bytes.\<close>

theorem decode_sound:
  assumes "FrameCodec_Decode h buf = (Inr ps, rest)"
  shows "buf = concat (map wire_frame ps) @ rest \<and> (\<forall>p \<in> set ps. length p \<le> frame_limit) \<and>
    incomplete rest \<and> length rest < 4 + frame_limit"
  using assms by (cases h buf rule: Decode_cases) (auto simp: incomplete_bound)

theorem decode_sound_witness:
  "wire_frame ''PING'' @ ''x'' = concat (map wire_frame [''PING'']) @ ''x'' \<and>
    length ''PING'' \<le> frame_limit \<and> incomplete ''x'' \<and> length ''x'' < 4 + frame_limit"
proof -
  have "FrameCodec_Decode LittleEndian (wire_frame ''PING'' @ ''x'') = (Inr [''PING''], ''x'')"
    using Decode_decomposed(1) [of "[''PING'']" "''x''" LittleEndian]
    by (simp add: frame_limit_def incomplete_def)
  from decode_sound [OF this] show ?thesis by simp
qed

text \<open>A length above 1 MiB is refused wherever it occurs in the stream, and it costs the
  caller every complete frame in front of it: the exception carries none of them and the buffer
  starts at the offending header.\<close>

theorem decode_oversized:
  assumes "\<forall>p \<in> set ps. length p \<le> frame_limit" and "4 \<le> length rest"
    and "frame_limit < be32_value rest"
  shows "FrameCodec_Decode h (concat (map wire_frame ps) @ rest) =
    (Inl (RuntimeError ''frame too large''), rest)"
  using assms by (intro Decode_decomposed(2)) (simp_all add: oversized_def)

theorem decode_oversized_witness:
  "FrameCodec_Decode LittleEndian (concat (map wire_frame [''PING'']) @ [CHR 0x00, CHR 0x10, CHR 0x00, CHR 0x01]) =
    (Inl (RuntimeError ''frame too large''), [CHR 0x00, CHR 0x10, CHR 0x00, CHR 0x01])"
  by (rule decode_oversized) (simp_all add: frame_limit_def)

lemma Encode_value:
  "FrameCodec_Encode h p =
    (if length p \<le> frame_limit then Inr (be32 (length p) @ p)
     else if length p mod 2 ^ 32 \<le> frame_limit
       then Inl (UndefinedBehaviour ''memcpy past the end of the destination'')
     else Inl (RuntimeError ''The payload is too large''))"
proof -
  have u: "unat (of_nat (length p) :: u32) = length p mod 2 ^ 32" by (simp add: unat_of_nat)
  have wrap: "length p mod 2 ^ 32 < length p" if "frame_limit < length p" "length p mod 2 ^ 32 \<le> frame_limit"
    using that by linarith
  show ?thesis
    using Encode_wire_frame [of p h] wrap
    by (auto simp: FrameCodec_Encode_def Let_def word_less_nat_alt u memcpy_at_def HEADER_SIZE_def
      store_htonl wire_frame_def)
qed

lemma Encode_InrD: "FrameCodec_Encode h p = Inr f \<Longrightarrow> f = wire_frame p \<and> length p \<le> frame_limit"
  by (auto simp: Encode_value wire_frame_def split: if_splits)

text \<open>Claim C39: encoding on every size: up to 1 MiB the frame is the big endian length and the
  payload on every host, above it the payload is refused, and from 4 GiB on the length is
  truncated to 32 bits before the check, so that a payload whose size is small modulo 4 GiB
  passes it and \<open>memcpy\<close> writes past the frame.\<close>

theorem encode_cases:
  "FrameCodec_Encode h p =
    (if length p \<le> frame_limit then Inr (be32 (length p) @ p)
     else if length p mod 2 ^ 32 \<le> frame_limit
       then Inl (UndefinedBehaviour ''memcpy past the end of the destination'')
     else Inl (RuntimeError ''The payload is too large''))"
  by (rule Encode_value)

end
