(* ===== verification/Command_Parser.thy ===== *)
theory Command_Parser
  imports Prelude
begin

text \<open>
  The command parser (command_parser.h, command_parser.cpp): the helpers of its anonymous
  namespace, with their index loops, and \<open>ParseCommand\<close>.

  Characters are bytes and the character classes are those of the \<open>C\<close> locale, which the program
  never changes; \<open>std::istringstream >> word\<close> splits at the same white space.

  The lemmas relate the loops to list functions (\<open>dropWhile\<close>, \<open>takeWhile\<close>) and the decimal
  reader to the value of the digit string; the properties state what is parsed: commands written
  with any letter case and spacing come out with their key, value and seconds, and a command that
  is not \<open>Unknown\<close> has exactly the shape its type promises.
\<close>

section \<open>Definitions\<close>

datatype CommandType =
  Ping | Set | Get | Del | Expire | Ttl | Stats | Quit | Help | Unknown

record Command =
  cmd_type :: CommandType
  cmd_key :: string
  cmd_value :: string
  cmd_seconds :: int
  cmd_raw :: string

definition IsSpace :: "char \<Rightarrow> bool" where
  "IsSpace ch \<longleftrightarrow> ch = CHR '' '' \<or> (9 \<le> (of_char ch :: nat) \<and> (of_char ch :: nat) \<le> 13)"

definition IsDigit :: "char \<Rightarrow> bool" where
  "IsDigit ch \<longleftrightarrow> 48 \<le> (of_char ch :: nat) \<and> (of_char ch :: nat) \<le> 57"

definition toupper_ch :: "char \<Rightarrow> char" where
  "toupper_ch ch =
     (if 97 \<le> (of_char ch :: nat) \<and> (of_char ch :: nat) \<le> 122
      then char_of ((of_char ch :: nat) - 32) else ch)"

text \<open>\<open>while (pos < text.size() && P(text[pos])) ++pos;\<close>\<close>

function skip_while :: "(char \<Rightarrow> bool) \<Rightarrow> string \<Rightarrow> nat \<Rightarrow> nat" where
  "skip_while P text pos =
     (if pos < length text \<and> P (text ! pos) then skip_while P text (Suc pos) else pos)"
  by pat_completeness auto
termination
  by (relation "measure (\<lambda>(P, text, pos). length text - pos)") auto

declare skip_while.simps [simp del]

text \<open>\<open>while (end > begin && IsSpace(text[end - 1])) end--;\<close>\<close>

fun trim_end :: "string \<Rightarrow> nat \<Rightarrow> nat \<Rightarrow> nat" where
  "trim_end text b 0 = 0"
| "trim_end text b (Suc e) =
     (if Suc e > b \<and> IsSpace (text ! e) then trim_end text b e else Suc e)"

definition Trim :: "string \<Rightarrow> string" where
  "Trim text =
     (let b = skip_while IsSpace text 0;
          e = trim_end text b (length text)
      in take (e - b) (drop b text))"

definition UpperCopy :: "string \<Rightarrow> string" where
  "UpperCopy text = map toupper_ch text"

function SplitWords :: "string \<Rightarrow> string list" where
  "SplitWords text =
     (let rest = dropWhile IsSpace text
      in if rest = [] then []
         else takeWhile (\<lambda>c. \<not> IsSpace c) rest # SplitWords (dropWhile (\<lambda>c. \<not> IsSpace c) rest))"
  by pat_completeness auto
termination
proof (relation "measure length")
  fix t rest
  assume rest: "rest = dropWhile IsSpace t" and "rest \<noteq> []"
  then have "\<not> IsSpace (hd rest)" by (simp add: hd_dropWhile)
  then have "length (dropWhile (\<lambda>c. \<not> IsSpace c) rest) < length rest"
    using \<open>rest \<noteq> []\<close> by (cases rest) (auto simp: le_imp_less_Suc length_dropWhile_le)
  also have "length rest \<le> length t" by (simp add: rest length_dropWhile_le)
  finally show "(dropWhile (\<lambda>c. \<not> IsSpace c) rest, t) \<in> measure length" by simp
qed simp

declare SplitWords.simps [simp del]

fun words_end :: "string \<Rightarrow> nat \<Rightarrow> nat \<Rightarrow> nat option" where
  "words_end text 0 pos = Some pos"
| "words_end text (Suc n) pos =
     (let p = skip_while IsSpace text pos
      in if p = length text then None
         else words_end text n (skip_while (\<lambda>c. \<not> IsSpace c) text p))"

definition RestAfterNWords :: "string \<Rightarrow> nat \<Rightarrow> string" where
  "RestAfterNWords text word_count =
     (case words_end text word_count 0 of
        None \<Rightarrow> ''''
      | Some pos \<Rightarrow>
          let p = skip_while IsSpace text pos
          in if p = length text then '''' else Trim (drop p text))"

definition int_max :: int where
  "int_max = 2147483647"

text \<open>The digit loop of \<open>ParsePositiveInt\<close>; \<open>None\<close> is its \<open>return false\<close>. The accumulator is a
  \<open>long long\<close>; lemma \<open>digits_loop_no_overflow\<close> below shows that it never wraps.\<close>

fun digits_loop :: "int \<Rightarrow> string \<Rightarrow> int option" where
  "digits_loop result [] = Some result"
| "digits_loop result (ch # text) =
     (if \<not> IsDigit ch then None
      else let result = result * 10 + (int (of_char ch) - 48)
           in if result > int_max then None else digits_loop result text)"

definition ParsePositiveInt :: "string \<Rightarrow> int option" where
  "ParsePositiveInt text =
     (if text = [] then None
      else case digits_loop 0 text of
             None \<Rightarrow> None
           | Some result \<Rightarrow> if result \<le> 0 then None else Some result)"

definition fresh_command :: "string \<Rightarrow> Command" where
  "fresh_command raw = \<lparr>cmd_type = Unknown, cmd_key = '''', cmd_value = '''', cmd_seconds = 0,
     cmd_raw = raw\<rparr>"

definition MakeUnknow :: "string \<Rightarrow> Command" where
  "MakeUnknow raw = (fresh_command raw)\<lparr>cmd_type := Unknown, cmd_raw := raw\<rparr>"

text \<open>The lambda \<open>FillBasicCmd\<close> together with the conditional of its callers: the filled command,
  or \<open>MakeUnknow(line)\<close> on a wrong number of words.\<close>

definition FillBasicCmd :: "Command \<Rightarrow> string \<Rightarrow> string list \<Rightarrow> CommandType \<Rightarrow> nat \<Rightarrow> Command" where
  "FillBasicCmd cmd line parts ty expectedArgCount =
     (if length parts \<noteq> expectedArgCount then MakeUnknow line
      else if expectedArgCount \<ge> 2 then cmd\<lparr>cmd_type := ty, cmd_key := parts ! 1\<rparr>
      else cmd\<lparr>cmd_type := ty\<rparr>)"

definition ParseCommand :: "string \<Rightarrow> Command" where
  "ParseCommand line =
     (let cmd = fresh_command line;
          text = Trim line
      in if text = [] then cmd
      else let parts = SplitWords text
      in if parts = [] then cmd
      else let op = UpperCopy (parts ! 0); argsCount = length parts
      in if op = ''PING'' then FillBasicCmd cmd line parts Ping 1
      else if op = ''STATS'' then FillBasicCmd cmd line parts Stats 1
      else if op = ''QUIT'' then FillBasicCmd cmd line parts Quit 1
      else if op = ''HELP'' then FillBasicCmd cmd line parts Help 1
      else if op = ''GET'' then FillBasicCmd cmd line parts Get 2
      else if op = ''DEL'' then FillBasicCmd cmd line parts Del 2
      else if op = ''TTL'' then FillBasicCmd cmd line parts Ttl 2
      else if op = ''SET'' then
        (if argsCount < 3 then MakeUnknow line
         else let value = RestAfterNWords text 2
              in if value = [] then MakeUnknow line
                 else cmd\<lparr>cmd_type := Set, cmd_key := parts ! 1, cmd_value := value\<rparr>)
      else if op = ''EXPIRE'' then
        (if argsCount \<noteq> 3 then MakeUnknow line
         else case ParsePositiveInt (parts ! 2) of
                None \<Rightarrow> MakeUnknow line
              | Some seconds \<Rightarrow>
                  cmd\<lparr>cmd_type := Expire, cmd_key := parts ! 1, cmd_seconds := seconds\<rparr>)
      else cmd)"

section \<open>The index loops as list functions\<close>

declare dropWhile_eq_Nil_conv [simp del]

lemma skip_while_le: "pos \<le> length t \<Longrightarrow> skip_while P t pos \<le> length t"
  by (induction P t pos rule: skip_while.induct) (simp add: skip_while.simps)

lemma skip_while_drop:
  "pos \<le> length t \<Longrightarrow> drop (skip_while P t pos) t = dropWhile P (drop pos t)"
proof (induction P t pos rule: skip_while.induct)
  case (1 P t pos)
  show ?case
  proof (cases "pos < length t")
    case True
    then have "drop pos t = t ! pos # drop (Suc pos) t"
      by (simp add: Cons_nth_drop_Suc)
    with 1 True show ?thesis by (simp add: skip_while.simps [of P t pos])
  next
    case False
    with 1 have "pos = length t" by simp
    then show ?thesis by (simp add: skip_while.simps [of P t "length t"])
  qed
qed

text \<open>Removing white space at both ends, as a specification.\<close>

definition strip_end :: "string \<Rightarrow> string" where
  "strip_end t = rev (dropWhile IsSpace (rev t))"

lemma strip_end_snoc: "strip_end (t @ [c]) = (if IsSpace c then strip_end t else t @ [c])"
  by (simp add: strip_end_def)

lemma trim_end_strip:
  "b \<le> e \<Longrightarrow> e \<le> length t \<Longrightarrow>
    take (trim_end t b e - b) (drop b t) = strip_end (take (e - b) (drop b t))"
proof (induction e)
  case 0
  then show ?case by (simp add: strip_end_def)
next
  case (Suc e)
  show ?case
  proof (cases "b \<le> e")
    case True
    then have "take (Suc e - b) (drop b t) = take (e - b) (drop b t) @ [t ! e]"
      using Suc.prems by (simp add: Suc_diff_le take_Suc_conv_app_nth)
    with True Suc show ?thesis by (simp add: strip_end_snoc)
  next
    case False
    with Suc.prems have "b = Suc e" by simp
    then show ?thesis by (simp add: strip_end_def)
  qed
qed

lemma Trim_strip: "Trim t = strip_end (dropWhile IsSpace t)"
proof -
  let ?b = "skip_while IsSpace t 0"
  have b: "?b \<le> length t" by (rule skip_while_le) simp
  have "Trim t = strip_end (drop ?b t)"
    unfolding Trim_def Let_def using trim_end_strip [OF b order_refl] by simp
  then show ?thesis by (simp add: skip_while_drop)
qed

section \<open>Words and white space\<close>

definition is_word :: "string \<Rightarrow> bool" where
  "is_word w \<longleftrightarrow> w \<noteq> [] \<and> (\<forall>c \<in> set w. \<not> IsSpace c)"

definition spaces :: "string \<Rightarrow> bool" where
  "spaces s \<longleftrightarrow> (\<forall>c \<in> set s. IsSpace c)"

lemma dropWhile_spaces: "spaces s \<Longrightarrow> dropWhile IsSpace (s @ t) = dropWhile IsSpace t"
  by (simp add: spaces_def dropWhile_append2)

lemma dropWhile_word: "is_word w \<Longrightarrow> dropWhile IsSpace (w @ t) = w @ t"
  by (cases w) (auto simp: is_word_def)

lemma takeWhile_word: "is_word w \<Longrightarrow> t = [] \<or> IsSpace (hd t) \<Longrightarrow>
    takeWhile (\<lambda>c. \<not> IsSpace c) (w @ t) = w"
  by (cases t) (auto simp: is_word_def takeWhile_append2)

lemma dropWhile_after_word: "is_word w \<Longrightarrow> t = [] \<or> IsSpace (hd t) \<Longrightarrow>
    dropWhile (\<lambda>c. \<not> IsSpace c) (w @ t) = t"
  by (cases t) (auto simp: is_word_def dropWhile_append2 dropWhile_eq_Nil_conv)

lemma hd_spaces: "spaces s \<Longrightarrow> s \<noteq> [] \<Longrightarrow> IsSpace (hd (s @ t))"
  by (cases s) (auto simp: spaces_def)

lemma SplitWords_spaces: "spaces s \<Longrightarrow> SplitWords (s @ t) = SplitWords t"
  by (simp add: SplitWords.simps [of "s @ t"] SplitWords.simps [of t] dropWhile_spaces)

lemma SplitWords_word:
  "is_word w \<Longrightarrow> t = [] \<or> IsSpace (hd t) \<Longrightarrow> SplitWords (w @ t) = w # SplitWords t"
  by (simp add: SplitWords.simps [of "w @ t"] Let_def dropWhile_word takeWhile_word
    dropWhile_after_word) (simp add: is_word_def)

lemma SplitWords_Nil [simp]: "SplitWords [] = []"
  by (simp add: SplitWords.simps)

lemma SplitWords_only_spaces: "spaces s \<Longrightarrow> SplitWords s = []"
  using SplitWords_spaces [of s "[]"] by simp

lemma SplitWords_dropWhile: "SplitWords (dropWhile IsSpace t) = SplitWords t"
  by (simp add: SplitWords.simps [of t] SplitWords.simps [of "dropWhile IsSpace t"])

text \<open>Induction over a text as white space, a word, and the rest.\<close>

lemma text_induct [case_names Blank Word]:
  assumes "\<And>s. spaces s \<Longrightarrow> P s"
    and "\<And>s w t. spaces s \<Longrightarrow> is_word w \<Longrightarrow> t = [] \<or> IsSpace (hd t) \<Longrightarrow> P t \<Longrightarrow> P (s @ w @ t)"
  shows "P u"
proof (induction u rule: length_induct)
  case (1 u)
  define s where "s = takeWhile IsSpace u"
  define v where "v = dropWhile IsSpace u"
  have u: "u = s @ v" by (simp add: s_def v_def)
  have s: "spaces s" by (auto simp: s_def spaces_def dest: set_takeWhileD)
  show ?case
  proof (cases "v = []")
    case True
    then show ?thesis using assms(1) [OF s] u by simp
  next
    case False
    define w where "w = takeWhile (\<lambda>c. \<not> IsSpace c) v"
    define t where "t = dropWhile (\<lambda>c. \<not> IsSpace c) v"
    have v: "v = w @ t" by (simp add: w_def t_def)
    have "\<not> IsSpace (hd v)" using False hd_dropWhile [of IsSpace u] by (simp add: v_def)
    then have "w \<noteq> []" using False by (cases v) (auto simp: w_def)
    then have w: "is_word w" by (auto simp: w_def is_word_def dest: set_takeWhileD)
    have t: "t = [] \<or> IsSpace (hd t)" using hd_dropWhile [of "\<lambda>c. \<not> IsSpace c" v] by (auto simp: t_def)
    have "length t < length u" using \<open>w \<noteq> []\<close> by (simp add: u v)
    with 1 have "P t" by blast
    from assms(2) [OF s w t this] show ?thesis by (simp add: u v)
  qed
qed

lemma SplitWords_step:
  "spaces s \<Longrightarrow> is_word w \<Longrightarrow> t = [] \<or> IsSpace (hd t) \<Longrightarrow>
    SplitWords (s @ w @ t) = w # SplitWords t"
  by (simp add: SplitWords_spaces SplitWords_word)

lemma SplitWords_words: "\<forall>w \<in> set (SplitWords u). is_word w"
  by (induction u rule: text_induct) (auto simp: SplitWords_only_spaces SplitWords_step)

lemma strip_end_spaces: "spaces s \<Longrightarrow> strip_end (t @ s) = strip_end t"
  unfolding strip_end_def rev_append by (subst dropWhile_append2) (auto simp: spaces_def)

lemma strip_end_last: "t \<noteq> [] \<Longrightarrow> \<not> IsSpace (last t) \<Longrightarrow> strip_end t = t"
  by (simp add: strip_end_def) (metis dropWhile.simps(2) hd_rev list.collapse rev_is_Nil_conv rev_rev_ident)

lemma strip_end_decompose: obtains s where "t = strip_end t @ s" and "spaces s"
proof
  show "t = strip_end t @ rev (takeWhile IsSpace (rev t))"
    by (simp add: strip_end_def flip: rev_append)
  show "spaces (rev (takeWhile IsSpace (rev t)))" by (auto simp: spaces_def dest: set_takeWhileD)
qed

lemma SplitWords_append_spaces: "spaces s \<Longrightarrow> SplitWords (t @ s) = SplitWords t"
proof (induction t rule: text_induct)
  case (Blank t)
  then have "spaces (t @ s)" by (auto simp: spaces_def)
  with Blank show ?case by (simp add: SplitWords_only_spaces)
next
  case (Word b w t)
  have "t @ s = [] \<or> IsSpace (hd (t @ s))"
    using Word.hyps(3) Word.prems by (cases t; cases s) (auto simp: spaces_def)
  with Word show ?case by (simp add: SplitWords_step)
qed

lemma SplitWords_Trim: "SplitWords (Trim t) = SplitWords t"
proof -
  obtain s where "dropWhile IsSpace t = Trim t @ s" and "spaces s"
    by (rule strip_end_decompose [of "dropWhile IsSpace t"]) (simp add: Trim_strip)
  then have "SplitWords (dropWhile IsSpace t) = SplitWords (Trim t)"
    by (simp add: SplitWords_append_spaces)
  then show ?thesis by (simp add: SplitWords_dropWhile)
qed

lemma Trim_body: "spaces s \<Longrightarrow> spaces s' \<Longrightarrow> t \<noteq> [] \<Longrightarrow> \<not> IsSpace (hd t) \<Longrightarrow> \<not> IsSpace (last t) \<Longrightarrow>
    Trim (s @ t @ s') = t"
proof -
  assume a: "spaces s" "spaces s'" "t \<noteq> []" "\<not> IsSpace (hd t)" "\<not> IsSpace (last t)"
  then have "dropWhile IsSpace (t @ s') = t @ s'" by (cases t) auto
  with a show ?thesis by (simp add: Trim_strip dropWhile_spaces strip_end_spaces strip_end_last)
qed

lemma Trim_dropWhile: "Trim (dropWhile IsSpace t) = Trim t"
  by (simp add: Trim_strip)

lemma hd_Trim: "Trim t \<noteq> [] \<Longrightarrow> \<not> IsSpace (hd (Trim t))"
proof -
  assume ne: "Trim t \<noteq> []"
  obtain s where s: "dropWhile IsSpace t = Trim t @ s"
    by (rule strip_end_decompose [of "dropWhile IsSpace t"]) (simp add: Trim_strip)
  with ne have "hd (dropWhile IsSpace t) = hd (Trim t)" by simp
  with s ne show ?thesis using hd_dropWhile [of IsSpace t] by fastforce
qed

lemma last_Trim: "Trim t \<noteq> [] \<Longrightarrow> \<not> IsSpace (last (Trim t))"
  using hd_dropWhile [of IsSpace "rev (dropWhile IsSpace t)"]
  by (auto simp: Trim_strip strip_end_def last_rev)

lemma Trim_Trim [simp]: "Trim (Trim t) = Trim t"
proof (cases "Trim t = []")
  case True
  have "Trim [] = []" by (simp add: Trim_strip strip_end_def)
  with True show ?thesis by simp
next
  case False
  then show ?thesis
    using Trim_body [of "[]" "[]" "Trim t"] hd_Trim last_Trim by (simp add: spaces_def)
qed

lemma Trim_empty_iff: "Trim t = [] \<longleftrightarrow> SplitWords t = []"
proof
  assume "Trim t = []"
  then show "SplitWords t = []" using SplitWords_Trim [of t] by simp
next
  assume "SplitWords t = []"
  then have "dropWhile IsSpace t = []"
    by (simp add: SplitWords.simps [of t] Let_def  split: if_splits)
  then show "Trim t = []" by (simp add: Trim_strip strip_end_def)
qed

section \<open>The rest after some words\<close>

fun drop_words :: "nat \<Rightarrow> string \<Rightarrow> string option" where
  "drop_words 0 t = Some t"
| "drop_words (Suc n) t =
     (let r = dropWhile IsSpace t
      in if r = [] then None else drop_words n (dropWhile (\<lambda>c. \<not> IsSpace c) r))"

lemma words_end_le: "pos \<le> length t \<Longrightarrow> words_end t n pos = Some p \<Longrightarrow> p \<le> length t"
proof (induction n arbitrary: pos)
  case (Suc n)
  let ?q = "skip_while (\<lambda>c. \<not> IsSpace c) t (skip_while IsSpace t pos)"
  have "?q \<le> length t" using Suc.prems by (simp add: skip_while_le)
  with Suc show ?case by (auto simp: Let_def split: if_splits)
qed simp

lemma skip_while_end: "pos \<le> length t \<Longrightarrow>
    skip_while P t pos = length t \<longleftrightarrow> dropWhile P (drop pos t) = []"
  using skip_while_drop [of pos t P] skip_while_le [of pos t P] by (metis drop_eq_Nil le_antisym order_refl)

lemma words_end_drop: "pos \<le> length t \<Longrightarrow>
    map_option (\<lambda>p. drop p t) (words_end t n pos) = drop_words n (drop pos t)"
  by (induction n arbitrary: pos) (simp_all add: Let_def skip_while_end skip_while_le skip_while_drop)

lemma RestAfterNWords_drop:
  "RestAfterNWords t n = (case drop_words n t of None \<Rightarrow> [] | Some r \<Rightarrow> Trim r)"
proof (cases "words_end t n 0")
  case None
  then show ?thesis using words_end_drop [of 0 t n] by (simp add: RestAfterNWords_def)
next
  case (Some pos)
  have le: "pos \<le> length t" using Some by (rule words_end_le [rotated]) simp
  have r: "drop_words n t = Some (drop pos t)" using words_end_drop [of 0 t n] Some by simp
  show ?thesis
  proof (cases "dropWhile IsSpace (drop pos t) = []")
    case True
    then have "Trim (drop pos t) = []" by (simp add: Trim_strip strip_end_def)
    with True show ?thesis
      by (simp add: RestAfterNWords_def Some r skip_while_end le)
  next
    case False
    then show ?thesis
      by (simp add: RestAfterNWords_def Some r skip_while_end le skip_while_drop Trim_dropWhile)
  qed
qed

lemma drop_words_step:
  "spaces s \<Longrightarrow> is_word w \<Longrightarrow> t = [] \<or> IsSpace (hd t) \<Longrightarrow>
    drop_words (Suc n) (s @ w @ t) = drop_words n t"
  by (simp add: dropWhile_spaces dropWhile_word dropWhile_after_word) (simp add: is_word_def)

lemma drop_words_split: "n \<le> length (SplitWords t) \<Longrightarrow>
    \<exists>r. drop_words n t = Some r \<and> SplitWords r = drop n (SplitWords t)"
proof (induction n arbitrary: t)
  case (Suc n)
  from Suc show ?case
  proof (induction t rule: text_induct)
    case (Word s w u)
    then show ?case using Suc.IH [of u]
      by (simp add: SplitWords_step drop_words_step del: drop_words.simps)
  qed (simp add: SplitWords_only_spaces)
qed simp

lemma RestAfterNWords_nonempty:
  "n < length (SplitWords t) \<Longrightarrow> RestAfterNWords t n \<noteq> []"
  using drop_words_split [of n t] by (auto simp: RestAfterNWords_drop Trim_empty_iff)

section \<open>The number of seconds\<close>

lemma IsDigit_value: "IsDigit c \<Longrightarrow> 0 \<le> int (of_char c) - 48 \<and> int (of_char c) - 48 \<le> 9"
  by (simp add: IsDigit_def)

lemma digits_loop_no_overflow:
  assumes "0 \<le> r" and "r \<le> int_max" and "IsDigit c"
  shows "0 \<le> r * 10 + (int (of_char c) - 48) \<and> r * 10 + (int (of_char c) - 48) < 2 ^ 63"
  using assms IsDigit_value [of c] by (simp add: int_max_def)

lemma dec_value_mono: "\<forall>c \<in> set t. IsDigit c \<Longrightarrow> 0 \<le> r \<Longrightarrow> r \<le> dec_value r t"
proof (induction t arbitrary: r)
  case (Cons c t)
  have "r \<le> r * 10 + (int (of_char c) - 48)" "0 \<le> r * 10 + (int (of_char c) - 48)"
    using Cons.prems IsDigit_value [of c] by auto
  with Cons.IH [of "r * 10 + (int (of_char c) - 48)"] Cons.prems show ?case by simp
qed simp

lemma digits_loop_iff: "0 \<le> r \<Longrightarrow> r \<le> int_max \<Longrightarrow>
    digits_loop r t = Some v \<longleftrightarrow>
      (\<forall>c \<in> set t. IsDigit c) \<and> v = dec_value r t \<and> dec_value r t \<le> int_max"
proof (induction t arbitrary: r)
  case (Cons c t)
  show ?case
  proof (cases "IsDigit c")
    case True
    let ?r = "r * 10 + (int (of_char c) - 48)"
    have "0 \<le> ?r" using Cons.prems IsDigit_value [OF True] by simp
    then show ?thesis using True Cons.IH [of ?r] dec_value_mono [of t ?r]
      by (auto simp: Let_def)
  qed simp
qed auto

lemma ParsePositiveInt_iff:
  "ParsePositiveInt t = Some n \<longleftrightarrow>
     t \<noteq> [] \<and> (\<forall>c \<in> set t. IsDigit c) \<and> n = dec_value 0 t \<and> 1 \<le> n \<and> n \<le> int_max"
proof (cases "digits_loop 0 t")
  case None
  then have "\<not> ((\<forall>c \<in> set t. IsDigit c) \<and> dec_value 0 t \<le> int_max)"
    using digits_loop_iff [of 0 t "dec_value 0 t"] by (auto simp: int_max_def)
  with None show ?thesis by (auto simp: ParsePositiveInt_def)
next
  case (Some v)
  then have "(\<forall>c \<in> set t. IsDigit c) \<and> v = dec_value 0 t \<and> dec_value 0 t \<le> int_max"
    using digits_loop_iff [of 0 t v] by (auto simp: int_max_def)
  with Some show ?thesis by (auto simp: ParsePositiveInt_def)
qed

section \<open>Properties of the parser\<close>

text \<open>The invariant of a parsed command: what its type promises about its fields.\<close>

definition well_formed_command :: "Command \<Rightarrow> bool" where
  "well_formed_command c \<longleftrightarrow>
     (cmd_key c \<noteq> [] \<longleftrightarrow> cmd_type c \<in> {Set, Get, Del, Ttl, Expire}) \<and>
     (cmd_key c \<noteq> [] \<longrightarrow> is_word (cmd_key c)) \<and>
     (cmd_value c \<noteq> [] \<longleftrightarrow> cmd_type c = Set) \<and> Trim (cmd_value c) = cmd_value c \<and>
     (if cmd_type c = Expire then 1 \<le> cmd_seconds c \<and> cmd_seconds c \<le> int_max
      else cmd_seconds c = 0)"

lemma Trim_Nil [simp]: "Trim [] = []"
  by (simp add: Trim_strip strip_end_def)

lemma well_formed_unknown [simp]: "well_formed_command (MakeUnknow l)"
    "well_formed_command (fresh_command l)"
  by (simp_all add: well_formed_command_def MakeUnknow_def fresh_command_def)

lemma raw_unknown [simp]: "cmd_raw (MakeUnknow l) = l" "cmd_raw (fresh_command l) = l"
  by (simp_all add: MakeUnknow_def fresh_command_def)

lemma parts_word: "i < length (SplitWords t) \<Longrightarrow> is_word (SplitWords t ! i)"
  using SplitWords_words [of t] by simp

definition parsed_ok :: "string \<Rightarrow> Command \<Rightarrow> bool" where
  "parsed_ok l c \<longleftrightarrow> well_formed_command c \<and> cmd_raw c = l"

lemma parsed_ok_if:
  "(b \<Longrightarrow> parsed_ok l x) \<Longrightarrow> (\<not> b \<Longrightarrow> parsed_ok l y) \<Longrightarrow> parsed_ok l (if b then x else y)"
  by simp

lemma parsed_ok_option:
  "(v = None \<Longrightarrow> parsed_ok l x) \<Longrightarrow> (\<And>n. v = Some n \<Longrightarrow> parsed_ok l (f n)) \<Longrightarrow>
    parsed_ok l (case v of None \<Rightarrow> x | Some n \<Rightarrow> f n)"
  by (cases v) simp_all

lemma parsed_ok_unknown: "parsed_ok l (MakeUnknow l)" "parsed_ok l (fresh_command l)"
  by (simp_all add: parsed_ok_def)

lemma FillBasicCmd_0: "ty \<in> {Ping, Stats, Quit, Help} \<Longrightarrow>
    parsed_ok l (FillBasicCmd (fresh_command l) l (SplitWords t) ty 1)"
  by (auto simp: parsed_ok_def FillBasicCmd_def well_formed_command_def fresh_command_def
    MakeUnknow_def)

lemma FillBasicCmd_1: "ty \<in> {Get, Del, Ttl} \<Longrightarrow>
    parsed_ok l (FillBasicCmd (fresh_command l) l (SplitWords t) ty 2)"
  using parts_word [of 1 t]
  by (auto simp: parsed_ok_def FillBasicCmd_def well_formed_command_def fresh_command_def
    MakeUnknow_def is_word_def)

lemma RestAfterNWords_Trim: "Trim (RestAfterNWords t n) = RestAfterNWords t n"
  by (simp add: RestAfterNWords_drop split: option.split)

lemma Set_parsed_ok:
  assumes "\<not> length (SplitWords t) < 3"
  shows "parsed_ok l ((fresh_command l)\<lparr>cmd_type := Set, cmd_key := SplitWords t ! 1,
    cmd_value := RestAfterNWords t 2\<rparr>)"
  using assms parts_word [of 1 t] RestAfterNWords_nonempty [of 2 t]
  by (auto simp: parsed_ok_def well_formed_command_def fresh_command_def RestAfterNWords_Trim
    is_word_def)

lemma Expire_parsed_ok:
  assumes "\<not> length (SplitWords t) \<noteq> 3" and "ParsePositiveInt (SplitWords t ! 2) = Some n"
  shows "parsed_ok l ((fresh_command l)\<lparr>cmd_type := Expire, cmd_key := SplitWords t ! 1,
    cmd_seconds := n\<rparr>)"
  using assms parts_word [of 1 t]
  by (auto simp: parsed_ok_def well_formed_command_def fresh_command_def ParsePositiveInt_iff
    is_word_def)

lemma ParseCommand_parsed_ok: "parsed_ok line (ParseCommand line)"
  unfolding ParseCommand_def Let_def
  by (intro parsed_ok_if parsed_ok_option parsed_ok_unknown FillBasicCmd_0 FillBasicCmd_1
    Set_parsed_ok Expire_parsed_ok; simp)

text \<open>Claim C34: whatever the line, the parsed command keeps it as its raw text and has the shape
  its type promises: a key exactly for the key commands, and then a non-empty word; a value exactly
  for \<open>SET\<close>, non-empty and without white space at its ends; between 1 and \<open>INT_MAX\<close> seconds for
  \<open>EXPIRE\<close> and none otherwise.\<close>

theorem parse_well_formed:
  "well_formed_command (ParseCommand line) \<and> cmd_raw (ParseCommand line) = line"
  using ParseCommand_parsed_ok [of line] by (simp add: parsed_ok_def)

section \<open>Writing commands\<close>

text \<open>The words of a text and its parse, when the words are known.\<close>

lemma ParseCommand_basic_0:
  assumes "SplitWords line = [op]" and "UpperCopy op = name"
    and "(name, ty) \<in> {(''PING'', Ping), (''STATS'', Stats), (''QUIT'', Quit), (''HELP'', Help)}"
  shows "ParseCommand line = (fresh_command line)\<lparr>cmd_type := ty\<rparr>"
  using assms by (auto simp: ParseCommand_def Let_def Trim_empty_iff SplitWords_Trim FillBasicCmd_def)

lemma ParseCommand_basic_1:
  assumes "SplitWords line = [op, key]" and "UpperCopy op = name"
    and "(name, ty) \<in> {(''GET'', Get), (''DEL'', Del), (''TTL'', Ttl)}"
  shows "ParseCommand line = (fresh_command line)\<lparr>cmd_type := ty, cmd_key := key\<rparr>"
  using assms by (auto simp: ParseCommand_def Let_def Trim_empty_iff SplitWords_Trim FillBasicCmd_def)

lemma ParseCommand_expire:
  assumes "SplitWords line = [op, key, num]" and "UpperCopy op = ''EXPIRE''"
    and "ParsePositiveInt num = Some n"
  shows "ParseCommand line =
    (fresh_command line)\<lparr>cmd_type := Expire, cmd_key := key, cmd_seconds := n\<rparr>"
  using assms by (simp add: ParseCommand_def Let_def Trim_empty_iff SplitWords_Trim)

lemma ParseCommand_set:
  assumes "SplitWords line = op # key # w # ws" and "UpperCopy op = ''SET''"
  shows "ParseCommand line = (fresh_command line)\<lparr>cmd_type := Set, cmd_key := key,
    cmd_value := RestAfterNWords (Trim line) 2\<rparr>"
  using assms RestAfterNWords_nonempty [of 2 "Trim line"]
  by (simp add: ParseCommand_def Let_def Trim_empty_iff SplitWords_Trim)

lemma SplitWords_one: "is_word w \<Longrightarrow> SplitWords w = [w]"
  using SplitWords_word [of w "[]"] by simp

lemma SplitWords_two: "is_word w \<Longrightarrow> is_word w' \<Longrightarrow> SplitWords (w @ '' '' @ w') = [w, w']"
  using SplitWords_word [of w "'' '' @ w'"] SplitWords_spaces [of "'' ''" w'] SplitWords_one [of w']
  by (simp add: spaces_def IsSpace_def)

lemma SplitWords_three: "is_word w \<Longrightarrow> is_word w' \<Longrightarrow> is_word w'' \<Longrightarrow>
    SplitWords (w @ '' '' @ w' @ '' '' @ w'') = [w, w', w'']"
  using SplitWords_word [of w "'' '' @ w' @ '' '' @ w''"]
    SplitWords_spaces [of "'' ''" "w' @ '' '' @ w''"] SplitWords_two [of w' w'']
  by (simp add: spaces_def IsSpace_def)

text \<open>The text of a command, as a client would write it.\<close>

definition print_command :: "Command \<Rightarrow> string" where
  "print_command c =
     (case cmd_type c of
        Ping \<Rightarrow> ''PING'' | Stats \<Rightarrow> ''STATS'' | Quit \<Rightarrow> ''QUIT'' | Help \<Rightarrow> ''HELP''
      | Get \<Rightarrow> ''GET'' @ '' '' @ cmd_key c
      | Del \<Rightarrow> ''DEL'' @ '' '' @ cmd_key c
      | Ttl \<Rightarrow> ''TTL'' @ '' '' @ cmd_key c
      | Expire \<Rightarrow> ''EXPIRE'' @ '' '' @ cmd_key c @ '' '' @ int_to_string (cmd_seconds c)
      | Set \<Rightarrow> ''SET'' @ '' '' @ cmd_key c @ '' '' @ cmd_value c
      | Unknown \<Rightarrow> cmd_raw c)"

lemma keyword_words:
  "op \<in> {''PING'', ''STATS'', ''QUIT'', ''HELP'', ''GET'', ''DEL'', ''TTL'', ''EXPIRE'', ''SET''} \<Longrightarrow>
    is_word op \<and> UpperCopy op = op"
  by (auto simp: is_word_def IsSpace_def UpperCopy_def toupper_ch_def)

lemma digit_not_space: "IsDigit c \<Longrightarrow> \<not> IsSpace c"
  by (auto simp: IsDigit_def IsSpace_def)

lemma ParsePositiveInt_to_string:
  assumes "1 \<le> n" and "n \<le> int_max"
  shows "ParsePositiveInt (int_to_string n) = Some n \<and> is_word (int_to_string n)"
proof
  have t: "int_to_string n = nat_to_string (nat n)" using assms by (simp add: int_to_string_def)
  have d: "IsDigit c" if "c \<in> set (nat_to_string (nat n))" for c
    using nat_to_string_digits [OF that] by (simp add: IsDigit_def)
  show "ParsePositiveInt (int_to_string n) = Some n"
    using assms d by (simp add: ParsePositiveInt_iff t nat_to_string_value)
  show "is_word (int_to_string n)"
    using d digit_not_space by (auto simp: is_word_def t)
qed

lemma set_text_words:
  assumes "spaces s0" "spaces s1" "spaces s2" "spaces s3" "s1 \<noteq> []" "s2 \<noteq> []"
    and "is_word op" "is_word key"
  shows "SplitWords (s0 @ op @ s1 @ key @ s2 @ v @ s3) = op # key # SplitWords v"
proof -
  have "SplitWords (s0 @ op @ s1 @ key @ s2 @ v @ s3) = op # SplitWords (s1 @ key @ s2 @ v @ s3)"
    using assms hd_spaces [of s1 "key @ s2 @ v @ s3"] by (simp add: SplitWords_step)
  also have "\<dots> = op # key # SplitWords (s2 @ v @ s3)"
    using assms hd_spaces [of s2 "v @ s3"] by (simp add: SplitWords_step)
  also have "SplitWords (s2 @ v @ s3) = SplitWords v"
    using assms by (simp add: SplitWords_spaces SplitWords_append_spaces)
  finally show ?thesis .
qed

lemma set_text_rest:
  assumes "spaces s1" "spaces s2" "s1 \<noteq> []" "s2 \<noteq> []" "is_word op" "is_word key"
    and "Trim v = v"
  shows "RestAfterNWords (op @ s1 @ key @ s2 @ v) 2 = v"
proof -
  have "drop_words (Suc (Suc 0)) ([] @ op @ s1 @ key @ s2 @ v) = drop_words (Suc 0) (s1 @ key @ s2 @ v)"
    using assms hd_spaces [of s1 "key @ s2 @ v"] by (intro drop_words_step) (simp_all add: spaces_def)
  also have "\<dots> = drop_words 0 (s2 @ v)"
    using assms hd_spaces [of s2 v] by (intro drop_words_step) simp_all
  finally have "RestAfterNWords (op @ s1 @ key @ s2 @ v) 2 = Trim (s2 @ v)"
    by (simp add: RestAfterNWords_drop numeral_2_eq_2 del: drop_words.simps(2))
  also have "\<dots> = Trim v"
    using assms Trim_dropWhile [of "s2 @ v"] Trim_dropWhile [of v] by (simp add: dropWhile_spaces)
  finally show ?thesis using assms by simp
qed

lemma keyword_parses:
  assumes "(name, ty) \<in> {(''PING'', Ping), (''STATS'', Stats), (''QUIT'', Quit), (''HELP'', Help)}"
  shows "ParseCommand name = (fresh_command name)\<lparr>cmd_type := ty\<rparr>"
proof (rule ParseCommand_basic_0 [OF SplitWords_one _ assms])
  have "name \<in> {''PING'', ''STATS'', ''QUIT'', ''HELP'', ''GET'', ''DEL'', ''TTL'', ''EXPIRE'', ''SET''}"
    using assms by auto
  from keyword_words [OF this] show "is_word name" "UpperCopy name = name" by blast+
qed

lemma keyword_key_parses:
  assumes "(name, ty) \<in> {(''GET'', Get), (''DEL'', Del), (''TTL'', Ttl)}" and "is_word key"
  shows "ParseCommand (name @ '' '' @ key) =
    (fresh_command (name @ '' '' @ key))\<lparr>cmd_type := ty, cmd_key := key\<rparr>"
proof (rule ParseCommand_basic_1 [OF SplitWords_two [OF _ assms(2)] _ assms(1)])
  have "name \<in> {''PING'', ''STATS'', ''QUIT'', ''HELP'', ''GET'', ''DEL'', ''TTL'', ''EXPIRE'', ''SET''}"
    using assms by auto
  from keyword_words [OF this] show "is_word name" "UpperCopy name = name" by blast+
qed

lemma ParseCommand_set_text:
  assumes sp: "spaces s0" "spaces s1" "spaces s2" "spaces s3" "s1 \<noteq> []" "s2 \<noteq> []"
    and op: "is_word op" "UpperCopy op = ''SET''" and key: "is_word key"
    and v: "v \<noteq> []" "\<not> IsSpace (hd v)" "\<not> IsSpace (last v)"
  shows "ParseCommand (s0 @ op @ s1 @ key @ s2 @ v @ s3) =
    \<lparr>cmd_type = Set, cmd_key = key, cmd_value = v, cmd_seconds = 0,
     cmd_raw = s0 @ op @ s1 @ key @ s2 @ v @ s3\<rparr>"
proof -
  let ?line = "s0 @ op @ s1 @ key @ s2 @ v @ s3"
  have "Trim v = v" using Trim_body [of "[]" "[]" v] v by (simp add: spaces_def)
  then obtain w ws where "SplitWords v = w # ws"
    using v(1) by (metis Trim_empty_iff list.exhaust)
  moreover have "SplitWords ?line = op # key # SplitWords v"
    using sp op(1) key by (intro set_text_words)
  moreover have "Trim ?line = op @ s1 @ key @ s2 @ v"
    using Trim_body [of s0 s3 "op @ s1 @ key @ s2 @ v"] sp op(1) v by (auto simp: is_word_def)
  moreover have "RestAfterNWords (op @ s1 @ key @ s2 @ v) 2 = v"
    using sp op(1) key \<open>Trim v = v\<close> by (intro set_text_rest)
  ultimately show ?thesis
    using op(2) ParseCommand_set [of ?line op key w ws] by (simp add: fresh_command_def)
qed

text \<open>\<open>SET\<close> in any letter case, with any amount of white space before, between and after
  its parts, is parsed with the key and with the value byte for byte, inner white space included.\<close>

theorem parse_set_text:
  assumes sp: "spaces s0" "spaces s1" "spaces s2" "spaces s3" "s1 \<noteq> []" "s2 \<noteq> []"
    and op: "is_word op" "UpperCopy op = ''SET''" and key: "is_word key"
    and v: "v \<noteq> []" "\<not> IsSpace (hd v)" "\<not> IsSpace (last v)"
  shows "ParseCommand (s0 @ op @ s1 @ key @ s2 @ v @ s3) =
    \<lparr>cmd_type = Set, cmd_key = key, cmd_value = v, cmd_seconds = 0,
     cmd_raw = s0 @ op @ s1 @ key @ s2 @ v @ s3\<rparr>"
  using assms by (rule ParseCommand_set_text)

theorem parse_set_text_witness:
  "ParseCommand ('' '' @ ''sEt'' @ ''  '' @ ''k'' @ '' '' @ ''a  b'' @ '' '') =
    \<lparr>cmd_type = Set, cmd_key = ''k'', cmd_value = ''a  b'', cmd_seconds = 0,
     cmd_raw = '' '' @ ''sEt'' @ ''  '' @ ''k'' @ '' '' @ ''a  b'' @ '' ''\<rparr>"
proof (rule parse_set_text)
  show "UpperCopy ''sEt'' = ''SET''" by code_simp
qed (simp_all add: spaces_def is_word_def IsSpace_def)

text \<open>Claim C32: parsing what a client writes for a well-formed command gives the command back, for
  every command type, with the written text as its raw text.\<close>

theorem parse_print:
  assumes "well_formed_command c" and "cmd_type c \<noteq> Unknown"
  shows "ParseCommand (print_command c) = c\<lparr>cmd_raw := print_command c\<rparr>"
proof (cases "cmd_type c = Set")
  case True
  have "cmd_value c \<noteq> []" "Trim (cmd_value c) = cmd_value c" "is_word (cmd_key c)" "cmd_seconds c = 0"
    using assms True by (auto simp: well_formed_command_def)
  with True show ?thesis
    using ParseCommand_set_text [of "[]" "'' ''" "'' ''" "[]" "''SET''" "cmd_key c" "cmd_value c"]
      hd_Trim [of "cmd_value c"] last_Trim [of "cmd_value c"] keyword_words [of "''SET''"]
    by (simp add: print_command_def spaces_def IsSpace_def)
next
  case False
  then have c: "cmd_value c = []" and k: "cmd_key c \<noteq> [] \<longrightarrow> is_word (cmd_key c)"
    and s: "cmd_type c \<noteq> Expire \<longrightarrow> cmd_seconds c = 0"
    using assms by (auto simp: well_formed_command_def)
  show ?thesis
  proof (cases "cmd_type c = Expire")
    case True
    have n: "1 \<le> cmd_seconds c" "cmd_seconds c \<le> int_max" "is_word (cmd_key c)"
      using assms True by (auto simp: well_formed_command_def)
    note num = ParsePositiveInt_to_string [OF n(1,2)]
    show ?thesis
      using True c n(3) num keyword_words [of "''EXPIRE''"]
        ParseCommand_expire [of "print_command c" "''EXPIRE''" "cmd_key c"]
        SplitWords_three [of "''EXPIRE''" "cmd_key c" "int_to_string (cmd_seconds c)"]
      by (simp add: print_command_def fresh_command_def)
  next

    case noexp: False
    with s have s: "cmd_seconds c = 0" by simp
    show ?thesis
    proof (cases "cmd_key c = []")
      case True
      then have "(print_command c, cmd_type c) \<in>
          {(''PING'', Ping), (''STATS'', Stats), (''QUIT'', Quit), (''HELP'', Help)}"
        using assms False noexp
        by (cases "cmd_type c") (simp_all add: well_formed_command_def print_command_def)
      from keyword_parses [OF this] show ?thesis using True c s by (simp add: fresh_command_def)
    next
      case key: False
      then obtain name where
        "(name, cmd_type c) \<in> {(''GET'', Get), (''DEL'', Del), (''TTL'', Ttl)}"
        "print_command c = name @ '' '' @ cmd_key c"
        using assms False noexp
        by (cases "cmd_type c") (simp_all add: well_formed_command_def print_command_def)
      with keyword_key_parses [OF this(1), of "cmd_key c"] show ?thesis
        using key k c s by (simp add: fresh_command_def)
    qed
  qed
qed

theorem parse_print_witness:
  "ParseCommand (print_command \<lparr>cmd_type = Expire, cmd_key = ''k'', cmd_value = '''',
       cmd_seconds = 60, cmd_raw = ''''\<rparr>) =
     \<lparr>cmd_type = Expire, cmd_key = ''k'', cmd_value = '''', cmd_seconds = 60,
      cmd_raw = print_command \<lparr>cmd_type = Expire, cmd_key = ''k'', cmd_value = '''',
       cmd_seconds = 60, cmd_raw = ''''\<rparr>\<rparr>"
  using parse_print [of "\<lparr>cmd_type = Expire, cmd_key = ''k'', cmd_value = '''',
       cmd_seconds = 60, cmd_raw = ''''\<rparr>"]
  by (simp add: well_formed_command_def is_word_def IsSpace_def int_max_def)

end
