(* ===== verification/Expiration_Queue.thy ===== *)
theory Expiration_Queue
  imports Prelude
begin

text \<open>
  The expiration index of the store: \<open>std::priority_queue\<close> over \<open>ExpirationRecord\<close> with
  \<open>ExpirationCompare\<close> (kv_store.h), whose top is a record with the least deadline.

  The locale \<open>priority_queue\<close> is the contract of the standard container for a comparison \<open>cmp\<close>:
  \<open>top\<close> is an element no other one precedes, \<open>pop\<close> removes exactly it, \<open>push\<close> adds one. The model
  keeps the records in a list ordered by \<open>cmp\<close>; the interpretation \<open>pq\<close> discharges the contract,
  and the store's proofs use only the facts of the locale, so they hold for every way of breaking
  ties that the standard allows.
\<close>

section \<open>The contract of \<open>std::priority_queue\<close>\<close>

locale priority_queue =
  fixes cmp :: "'r \<Rightarrow> 'r \<Rightarrow> bool"
    and build :: "'r list \<Rightarrow> 'q"
    and push :: "'r \<Rightarrow> 'q \<Rightarrow> 'q"
    and top :: "'q \<Rightarrow> 'r option"
    and pop :: "'q \<Rightarrow> 'q"
    and elems :: "'q \<Rightarrow> 'r multiset"
    and valid :: "'q \<Rightarrow> bool"
  assumes elems_build: "elems (build rs) = mset rs"
    and valid_build: "valid (build rs)"
    and elems_push: "elems (push r q) = add_mset r (elems q)"
    and valid_push: "valid q \<Longrightarrow> valid (push r q)"
    and top_None: "top q = None \<longleftrightarrow> elems q = {#}"
    and top_in: "top q = Some r \<Longrightarrow> r \<in># elems q"
    and top_first: "valid q \<Longrightarrow> top q = Some r \<Longrightarrow> r' \<in># elems q \<Longrightarrow> \<not> cmp r r'"
    and elems_pop: "top q = Some r \<Longrightarrow> elems (pop q) = elems q - {#r#}"
    and valid_pop: "valid q \<Longrightarrow> valid (pop q)"
begin

lemma elems_top_pop: "top q = Some r \<Longrightarrow> elems q = add_mset r (elems (pop q))"
  using top_in [of q r] by (simp add: elems_pop)

lemma kept_by_pop: "top q = Some r \<Longrightarrow> r' \<in># elems q \<Longrightarrow> r' \<noteq> r \<Longrightarrow> r' \<in># elems (pop q)"
  by (simp add: elems_top_pop)

lemma size_pop: "top q = Some r \<Longrightarrow> size (elems q) = Suc (size (elems (pop q)))"
  by (simp add: elems_top_pop)

end

section \<open>The queue as an ordered list\<close>

fun pq_insert :: "('r \<Rightarrow> 'r \<Rightarrow> bool) \<Rightarrow> 'r \<Rightarrow> 'r list \<Rightarrow> 'r list" where
  "pq_insert cmp r [] = [r]"
| "pq_insert cmp r (x # xs) = (if cmp x r then r # x # xs else x # pq_insert cmp r xs)"

definition pq_build :: "('r \<Rightarrow> 'r \<Rightarrow> bool) \<Rightarrow> 'r list \<Rightarrow> 'r list" where
  "pq_build cmp rs = foldr (pq_insert cmp) rs []"

definition pq_top :: "'r list \<Rightarrow> 'r option" where
  "pq_top q = (case q of [] \<Rightarrow> None | r # _ \<Rightarrow> Some r)"

definition pq_pop :: "'r list \<Rightarrow> 'r list" where
  "pq_pop q = (case q of [] \<Rightarrow> [] | _ # rs \<Rightarrow> rs)"

definition pq_valid :: "('r \<Rightarrow> 'r \<Rightarrow> bool) \<Rightarrow> 'r list \<Rightarrow> bool" where
  "pq_valid cmp q \<longleftrightarrow> sorted_wrt (\<lambda>x y. \<not> cmp x y) q"

section \<open>Expiration records\<close>

record ExpirationRecord =
  rec_expireAt :: time_point
  rec_key :: string
  rec_generation :: u64

definition ExpirationCompare :: "ExpirationRecord \<Rightarrow> ExpirationRecord \<Rightarrow> bool" where
  "ExpirationCompare lhs rhs \<longleftrightarrow> rec_expireAt lhs > rec_expireAt rhs"

type_synonym ExpirationQueue = "ExpirationRecord list"

lemma mset_pq_insert [simp]: "mset (pq_insert cmp r q) = add_mset r (mset q)"
  by (induction q) auto

lemma set_pq_insert [simp]: "set (pq_insert cmp r q) = insert r (set q)"
  by (induction q) auto

lemma pq_insert_valid:
  "pq_valid ExpirationCompare q \<Longrightarrow> pq_valid ExpirationCompare (pq_insert ExpirationCompare r q)"
  by (induction q) (auto simp: pq_valid_def ExpirationCompare_def)

lemma pq_build_valid: "pq_valid ExpirationCompare (pq_build ExpirationCompare rs)"
  by (induction rs) (auto simp: pq_build_def pq_insert_valid, simp add: pq_valid_def)

lemma mset_pq_build: "mset (pq_build cmp rs) = mset rs"
  by (induction rs) (auto simp: pq_build_def)

interpretation pq: priority_queue ExpirationCompare "pq_build ExpirationCompare"
  "pq_insert ExpirationCompare" pq_top pq_pop mset "pq_valid ExpirationCompare"
proof unfold_locales
  fix rs q :: ExpirationQueue and r r' :: ExpirationRecord
  show "mset (pq_build ExpirationCompare rs) = mset rs" by (rule mset_pq_build)
  show "pq_valid ExpirationCompare (pq_build ExpirationCompare rs)" by (rule pq_build_valid)
  show "mset (pq_insert ExpirationCompare r q) = add_mset r (mset q)" by simp
  show "pq_valid ExpirationCompare (pq_insert ExpirationCompare r q)"
    if "pq_valid ExpirationCompare q" using that by (rule pq_insert_valid)
  show "(pq_top q = None) = (mset q = {#})" by (simp add: pq_top_def split: list.split)
  show "r \<in># mset q" if "pq_top q = Some r"
    using that by (auto simp: pq_top_def split: list.splits)
  show "\<not> ExpirationCompare r r'"
    if "pq_valid ExpirationCompare q" "pq_top q = Some r" "r' \<in># mset q"
    using that by (auto simp: pq_valid_def pq_top_def ExpirationCompare_def split: list.splits)
  show "mset (pq_pop q) = mset q - {#r#}" if "pq_top q = Some r"
    using that by (auto simp: pq_top_def pq_pop_def split: list.splits)
  show "pq_valid ExpirationCompare (pq_pop q)" if "pq_valid ExpirationCompare q"
    using that by (auto simp: pq_valid_def pq_pop_def split: list.splits)
qed

lemma pq_pop_shorter: "pq_top q = Some r \<Longrightarrow> length (pq_pop q) < length q"
  by (cases q) (simp_all add: pq_top_def pq_pop_def)

end
