(* ===== verification/Kv_Store.thy ===== *)
theory Kv_Store
  imports Expiration_Queue
begin

text \<open>
  The in-memory store (\<open>KVStore\<close> of kv_store.h and kv_store.cpp).

  Every public operation takes the store's mutex for its whole body, so an operation is one atomic
  step: a function from the state and the time it reads from the steady clock (nanoseconds) to its
  result and the next state. \<open>assert\<close> is kept: a failing assertion is the error value
  \<open>AssertionFailed\<close>, and the theorems show that no run of the store reaches one, so builds with and
  without \<open>NDEBUG\<close> agree. The key counters and the generations are 64 bit and wrap.
\<close>

section \<open>State\<close>

record Entry =
  entry_value :: string
  entry_expireAt :: "time_point option"
  entry_generation :: u64

record InnerStats =
  st_keys :: u64
  st_persistentKeys :: u64
  st_expiringKeys :: u64

record SweepResult =
  sw_processed :: nat
  sw_removed :: nat
  sw_hasMoreExpired :: bool
  sw_heapRebuilt :: bool

record KVStore =
  m_data :: "(string, Entry) umap"
  m_nextExpirationGeneration :: u64
  m_persistentKeys :: u64
  m_expiringKeys :: u64
  m_expirations :: ExpirationQueue

definition KVStore_init :: KVStore where
  "KVStore_init = \<lparr>m_data = [], m_nextExpirationGeneration = 0, m_persistentKeys = 0,
     m_expiringKeys = 0, m_expirations = []\<rparr>"

section \<open>Operations\<close>

definition MIN_STALE_RECORDS_FOR_REBUILD :: nat where
  "MIN_STALE_RECORDS_FOR_REBUILD = 1024"

definition MIN_HEAP_RECORDS_FOR_REBUILD :: nat where
  "MIN_HEAP_RECORDS_FOR_REBUILD = 4096"

definition seconds_ns :: "int \<Rightarrow> int" where
  "seconds_ns n = n * 1000000000"

definition KVStore_IsExpired :: "Entry \<Rightarrow> time_point \<Rightarrow> bool" where
  "KVStore_IsExpired entry now =
     (case entry_expireAt entry of None \<Rightarrow> False | Some t \<Rightarrow> now \<ge> t)"

definition KVStore_EraseEntryLocked :: "KVStore \<Rightarrow> string \<Rightarrow> Entry \<Rightarrow> KVStore result" where
  "KVStore_EraseEntryLocked s key entry =
     (if entry_expireAt entry \<noteq> None then
        if m_expiringKeys s > 0
        then Inr (s\<lparr>m_expiringKeys := m_expiringKeys s - 1, m_data := um_erase key (m_data s)\<rparr>)
        else Inl (AssertionFailed ''m_expiringKeys > 0'')
      else
        if m_persistentKeys s > 0
        then Inr (s\<lparr>m_persistentKeys := m_persistentKeys s - 1, m_data := um_erase key (m_data s)\<rparr>)
        else Inl (AssertionFailed ''m_persistentKeys > 0''))"

lemma EraseEntryLocked_frame:
  "KVStore_EraseEntryLocked s key entry = Inr s' \<Longrightarrow>
     m_data s' = um_erase key (m_data s) \<and> m_expirations s' = m_expirations s \<and>
     m_nextExpirationGeneration s' = m_nextExpirationGeneration s"
  by (auto simp: KVStore_EraseEntryLocked_def split: if_splits)

text \<open>The loop of \<open>SweepExpiredLocked\<close>.\<close>

function KVStore_SweepLoop ::
  "KVStore \<Rightarrow> time_point \<Rightarrow> nat \<Rightarrow> SweepResult \<Rightarrow> (SweepResult \<times> KVStore) result" where
  "KVStore_SweepLoop s now maxRecordsToProcess r =
     (case pq_top (m_expirations s) of
        None \<Rightarrow> Inr (r, s)
      | Some record \<Rightarrow>
          if \<not> sw_processed r < maxRecordsToProcess then Inr (r, s)
          else if rec_expireAt record > now then Inr (r, s)
          else
            let s = s\<lparr>m_expirations := pq_pop (m_expirations s)\<rparr>;
                r = r\<lparr>sw_processed := sw_processed r + 1\<rparr>
            in case um_find (m_data s) (rec_key record) of
                 None \<Rightarrow> KVStore_SweepLoop s now maxRecordsToProcess r
               | Some entry \<Rightarrow>
                   if entry_generation entry \<noteq> rec_generation record
                     then KVStore_SweepLoop s now maxRecordsToProcess r
                   else if entry_expireAt entry = None
                     then KVStore_SweepLoop s now maxRecordsToProcess r
                   else if entry_expireAt entry \<noteq> Some (rec_expireAt record)
                     then KVStore_SweepLoop s now maxRecordsToProcess r
                   else
                     case KVStore_EraseEntryLocked s (rec_key record) entry of
                       Inl e \<Rightarrow> Inl e
                     | Inr s' \<Rightarrow>
                         KVStore_SweepLoop s' now maxRecordsToProcess
                           (r\<lparr>sw_removed := sw_removed r + 1\<rparr>))"
  by pat_completeness auto
termination
  by (relation "measure (\<lambda>(s, now, mx, r). length (m_expirations s))")
    (auto simp: pq_pop_shorter dest!: EraseEntryLocked_frame)

declare KVStore_SweepLoop.simps [simp del]

definition heap_has_due :: "KVStore \<Rightarrow> time_point \<Rightarrow> bool" where
  "heap_has_due s now =
     (case pq_top (m_expirations s) of None \<Rightarrow> False | Some record \<Rightarrow> rec_expireAt record \<le> now)"

definition KVStore_SweepExpiredLocked ::
  "KVStore \<Rightarrow> time_point \<Rightarrow> nat \<Rightarrow> (SweepResult \<times> KVStore) result" where
  "KVStore_SweepExpiredLocked s now maxRecordsToProcess =
     bind_result
       (KVStore_SweepLoop s now maxRecordsToProcess
          \<lparr>sw_processed = 0, sw_removed = 0, sw_hasMoreExpired = False, sw_heapRebuilt = False\<rparr>)
       (\<lambda>(r, s). Inr (r\<lparr>sw_hasMoreExpired := heap_has_due s now\<rparr>, s))"

definition KVStore_Set :: "KVStore \<Rightarrow> string \<Rightarrow> string \<Rightarrow> KVStore" where
  "KVStore_Set s key value =
     (case um_find (m_data s) key of
        None \<Rightarrow>
          s\<lparr>m_data := um_put key
               \<lparr>entry_value = value, entry_expireAt = None, entry_generation = 0\<rparr> (m_data s),
             m_persistentKeys := m_persistentKeys s + 1\<rparr>
      | Some entry \<Rightarrow>
          let s = (if entry_expireAt entry \<noteq> None
                   then s\<lparr>m_expiringKeys := m_expiringKeys s - 1,
                          m_persistentKeys := m_persistentKeys s + 1\<rparr>
                   else s)
          in s\<lparr>m_data := um_put key
                 (entry\<lparr>entry_value := value, entry_expireAt := None,
                        entry_generation := entry_generation entry + 1\<rparr>) (m_data s)\<rparr>)"

text \<open>\<open>Get\<close> returns its output parameter on success.\<close>

definition KVStore_Get ::
  "KVStore \<Rightarrow> string \<Rightarrow> time_point \<Rightarrow> (string option \<times> KVStore) result" where
  "KVStore_Get s key now =
     (case um_find (m_data s) key of
        None \<Rightarrow> Inr (None, s)
      | Some entry \<Rightarrow>
          if KVStore_IsExpired entry now
          then bind_result (KVStore_EraseEntryLocked s key entry) (\<lambda>s. Inr (None, s))
          else Inr (Some (entry_value entry), s))"

definition KVStore_Del :: "KVStore \<Rightarrow> string \<Rightarrow> time_point \<Rightarrow> (bool \<times> KVStore) result" where
  "KVStore_Del s key now =
     (case um_find (m_data s) key of
        None \<Rightarrow> Inr (False, s)
      | Some entry \<Rightarrow>
          if KVStore_IsExpired entry now
          then bind_result (KVStore_EraseEntryLocked s key entry) (\<lambda>s. Inr (False, s))
          else bind_result (KVStore_EraseEntryLocked s key entry) (\<lambda>s. Inr (True, s)))"

definition KVStore_Expire ::
  "KVStore \<Rightarrow> string \<Rightarrow> int \<Rightarrow> time_point \<Rightarrow> (bool \<times> KVStore) result" where
  "KVStore_Expire s key seconds now =
     (if seconds \<le> 0 then Inr (False, s)
      else case um_find (m_data s) key of
        None \<Rightarrow> Inr (False, s)
      | Some entry \<Rightarrow>
          if KVStore_IsExpired entry now
          then bind_result (KVStore_EraseEntryLocked s key entry) (\<lambda>s. Inr (False, s))
          else bind_result
            (if entry_expireAt entry = None
             then if m_persistentKeys s > 0
                  then Inr (s\<lparr>m_persistentKeys := m_persistentKeys s - 1,
                              m_expiringKeys := m_expiringKeys s + 1\<rparr>)
                  else Inl (AssertionFailed ''m_persistentKeys > 0'')
             else Inr s)
            (\<lambda>s. let deadline = now + seconds_ns seconds;
                     gen = m_nextExpirationGeneration s + 1
                 in Inr (True,
                      s\<lparr>m_nextExpirationGeneration := gen,
                        m_data := um_put key
                          (entry\<lparr>entry_expireAt := Some deadline, entry_generation := gen\<rparr>)
                          (m_data s),
                        m_expirations := pq_insert ExpirationCompare
                          \<lparr>rec_expireAt = deadline, rec_key = key, rec_generation = gen\<rparr>
                          (m_expirations s)\<rparr>)))"

text \<open>\<open>std::chrono::ceil<seconds>\<close> of a duration in nanoseconds, and the cast to \<open>int\<close>.\<close>

definition ceil_seconds :: "int \<Rightarrow> int" where
  "ceil_seconds d = - ((- d) div 1000000000)"

definition to_int32 :: "int \<Rightarrow> int" where
  "to_int32 i = sint (word_of_int i :: 32 word)"

definition KVStore_Ttl :: "KVStore \<Rightarrow> string \<Rightarrow> time_point \<Rightarrow> (int \<times> KVStore) result" where
  "KVStore_Ttl s key now =
     (case um_find (m_data s) key of
        None \<Rightarrow> Inr (- 2, s)
      | Some entry \<Rightarrow>
          if KVStore_IsExpired entry now
          then bind_result (KVStore_EraseEntryLocked s key entry) (\<lambda>s. Inr (- 2, s))
          else case entry_expireAt entry of
                 None \<Rightarrow> Inr (- 1, s)
               | Some t \<Rightarrow> Inr (to_int32 (ceil_seconds (t - now)), s))"

definition KVStore_Size :: "KVStore \<Rightarrow> u64" where
  "KVStore_Size s = m_persistentKeys s + m_expiringKeys s"

definition KVStore_Stats :: "KVStore \<Rightarrow> InnerStats" where
  "KVStore_Stats s =
     \<lparr>st_keys = m_persistentKeys s + m_expiringKeys s,
      st_persistentKeys = m_persistentKeys s, st_expiringKeys = m_expiringKeys s\<rparr>"

definition KVStore_ShouldRebuildExpirationHeapLocked :: "KVStore \<Rightarrow> bool result" where
  "KVStore_ShouldRebuildExpirationHeapLocked s =
     (let heapSize = length (m_expirations s)
      in if heapSize = 0 then Inr False
         else if m_expiringKeys s = 0 then Inr True
         else if heapSize < MIN_HEAP_RECORDS_FOR_REBUILD then Inr False
         else if \<not> heapSize \<ge> unat (m_expiringKeys s)
           then Inl (AssertionFailed ''heapSize >= m_expiringKeys'')
         else
           let staleRecords = heapSize - unat (m_expiringKeys s)
           in Inr (staleRecords \<ge> MIN_STALE_RECORDS_FOR_REBUILD \<and>
                   staleRecords \<ge> unat (m_expiringKeys s)))"

definition expiring_records :: "(string, Entry) umap \<Rightarrow> ExpirationRecord list" where
  "expiring_records data =
     concat (map (\<lambda>(key, entry).
       case entry_expireAt entry of
         None \<Rightarrow> []
       | Some t \<Rightarrow> [\<lparr>rec_expireAt = t, rec_key = key, rec_generation = entry_generation entry\<rparr>])
       data)"

definition KVStore_RebuildExpirationHeapLocked :: "KVStore \<Rightarrow> KVStore result" where
  "KVStore_RebuildExpirationHeapLocked s =
     (if m_expiringKeys s = 0 then Inr (s\<lparr>m_expirations := []\<rparr>)
      else
        let records = expiring_records (m_data s)
        in if length records \<noteq> unat (m_expiringKeys s)
           then Inl (AssertionFailed ''records.size() == m_expiringKeys'')
           else Inr (s\<lparr>m_expirations := pq_build ExpirationCompare records\<rparr>))"

definition KVStore_SweepExpired ::
  "KVStore \<Rightarrow> nat \<Rightarrow> time_point \<Rightarrow> (SweepResult \<times> KVStore) result" where
  "KVStore_SweepExpired s maxRecordsToProcess now =
     bind_result (KVStore_SweepExpiredLocked s now maxRecordsToProcess) (\<lambda>(r, s).
       bind_result (KVStore_ShouldRebuildExpirationHeapLocked s) (\<lambda>rebuild.
         if rebuild
         then bind_result (KVStore_RebuildExpirationHeapLocked s) (\<lambda>s.
                Inr (r\<lparr>sw_heapRebuilt := True, sw_hasMoreExpired := heap_has_due s now\<rparr>, s))
         else Inr (r, s)))"

section \<open>The invariant\<close>

definition expiring :: "Entry \<Rightarrow> bool" where
  "expiring e \<longleftrightarrow> entry_expireAt e \<noteq> None"

definition record_of :: "string \<Rightarrow> Entry \<Rightarrow> time_point \<Rightarrow> ExpirationRecord" where
  "record_of k e t = \<lparr>rec_expireAt = t, rec_key = k, rec_generation = entry_generation e\<rparr>"

text \<open>Every key with a deadline has its current record in the queue; older records may be there
  too.\<close>

definition covered :: "KVStore \<Rightarrow> bool" where
  "covered s \<longleftrightarrow>
     (\<forall>k e t. um_find (m_data s) k = Some e \<longrightarrow> entry_expireAt e = Some t \<longrightarrow>
        record_of k e t \<in> set (m_expirations s))"

definition counted :: "KVStore \<Rightarrow> bool" where
  "counted s \<longleftrightarrow>
     m_persistentKeys s = of_nat (map_count (\<lambda>e. \<not> expiring e) (um_find (m_data s))) \<and>
     m_expiringKeys s = of_nat (map_count expiring (um_find (m_data s)))"

definition kv_core :: "KVStore \<Rightarrow> bool" where
  "kv_core s \<longleftrightarrow> um_ok (m_data s) \<and> counted s"

definition kv_inv :: "KVStore \<Rightarrow> bool" where
  "kv_inv s \<longleftrightarrow> kv_core s \<and> pq_valid ExpirationCompare (m_expirations s) \<and> covered s"

text \<open>The map fits into the address space, as every \<open>std::unordered_map\<close> does.\<close>

definition kv_fits :: "KVStore \<Rightarrow> bool" where
  "kv_fits s \<longleftrightarrow> length (m_data s) < 2 ^ 64"

lemma of_nat_u64: "n < 2 ^ 64 \<Longrightarrow> unat (of_nat n :: u64) = n"
  by (simp add: unat_of_nat)

lemma of_nat_u64_pos: "0 < n \<Longrightarrow> n < 2 ^ 64 \<Longrightarrow> 0 < (of_nat n :: u64)"
  by (simp add: word_less_nat_alt of_nat_u64)

lemma kv_inv_core: "kv_inv s \<Longrightarrow> kv_core s"
  by (simp add: kv_inv_def)

lemma count_fits: "kv_core s \<Longrightarrow> kv_fits s \<Longrightarrow> map_count P (um_find (m_data s)) < 2 ^ 64"
  using um.count_le_size [of "m_data s" P] by (simp add: kv_core_def kv_fits_def)

lemma expiringKeys_unat: "kv_core s \<Longrightarrow> kv_fits s \<Longrightarrow>
    unat (m_expiringKeys s) = map_count expiring (um_find (m_data s))"
  using count_fits [of s expiring] by (simp add: kv_core_def counted_def of_nat_u64)

lemma persistentKeys_unat: "kv_core s \<Longrightarrow> kv_fits s \<Longrightarrow>
    unat (m_persistentKeys s) = map_count (\<lambda>e. \<not> expiring e) (um_find (m_data s))"
  using count_fits [of s "\<lambda>e. \<not> expiring e"] by (simp add: kv_core_def counted_def of_nat_u64)

lemma kv_inv_init: "kv_inv KVStore_init"
  by (simp add: kv_inv_def kv_core_def KVStore_init_def um_ok_def pq_valid_def counted_def
    covered_def um_find_def [abs_def])

section \<open>Erasing an entry\<close>

lemma expiringKeys_pos:
  assumes "kv_core s" "kv_fits s" "um_find (m_data s) k = Some e" "expiring e"
  shows "m_expiringKeys s > 0"
  using assms um.count_pos [OF assms(3), of expiring] count_fits [OF assms(1,2), of expiring]
  by (simp add: kv_core_def counted_def of_nat_u64_pos)

lemma persistentKeys_pos:
  assumes "kv_core s" "kv_fits s" "um_find (m_data s) k = Some e" "\<not> expiring e"
  shows "m_persistentKeys s > 0"
  using assms um.count_pos [OF assms(3), of "\<lambda>e. \<not> expiring e"]
    count_fits [OF assms(1,2), of "\<lambda>e. \<not> expiring e"]
  by (simp add: kv_core_def counted_def of_nat_u64_pos)

lemma Erase_ok:
  assumes "kv_core s" "kv_fits s" "um_find (m_data s) k = Some e"
  shows "\<exists>s'. KVStore_EraseEntryLocked s k e = Inr s'"
  using expiringKeys_pos [OF assms] persistentKeys_pos [OF assms]
  by (auto simp: KVStore_EraseEntryLocked_def expiring_def)

lemma Erase_counted:
  assumes "counted s" "um_find (m_data s) k = Some e" "KVStore_EraseEntryLocked s k e = Inr s'"
  shows "counted s'"
proof -
  note c = um.count_erase [OF assms(2)]
  have "m_data s' = um_erase k (m_data s)" using EraseEntryLocked_frame [OF assms(3)] by simp
  with assms c [of expiring] c [of "\<lambda>e. \<not> expiring e"] show ?thesis
    by (auto simp: counted_def KVStore_EraseEntryLocked_def expiring_def
      simp del: um_find_erase split: if_splits)
qed

lemma covered_erase: "covered s \<Longrightarrow> m_data s' = um_erase k (m_data s) \<Longrightarrow>
    m_expirations s' = m_expirations s \<Longrightarrow> covered s'"
  by (auto simp: covered_def split: if_splits)

lemma Erase_core:
  assumes "kv_core s" "um_find (m_data s) k = Some e" "KVStore_EraseEntryLocked s k e = Inr s'"
  shows "kv_core s'"
  using assms EraseEntryLocked_frame [OF assms(3)] Erase_counted [of s k e s']
  by (simp add: kv_core_def um.ok_erase)

lemma Erase_inv:
  assumes "kv_inv s" "um_find (m_data s) k = Some e" "KVStore_EraseEntryLocked s k e = Inr s'"
  shows "kv_inv s'"
  using assms EraseEntryLocked_frame [OF assms(3)] Erase_core [OF _ assms(2,3)]
    covered_erase [of s s' k]
  by (simp add: kv_inv_def)

lemma length_um_erase_le: "length (um_erase k m) \<le> length m"
  by (simp add: um_erase_def length_delete_le)

lemma Erase_fits: "KVStore_EraseEntryLocked s k e = Inr s' \<Longrightarrow> kv_fits s \<Longrightarrow> kv_fits s'"
  using EraseEntryLocked_frame [of s k e s'] length_um_erase_le [of k "m_data s"]
  by (simp add: kv_fits_def)

section \<open>What clients see\<close>

text \<open>The visible contents at a time: a key whose deadline has passed is absent, whether or not its
  entry has been erased.\<close>

definition kv_view :: "KVStore \<Rightarrow> time_point \<Rightarrow> string \<Rightarrow> (string \<times> time_point option) option" where
  "kv_view s t k =
     (case um_find (m_data s) k of
        None \<Rightarrow> None
      | Some e \<Rightarrow>
          if KVStore_IsExpired e t then None else Some (entry_value e, entry_expireAt e))"

lemma IsExpired_mono: "KVStore_IsExpired e now \<Longrightarrow> now \<le> t \<Longrightarrow> KVStore_IsExpired e t"
  by (auto simp: KVStore_IsExpired_def split: option.splits)

lemma Erase_view:
  assumes "KVStore_EraseEntryLocked s k e = Inr s'"
  shows "kv_view s' t = (kv_view s t)(k := None)"
  using EraseEntryLocked_frame [OF assms] by (auto simp: kv_view_def fun_eq_iff)

lemma view_expired: "um_find (m_data s) k = Some e \<Longrightarrow> KVStore_IsExpired e now \<Longrightarrow> now \<le> t \<Longrightarrow>
    kv_view s t k = None"
  using IsExpired_mono [of e now t] by (simp add: kv_view_def)

lemma Erase_expired_view:
  assumes "um_find (m_data s) k = Some e" "KVStore_IsExpired e now" "now \<le> t"
    and "KVStore_EraseEntryLocked s k e = Inr s'"
  shows "kv_view s' t = kv_view s t"
  using view_expired [OF assms(1-3)] by (simp add: Erase_view [OF assms(4)] fun_upd_idem)

text \<open>The result of an operation: it returns, and the next state satisfies the invariant, is no
  bigger, and shows the contents \<open>v\<close> at every later time.\<close>

definition kv_ok :: "KVStore \<Rightarrow> time_point \<Rightarrow> ('a \<times> KVStore) result \<Rightarrow> 'a \<Rightarrow>
    (time_point \<Rightarrow> string \<Rightarrow> (string \<times> time_point option) option) \<Rightarrow> bool" where
  "kv_ok s now res a v \<longleftrightarrow>
     (\<exists>s'. res = Inr (a, s') \<and> kv_inv s' \<and> length (m_data s') \<le> length (m_data s) \<and>
       (\<forall>t \<ge> now. kv_view s' t = v t))"

lemma kv_ok_same: "kv_inv s \<Longrightarrow> kv_ok s now (Inr (a, s)) a (kv_view s)"
  by (simp add: kv_ok_def)

text \<open>The lazy erasure that \<open>Get\<close>, \<open>Del\<close>, \<open>Expire\<close> and \<open>Ttl\<close> share.\<close>

lemma kv_ok_lazy_erase:
  assumes "kv_inv s" "kv_fits s" "um_find (m_data s) k = Some e" "KVStore_IsExpired e now"
  shows "kv_ok s now (bind_result (KVStore_EraseEntryLocked s k e) (\<lambda>s. Inr (a, s))) a (kv_view s)"
proof -
  obtain s' where e: "KVStore_EraseEntryLocked s k e = Inr s'"
    using Erase_ok [OF kv_inv_core [OF assms(1)] assms(2,3)] by blast
  have "length (m_data s') \<le> length (m_data s)"
    using EraseEntryLocked_frame [OF e] length_um_erase_le by metis
  then show ?thesis
    using Erase_inv [OF assms(1,3) e] Erase_expired_view [OF assms(3,4) _ e] by (simp add: kv_ok_def e)
qed

lemma Get_ok:
  assumes "kv_inv s" "kv_fits s"
  shows "kv_ok s now (KVStore_Get s k now) (map_option fst (kv_view s now k)) (kv_view s)"
  using assms kv_ok_lazy_erase [of s k _ now None] kv_ok_same [of s now]
  by (auto simp: KVStore_Get_def kv_view_def [of s now] split: option.split)

lemma Del_ok:
  assumes "kv_inv s" "kv_fits s"
  shows "kv_ok s now (KVStore_Del s k now) (kv_view s now k \<noteq> None)
    (\<lambda>t. (kv_view s t)(k := None))"
proof (cases "um_find (m_data s) k")
  case None
  then have "(kv_view s t)(k := None) = kv_view s t" for t by (auto simp: kv_view_def)
  with None assms show ?thesis by (simp add: KVStore_Del_def kv_view_def [of s now] kv_ok_def)
next
  case (Some e)
  obtain s' where e: "KVStore_EraseEntryLocked s k e = Inr s'"
    using Erase_ok [OF kv_inv_core [OF assms(1)] assms(2) Some] by blast
  have "length (m_data s') \<le> length (m_data s)"
    using EraseEntryLocked_frame [OF e] length_um_erase_le by metis
  then show ?thesis using Erase_inv [OF assms(1) Some e] Erase_view [OF e] Some
    by (simp add: KVStore_Del_def kv_ok_def e kv_view_def [of s now])
qed

lemma ceil_seconds_pos: "0 < d \<Longrightarrow> 0 < ceil_seconds d"
  by (simp add: ceil_seconds_def)

text \<open>The remaining time \<open>TTL\<close> reports for a visible entry.\<close>

definition ttl_of :: "time_point \<Rightarrow> (string \<times> time_point option) option \<Rightarrow> int" where
  "ttl_of now v =
     (case v of None \<Rightarrow> - 2
      | Some (_, None) \<Rightarrow> - 1
      | Some (_, Some t) \<Rightarrow> to_int32 (ceil_seconds (t - now)))"

lemma Ttl_ok:
  assumes "kv_inv s" "kv_fits s"
  shows "kv_ok s now (KVStore_Ttl s k now) (ttl_of now (kv_view s now k)) (kv_view s)"
  using assms kv_ok_lazy_erase [of s k _ now "- 2"] kv_ok_same [of s now]
  by (auto simp: KVStore_Ttl_def kv_view_def [of s now] ttl_of_def split: option.split)

section \<open>Setting a value\<close>

lemma Set_data: "\<exists>g. m_data (KVStore_Set s k v) =
    um_put k \<lparr>entry_value = v, entry_expireAt = None, entry_generation = g\<rparr> (m_data s)"
proof (cases "um_find (m_data s) k")
  case (Some e)
  then show ?thesis
    by (cases e) (auto simp: KVStore_Set_def Let_def)
qed (auto simp: KVStore_Set_def)

lemma Set_expirations: "m_expirations (KVStore_Set s k v) = m_expirations s"
  by (simp add: KVStore_Set_def Let_def split: option.split)

lemma Set_view: "kv_view (KVStore_Set s k v) t = (kv_view s t)(k \<mapsto> (v, None))"
  using Set_data [of s k v] by (auto simp: kv_view_def fun_eq_iff KVStore_IsExpired_def)

lemma Set_counted:
  assumes "counted s"
  shows "counted (KVStore_Set s k v)"
proof (cases "um_find (m_data s) k")
  case None
  show ?thesis using assms um.count_put_new [OF None]
    by (simp add: counted_def KVStore_Set_def None expiring_def del: um_find_put)
next
  case (Some e)
  let ?e = "e\<lparr>entry_value := v, entry_expireAt := None, entry_generation := entry_generation e + 1\<rparr>"
  note c = um.count_put_old [OF Some]
  show ?thesis
  proof (cases "entry_expireAt e")
    case None
    with c [of expiring ?e] c [of "\<lambda>e. \<not> expiring e" ?e] assms Some show ?thesis
      by (simp add: counted_def KVStore_Set_def expiring_def del: um_find_put)
  next
    case (Some t)
    have "map_count expiring (um_find (m_data s)) =
        Suc (map_count expiring (um_find (um_put k ?e (m_data s))))"
      and "map_count (\<lambda>e. \<not> expiring e) (um_find (um_put k ?e (m_data s))) =
        Suc (map_count (\<lambda>e. \<not> expiring e) (um_find (m_data s)))"
      using c [of expiring ?e] c [of "\<lambda>e. \<not> expiring e" ?e] Some
      by (simp_all add: expiring_def del: um_find_put)
    with assms Some \<open>um_find (m_data s) k = Some e\<close> show ?thesis
      by (simp add: counted_def KVStore_Set_def del: um_find_put)
  qed
qed

lemma Set_covered: "covered s \<Longrightarrow> covered (KVStore_Set s k v)"
  using Set_data [of s k v] by (auto simp: covered_def Set_expirations split: if_splits)

lemma Set_inv: "kv_inv s \<Longrightarrow> kv_inv (KVStore_Set s k v)"
  using Set_data [of s k v]
  by (auto simp: kv_inv_def kv_core_def Set_counted Set_covered Set_expirations um.ok_put)

lemma length_um_put: "length (um_put k v m) \<le> Suc (length m)"
  by (induction m) (auto simp: um_put_def)

lemma Set_length: "length (m_data (KVStore_Set s k v)) \<le> Suc (length (m_data s))"
  using Set_data [of s k v] length_um_put by auto

section \<open>Setting a deadline\<close>

lemma length_um_put_old: "um_ok m \<Longrightarrow> um_find m k = Some v0 \<Longrightarrow> length (um_put k v m) = length m"
  using um.size_of_find [of "um_put k v m"] um.size_of_find [of m] um.ok_put [of m k v]
  by (simp add: insert_absorb domI)

text \<open>The state after a successful \<open>Expire\<close>.\<close>

definition expired_at :: "KVStore \<Rightarrow> string \<Rightarrow> Entry \<Rightarrow> time_point \<Rightarrow> KVStore" where
  "expired_at s k e d =
     (let s = (if entry_expireAt e = None
               then s\<lparr>m_persistentKeys := m_persistentKeys s - 1, m_expiringKeys := m_expiringKeys s + 1\<rparr>
               else s);
          g = m_nextExpirationGeneration s + 1;
          e' = e\<lparr>entry_expireAt := Some d, entry_generation := g\<rparr>
      in s\<lparr>m_nextExpirationGeneration := g, m_data := um_put k e' (m_data s),
           m_expirations := pq_insert ExpirationCompare (record_of k e' d) (m_expirations s)\<rparr>)"

lemma Expire_live:
  assumes "kv_core s" "kv_fits s" "um_find (m_data s) k = Some e" "\<not> KVStore_IsExpired e now" "0 < n"
  shows "KVStore_Expire s k n now = Inr (True, expired_at s k e (now + seconds_ns n))"
  using assms persistentKeys_pos [OF assms(1-3)]
  by (auto simp: KVStore_Expire_def expired_at_def Let_def expiring_def record_of_def)

lemma expired_at_counted:
  assumes "counted s" "um_find (m_data s) k = Some e"
  shows "counted (expired_at s k e d)"
proof -
  let ?e = "e\<lparr>entry_expireAt := Some d, entry_generation := m_nextExpirationGeneration s + 1\<rparr>"
  note c = um.count_put_old [OF assms(2)]
  show ?thesis
  proof (cases "entry_expireAt e")
    case None
    have "map_count (\<lambda>e. \<not> expiring e) (um_find (m_data s)) =
        Suc (map_count (\<lambda>e. \<not> expiring e) (um_find (um_put k ?e (m_data s))))"
      and "map_count expiring (um_find (um_put k ?e (m_data s))) =
        Suc (map_count expiring (um_find (m_data s)))"
      using c [of expiring ?e] c [of "\<lambda>e. \<not> expiring e" ?e] None
      by (simp_all add: expiring_def del: um_find_put)
    with assms None show ?thesis
      by (simp add: counted_def expired_at_def Let_def del: um_find_put)
  next
    case (Some t)
    with c [of expiring ?e] c [of "\<lambda>e. \<not> expiring e" ?e] assms show ?thesis
      by (simp add: counted_def expired_at_def Let_def expiring_def del: um_find_put)
  qed
qed

lemma expired_at_fields:
  "m_data (expired_at s k e d) =
     um_put k (e\<lparr>entry_expireAt := Some d, entry_generation := m_nextExpirationGeneration s + 1\<rparr>) (m_data s)"
  "set (m_expirations (expired_at s k e d)) = insert
     (record_of k (e\<lparr>entry_expireAt := Some d, entry_generation := m_nextExpirationGeneration s + 1\<rparr>) d)
     (set (m_expirations s))"
  by (simp_all add: expired_at_def Let_def)

lemma expired_at_inv:
  assumes "kv_inv s" "um_find (m_data s) k = Some e"
  shows "kv_inv (expired_at s k e d)"
proof -
  have "pq_valid ExpirationCompare (m_expirations (expired_at s k e d))"
    using assms pq.valid_push by (simp add: kv_inv_def expired_at_def Let_def)
  moreover have "covered (expired_at s k e d)"
    using assms by (auto simp: kv_inv_def covered_def expired_at_fields split: if_splits)
  ultimately show ?thesis
    using assms expired_at_counted [OF _ assms(2)]
    by (simp add: kv_inv_def kv_core_def expired_at_fields um.ok_put)
qed

lemma expired_at_view:
  assumes "um_find (m_data s) k = Some e"
  shows "kv_view (expired_at s k e d) t =
    (kv_view s t)(k := (if t < d then Some (entry_value e, Some d) else None))"
  using assms by (auto simp: kv_view_def expired_at_fields fun_eq_iff KVStore_IsExpired_def)

lemma Expire_ok:
  assumes "kv_inv s" "kv_fits s"
  shows "kv_ok s now (KVStore_Expire s k n now) (0 < n \<and> kv_view s now k \<noteq> None)
    (\<lambda>t. case kv_view s now k of
           None \<Rightarrow> kv_view s t
         | Some (v, _) \<Rightarrow>
             if 0 < n then (kv_view s t)(k :=
               (if t < now + seconds_ns n then Some (v, Some (now + seconds_ns n)) else None))
             else kv_view s t)"
proof (cases "um_find (m_data s) k")
  case None
  with assms show ?thesis
    by (auto simp: KVStore_Expire_def kv_view_def [of s now] kv_ok_def)
next
  case (Some e)
  show ?thesis
  proof (cases "0 < n \<and> \<not> KVStore_IsExpired e now")
    case True
    have "length (m_data (expired_at s k e d)) = length (m_data s)" for d
      using assms Some by (simp add: expired_at_fields kv_inv_def kv_core_def length_um_put_old)
    with True show ?thesis
      using assms Some Expire_live [OF _ assms(2) Some, of now n] expired_at_inv [OF assms(1) Some]
      by (simp add: kv_ok_def kv_inv_core expired_at_view kv_view_def [of s now])
  next
    case False
    then show ?thesis
      using assms Some kv_ok_lazy_erase [OF assms Some, of now False]
      by (auto simp: KVStore_Expire_def kv_view_def [of s now] kv_ok_def split: if_splits)
  qed
qed

section \<open>Sweeping\<close>

text \<open>The record at the top of the queue is the current one of its key.\<close>

definition current :: "KVStore \<Rightarrow> ExpirationRecord \<Rightarrow> Entry \<Rightarrow> bool" where
  "current s r e \<longleftrightarrow> um_find (m_data s) (rec_key r) = Some e \<and>
     entry_generation e = rec_generation r \<and> entry_expireAt e = Some (rec_expireAt r)"

abbreviation popped :: "KVStore \<Rightarrow> KVStore" where
  "popped s \<equiv> s\<lparr>m_expirations := pq_pop (m_expirations s)\<rparr>"

abbreviation counted_one :: "SweepResult \<Rightarrow> SweepResult" where
  "counted_one r \<equiv> r\<lparr>sw_processed := sw_processed r + 1\<rparr>"

text \<open>One turn of the loop: stop, drop a stale record, or erase the entry of a current one.\<close>

lemma SweepLoop_stop:
  assumes "pq_top (m_expirations s) = None \<or> \<not> sw_processed r < mx \<or>
    (\<exists>x. pq_top (m_expirations s) = Some x \<and> rec_expireAt x > now)"
  shows "KVStore_SweepLoop s now mx r = Inr (r, s)"
  using assms by (auto simp: KVStore_SweepLoop.simps [of s now mx r] split: option.split)

lemma SweepLoop_stale:
  assumes "pq_top (m_expirations s) = Some x" "sw_processed r < mx" "rec_expireAt x \<le> now"
    and "\<nexists>e. current s x e"
  shows "KVStore_SweepLoop s now mx r = KVStore_SweepLoop (popped s) now mx (counted_one r)"
  using assms by (auto simp: KVStore_SweepLoop.simps [of s now mx r] current_def Let_def split: option.split)

lemma SweepLoop_current:
  assumes "pq_top (m_expirations s) = Some x" "sw_processed r < mx" "rec_expireAt x \<le> now"
    and "current s x e" and "KVStore_EraseEntryLocked (popped s) (rec_key x) e = Inr s'"
  shows "KVStore_SweepLoop s now mx r =
    KVStore_SweepLoop s' now mx (r\<lparr>sw_processed := sw_processed r + 1, sw_removed := sw_removed r + 1\<rparr>)"
  using assms by (simp add: KVStore_SweepLoop.simps [of s now mx r] current_def Let_def)

lemma popped_core: "kv_core s \<Longrightarrow> kv_core (popped s)"
  by (simp add: kv_core_def counted_def)

lemma popped_view [simp]: "kv_view (popped s) = kv_view s"
  by (simp add: kv_view_def fun_eq_iff)

lemma stale_inv:
  assumes "kv_inv s" "pq_top (m_expirations s) = Some x" "\<nexists>e. current s x e"
  shows "kv_inv (popped s)"
proof -
  have "covered (popped s)" unfolding covered_def
  proof (intro allI impI)
    fix k e t
    assume f: "um_find (m_data (popped s)) k = Some e" "entry_expireAt e = Some t"
    then have "record_of k e t \<in># mset (m_expirations s)"
      using assms(1) by (simp add: kv_inv_def covered_def)
    moreover have "record_of k e t \<noteq> x"
    proof
      assume "record_of k e t = x"
      then have "current s x e" using f by (simp add: current_def record_of_def) force
      with assms(3) show False by blast
    qed
    ultimately show "record_of k e t \<in> set (m_expirations (popped s))"
      using pq.kept_by_pop [OF assms(2)] by simp
  qed
  with assms show ?thesis by (simp add: kv_inv_def popped_core pq.valid_pop)
qed

lemma current_inv:
  assumes inv: "kv_inv s" and top: "pq_top (m_expirations s) = Some x" and cur: "current s x e"
    and er: "KVStore_EraseEntryLocked (popped s) (rec_key x) e = Inr s'"
  shows "kv_inv s'"
proof -
  note fr = EraseEntryLocked_frame [OF er]
  have "kv_core s'"
    using Erase_core [OF popped_core [OF kv_inv_core [OF inv]] _ er] cur by (simp add: current_def)
  moreover have "covered s'" unfolding covered_def
  proof (intro allI impI)
    fix k e' t
    assume f: "um_find (m_data s') k = Some e'" "entry_expireAt e' = Some t"
    then have k: "k \<noteq> rec_key x" and f': "um_find (m_data s) k = Some e'"
      using fr by (auto split: if_splits)
    have "record_of k e' t \<in># mset (m_expirations s)"
      using inv f(2) f' by (simp add: kv_inv_def covered_def)
    moreover have "record_of k e' t \<noteq> x" using k by (auto simp: record_of_def)
    ultimately show "record_of k e' t \<in> set (m_expirations s')"
      using pq.kept_by_pop [OF top] fr by simp
  qed
  ultimately show ?thesis using inv fr by (simp add: kv_inv_def pq.valid_pop)
qed

text \<open>What the loop achieves, from any intermediate result \<open>r\<close>.\<close>

definition swept :: "KVStore \<Rightarrow> time_point \<Rightarrow> nat \<Rightarrow> SweepResult \<Rightarrow> SweepResult \<Rightarrow> KVStore \<Rightarrow> bool" where
  "swept s now mx r r' s' \<longleftrightarrow>
     kv_inv s' \<and> (\<forall>t \<ge> now. kv_view s' t = kv_view s t) \<and>
     length (m_data s') + sw_removed r' = length (m_data s) + sw_removed r \<and>
     length (m_expirations s') + sw_processed r' = length (m_expirations s) + sw_processed r \<and>
     sw_removed r' + sw_processed r \<le> sw_removed r + sw_processed r' \<and>
     (sw_processed r \<le> mx \<longrightarrow> sw_processed r' \<le> mx) \<and>
     (sw_processed r' < mx \<longrightarrow> \<not> heap_has_due s' now)"

lemma swept_stale:
  assumes "pq_top (m_expirations s) = Some x" "sw_processed r < mx"
    and "swept (popped s) now mx (counted_one r) r' s'"
  shows "swept s now mx r r' s'"
  using assms(2,3) pq.size_pop [OF assms(1)] by (auto simp: swept_def)

lemma length_um_erase_old: "um_ok m \<Longrightarrow> um_find m k = Some v \<Longrightarrow> Suc (length (um_erase k m)) = length m"
proof -
  assume ok: "um_ok m" and f: "um_find m k = Some v"
  have "length m = map_count (\<lambda>_. True) (um_find m)"
    unfolding map_count_True by (rule um.size_of_find [OF ok])
  also have "\<dots> = Suc (map_count (\<lambda>_. True) (um_find (um_erase k m)))"
    using um.count_erase [OF f, of "\<lambda>_. True"] by simp
  also have "map_count (\<lambda>_. True) (um_find (um_erase k m)) = length (um_erase k m)"
    unfolding map_count_True by (rule um.size_of_find [OF um.ok_erase [OF ok], symmetric])
  finally show ?thesis by (rule sym)
qed

lemma swept_current:
  assumes inv: "kv_inv s" and top: "pq_top (m_expirations s) = Some x" and lt: "sw_processed r < mx"
    and due: "rec_expireAt x \<le> now" and cur: "current s x e"
    and er: "KVStore_EraseEntryLocked (popped s) (rec_key x) e = Inr s1"
    and rest: "swept s1 now mx
      (r\<lparr>sw_processed := sw_processed r + 1, sw_removed := sw_removed r + 1\<rparr>) r' s'"
  shows "swept s now mx r r' s'"
proof -
  note fr = EraseEntryLocked_frame [OF er]
  have find: "um_find (m_data s) (rec_key x) = Some e" using cur by (simp add: current_def)
  have "Suc (length (m_data s1)) = length (m_data s)"
    using length_um_erase_old [OF _ find] fr inv by (simp add: kv_inv_def kv_core_def)
  moreover have "Suc (length (m_expirations s1)) = length (m_expirations s)"
    using pq.size_pop [OF top] fr by simp
  moreover have "kv_view s1 t = kv_view s t" if "now \<le> t" for t
    using Erase_expired_view [OF _ _ that er] find cur due
    by (simp add: current_def KVStore_IsExpired_def)
  ultimately show ?thesis using rest lt by (auto simp: swept_def)
qed

lemma heap_due_iff: "heap_has_due s now \<longleftrightarrow>
    (\<exists>x. pq_top (m_expirations s) = Some x \<and> rec_expireAt x \<le> now)"
  by (simp add: heap_has_due_def split: option.split)

lemma SweepLoop_swept:
  assumes "kv_inv s" "kv_fits s"
  shows "\<exists>r' s'. KVStore_SweepLoop s now mx r = Inr (r', s') \<and> swept s now mx r r' s'"
  using assms
proof (induction "length (m_expirations s)" arbitrary: s r rule: less_induct)
  case less
  show ?case
  proof (cases "\<exists>x. pq_top (m_expirations s) = Some x \<and> sw_processed r < mx \<and> rec_expireAt x \<le> now")
    case False
    then have "KVStore_SweepLoop s now mx r = Inr (r, s)"
      by (intro SweepLoop_stop) (metis not_le option.exhaust)
    moreover have "swept s now mx r r s"
      using False less.prems by (auto simp: swept_def heap_due_iff)
    ultimately show ?thesis by blast
  next
    case True
    then obtain x where x: "pq_top (m_expirations s) = Some x" "sw_processed r < mx" "rec_expireAt x \<le> now"
      by blast
    note shorter = pq_pop_shorter [OF x(1)]
    show ?thesis
    proof (cases "\<exists>e. current s x e")
      case False
      have "kv_inv (popped s)" using less.prems(1) x(1) False by (rule stale_inv)
      then obtain r' s' where "KVStore_SweepLoop (popped s) now mx (counted_one r) = Inr (r', s')"
        "swept (popped s) now mx (counted_one r) r' s'"
        using less.hyps [of "popped s" "counted_one r"] shorter less.prems(2) by (auto simp: kv_fits_def)
      then show ?thesis using SweepLoop_stale [OF x False] swept_stale [OF x(1,2)] by auto
    next
      case True
      then obtain e where cur: "current s x e" by blast
      have "kv_fits (popped s)" using less.prems(2) by (simp add: kv_fits_def)
      then obtain s1 where er: "KVStore_EraseEntryLocked (popped s) (rec_key x) e = Inr s1"
        using Erase_ok [OF popped_core [OF kv_inv_core [OF less.prems(1)]]] cur
        by (auto simp: current_def)
      have "kv_inv s1" using less.prems(1) x(1) cur er by (rule current_inv)
      moreover have "kv_fits s1" using Erase_fits [OF er \<open>kv_fits (popped s)\<close>] .
      moreover have "length (m_expirations s1) < length (m_expirations s)"
        using EraseEntryLocked_frame [OF er] shorter by simp
      ultimately obtain r' s' where
        "KVStore_SweepLoop s1 now mx (r\<lparr>sw_processed := sw_processed r + 1, sw_removed := sw_removed r + 1\<rparr>)
           = Inr (r', s')"
        "swept s1 now mx (r\<lparr>sw_processed := sw_processed r + 1, sw_removed := sw_removed r + 1\<rparr>) r' s'"
        using less.hyps by blast
      then show ?thesis
        using SweepLoop_current [OF x cur er] swept_current [OF less.prems(1) x cur er] by auto
    qed
  qed
qed

text \<open>A queue without a due record means that no entry of the map is expired.\<close>

lemma not_due_all:
  assumes "pq_valid ExpirationCompare (m_expirations s)" "\<not> heap_has_due s now"
    and "x \<in> set (m_expirations s)"
  shows "now < rec_expireAt x"
proof (cases "pq_top (m_expirations s)")
  case None
  with assms(3) pq.top_None [of "m_expirations s"] show ?thesis by simp
next
  case (Some y)
  have "\<not> ExpirationCompare y x" using pq.top_first [OF assms(1) Some] assms(3) by simp
  moreover have "now < rec_expireAt y" using assms(2) Some by (auto simp: heap_due_iff)
  ultimately show ?thesis by (simp add: ExpirationCompare_def)
qed

lemma not_due_none_expired:
  assumes "kv_inv s" "\<not> heap_has_due s now" "um_find (m_data s) k = Some e"
  shows "\<not> KVStore_IsExpired e now"
proof (cases "entry_expireAt e")
  case (Some t)
  then have "record_of k e t \<in> set (m_expirations s)"
    using assms by (auto simp: kv_inv_def covered_def)
  then have "now < t"
    using not_due_all [OF _ assms(2)] assms(1) by (fastforce simp: kv_inv_def record_of_def)
  with Some show ?thesis by (simp add: KVStore_IsExpired_def)
qed (simp add: KVStore_IsExpired_def)

subsection \<open>Rebuilding the queue\<close>

lemma heap_ge_expiring:
  assumes "kv_inv s"
  shows "map_count expiring (um_find (m_data s)) \<le> length (m_expirations s)"
proof -
  let ?K = "{k. \<exists>e. um_find (m_data s) k = Some e \<and> expiring e}"
  have "?K \<subseteq> rec_key ` set (m_expirations s)"
  proof
    fix k assume "k \<in> ?K"
    then obtain e t where "um_find (m_data s) k = Some e" "entry_expireAt e = Some t"
      by (auto simp: expiring_def)
    then have "record_of k e t \<in> set (m_expirations s)"
      using assms by (simp add: kv_inv_def covered_def)
    then have "rec_key (record_of k e t) \<in> rec_key ` set (m_expirations s)" by (rule imageI)
    then show "k \<in> rec_key ` set (m_expirations s)" by (simp add: record_of_def)
  qed
  then have "card ?K \<le> card (rec_key ` set (m_expirations s))" by (intro card_mono) auto
  also have "\<dots> \<le> length (m_expirations s)"
    using card_image_le [of "set (m_expirations s)" rec_key] card_length [of "m_expirations s"] by simp
  finally show ?thesis by (simp add: map_count_def)
qed

lemma expiring_records_Cons: "expiring_records ((k, e) # d) =
    (case entry_expireAt e of None \<Rightarrow> [] | Some t \<Rightarrow> [record_of k e t]) @ expiring_records d"
  by (simp add: expiring_records_def record_of_def split: option.split)

lemma expiring_records_Nil [simp]: "expiring_records [] = []"
  by (simp add: expiring_records_def)

lemma mem_expiring_records: "x \<in> set (expiring_records d) \<longleftrightarrow>
    (\<exists>k e t. (k, e) \<in> set d \<and> entry_expireAt e = Some t \<and> x = record_of k e t)"
  by (induction d) (force simp: expiring_records_Cons split: option.splits)+

lemma length_expiring_records: "um_ok d \<Longrightarrow>
    length (expiring_records d) = map_count expiring (um_find d)"
proof (induction d)
  case (Cons a d)
  obtain k e where a: "a = (k, e)" by fastforce
  have ok: "um_ok d" and new: "um_find d k = None"
    using Cons.prems a by (auto simp: um_ok_def um_find_def map_of_eq_None_iff)
  have "um_find (a # d) = (um_find d)(k \<mapsto> e)"
    using a by (simp add: um_find_def fun_eq_iff)
  then have "map_count expiring (um_find (a # d)) =
      map_count expiring (um_find d) + (if expiring e then 1 else 0)"
    using map_count_insert [OF um.finite_find new] by simp
  moreover have "length (expiring_records (a # d)) =
      length (expiring_records d) + (if expiring e then 1 else 0)"
    by (simp add: a expiring_records_Cons expiring_def split: option.split)
  ultimately show ?case using Cons.IH [OF ok] by simp
qed (simp add: um_find_def [abs_def])

lemma length_expiring_filter:
  "length (expiring_records d) = length (filter (\<lambda>(k, e). entry_expireAt e \<noteq> None) d)"
  by (induction d) (auto simp: expiring_records_Cons split: option.split)

lemma ShouldRebuild_ok:
  assumes "kv_inv s" "kv_fits s"
  shows "\<exists>b. KVStore_ShouldRebuildExpirationHeapLocked s = Inr b"
proof -
  have "unat (m_expiringKeys s) \<le> length (m_expirations s)"
    using heap_ge_expiring [OF assms(1)] expiringKeys_unat [OF kv_inv_core [OF assms(1)] assms(2)]
    by simp
  then have "KVStore_ShouldRebuildExpirationHeapLocked s \<noteq> Inl e" for e
    by (simp add: KVStore_ShouldRebuildExpirationHeapLocked_def Let_def)
  then show ?thesis by (cases "KVStore_ShouldRebuildExpirationHeapLocked s") auto
qed

text \<open>Rebuilding keeps exactly the current records.\<close>

lemma Rebuild_ok:
  assumes "kv_inv s" "kv_fits s"
  obtains s' where "KVStore_RebuildExpirationHeapLocked s = Inr s'" "kv_inv s'"
    "m_data s' = m_data s" "mset (m_expirations s') = mset (expiring_records (m_data s))"
proof -
  let ?rs = "expiring_records (m_data s)"
  have ok: "um_ok (m_data s)" using assms(1) by (simp add: kv_inv_def kv_core_def)
  have len: "length ?rs = unat (m_expiringKeys s)"
    using length_expiring_records [OF ok] expiringKeys_unat [OF kv_inv_core [OF assms(1)] assms(2)] by simp
  let ?s = "s\<lparr>m_expirations := (if m_expiringKeys s = 0 then [] else pq_build ExpirationCompare ?rs)\<rparr>"
  have m: "mset (m_expirations ?s) = mset ?rs"
    using len by (auto simp: pq.elems_build)
  have "KVStore_RebuildExpirationHeapLocked s = Inr ?s"
    using len by (simp add: KVStore_RebuildExpirationHeapLocked_def Let_def)
  moreover have "kv_inv ?s" unfolding kv_inv_def
  proof (intro conjI)
    show "kv_core ?s" using assms(1) by (simp add: kv_inv_def kv_core_def counted_def)
    show "pq_valid ExpirationCompare (m_expirations ?s)"
      by (simp add: pq_build_valid) (simp add: pq_valid_def)
    show "covered ?s" unfolding covered_def
    proof (intro allI impI)
      fix k e t
      assume "um_find (m_data ?s) k = Some e" "entry_expireAt e = Some t"
      then have "record_of k e t \<in># mset ?rs"
        using um_find_SomeD [of "m_data s" k e] by (simp add: mem_expiring_records) blast
      then show "record_of k e t \<in> set (m_expirations ?s)"
        unfolding m [symmetric] by simp
    qed
  qed
  ultimately show ?thesis using that m by simp
qed

lemma expiring_records_kept:
  assumes "kv_inv s"
  shows "set (expiring_records (m_data s)) \<subseteq> set (m_expirations s)"
  using assms by (auto simp: mem_expiring_records kv_inv_def kv_core_def covered_def um_find_iff_mem)

text \<open>The whole of \<open>SweepExpired\<close>.\<close>

lemma SweepExpired_ok:
  assumes "kv_inv s" "kv_fits s"
  shows "\<exists>r s'. KVStore_SweepExpired s mx now = Inr (r, s') \<and> kv_inv s' \<and>
    (\<forall>t \<ge> now. kv_view s' t = kv_view s t) \<and>
    length (m_data s') + sw_removed r = length (m_data s) \<and>
    length (m_expirations s') + sw_processed r \<le> length (m_expirations s) \<and>
    sw_removed r \<le> sw_processed r \<and> sw_processed r \<le> mx \<and>
    sw_hasMoreExpired r = heap_has_due s' now \<and>
    (sw_processed r < mx \<longrightarrow> \<not> sw_hasMoreExpired r)"
proof -
  let ?r0 = "\<lparr>sw_processed = 0, sw_removed = 0, sw_hasMoreExpired = False, sw_heapRebuilt = False\<rparr>"
  obtain r1 s1 where loop: "KVStore_SweepLoop s now mx ?r0 = Inr (r1, s1)" and sw: "swept s now mx ?r0 r1 s1"
    using SweepLoop_swept [OF assms] by blast
  have "length (m_data s1) \<le> length (m_data s)" using sw by (simp add: swept_def)
  then have inv1: "kv_inv s1" and fits1: "kv_fits s1" using sw assms(2) by (simp_all add: swept_def kv_fits_def)
  let ?r = "r1\<lparr>sw_hasMoreExpired := heap_has_due s1 now\<rparr>"
  have locked: "KVStore_SweepExpiredLocked s now mx = Inr (?r, s1)"
    by (simp add: KVStore_SweepExpiredLocked_def loop)
  obtain b where b: "KVStore_ShouldRebuildExpirationHeapLocked s1 = Inr b"
    using ShouldRebuild_ok [OF inv1 fits1] by blast
  show ?thesis
  proof (cases b)
    case False
    then show ?thesis using sw by (auto simp: KVStore_SweepExpired_def locked b swept_def)
  next
    case True
    obtain s2 where rb: "KVStore_RebuildExpirationHeapLocked s1 = Inr s2" "kv_inv s2"
      "m_data s2 = m_data s1" "mset (m_expirations s2) = mset (expiring_records (m_data s1))"
      by (rule Rebuild_ok [OF inv1 fits1])
    have len: "length (m_expirations s2) \<le> length (m_expirations s1)"
      using heap_ge_expiring [OF inv1] length_expiring_records [of "m_data s1"] inv1
        arg_cong [OF rb(4), of size]
      by (simp add: kv_inv_def kv_core_def)
    have sub: "set (m_expirations s2) \<subseteq> set (m_expirations s1)"
      using expiring_records_kept [OF inv1] arg_cong [OF rb(4), of set_mset] by simp
    have due: "heap_has_due s1 now" if d: "heap_has_due s2 now"
    proof (rule ccontr)
      assume nd: "\<not> heap_has_due s1 now"
      obtain x where x: "pq_top (m_expirations s2) = Some x" "rec_expireAt x \<le> now"
        using d unfolding heap_due_iff by blast
      have "x \<in> set (m_expirations s1)" using pq.top_in [OF x(1)] sub by auto
      with nd x(2) show False using not_due_all [of s1 now x] inv1 by (simp add: kv_inv_def)
    qed
    have view: "kv_view s2 = kv_view s1" using rb(3) by (simp add: kv_view_def fun_eq_iff)
    show ?thesis
      using sw True len rb due by (auto simp: KVStore_SweepExpired_def locked b swept_def view)
  qed
qed

end
