(* ===== verification/Kv_Contract.thy ===== *)
theory Kv_Contract
  imports Kv_Store
begin

text \<open>
  What the store promises to its clients, the executor and the sweeper.

  \<^item> The locale \<open>kv_service\<close> states the contract operation by operation over the visible contents at
    a time; its lemmas are the scenarios the commands rely on (a value read back after \<open>SET\<close>, gone
    after \<open>DEL\<close> or after its deadline, the reported time to live). The interpretation \<open>kv\<close>
    discharges it for the operations of \<open>Kv_Store\<close>.
  \<^item> \<open>spec_exec\<close> is the abstract store: a map from keys to values with an optional deadline, without
    expiration queue, counters, lazy or background erasure. \<open>kv_run_refines\<close> shows that every
    sequence of operations at non-decreasing clock readings gives the replies of the abstract store.
    Each operation holds the mutex throughout, so the sequences are exactly the interleavings of the
    reactors and the sweeper thread.
\<close>

section \<open>The contract\<close>

type_synonym kv_contents = "time_point \<Rightarrow> string \<Rightarrow> (string \<times> time_point option) option"

text \<open>\<open>good n s\<close>: the invariant holds and there is room for \<open>n\<close> more keys.\<close>

locale kv_service =
  fixes set_op :: "'s \<Rightarrow> string \<Rightarrow> string \<Rightarrow> 's"
    and get_op :: "'s \<Rightarrow> string \<Rightarrow> time_point \<Rightarrow> (string option \<times> 's) result"
    and del_op :: "'s \<Rightarrow> string \<Rightarrow> time_point \<Rightarrow> (bool \<times> 's) result"
    and expire_op :: "'s \<Rightarrow> string \<Rightarrow> int \<Rightarrow> time_point \<Rightarrow> (bool \<times> 's) result"
    and ttl_op :: "'s \<Rightarrow> string \<Rightarrow> time_point \<Rightarrow> (int \<times> 's) result"
    and sweep_op :: "'s \<Rightarrow> nat \<Rightarrow> time_point \<Rightarrow> (SweepResult \<times> 's) result"
    and view :: "'s \<Rightarrow> kv_contents"
    and good :: "nat \<Rightarrow> 's \<Rightarrow> bool"
  assumes set_law: "good (Suc n) s \<Longrightarrow>
      good n (set_op s k v) \<and> (\<forall>t. view (set_op s k v) t = (view s t)(k \<mapsto> (v, None)))"
    and get_law: "good n s \<Longrightarrow> \<exists>s'. get_op s k now = Inr (map_option fst (view s now k), s') \<and>
      good n s' \<and> (\<forall>t \<ge> now. view s' t = view s t)"
    and del_law: "good n s \<Longrightarrow> \<exists>s'. del_op s k now = Inr (view s now k \<noteq> None, s') \<and>
      good n s' \<and> (\<forall>t \<ge> now. view s' t = (view s t)(k := None))"
    and expire_law: "good n s \<Longrightarrow> view s now k = Some (v, d) \<Longrightarrow> 0 < secs \<Longrightarrow>
      \<exists>s'. expire_op s k secs now = Inr (True, s') \<and> good n s' \<and>
        (\<forall>t \<ge> now. view s' t = (view s t)(k :=
          (if t < now + seconds_ns secs then Some (v, Some (now + seconds_ns secs)) else None)))"
    and expire_fail_law: "good n s \<Longrightarrow> view s now k = None \<or> secs \<le> 0 \<Longrightarrow>
      \<exists>s'. expire_op s k secs now = Inr (False, s') \<and> good n s' \<and>
        (\<forall>t \<ge> now. view s' t = view s t)"
    and ttl_law: "good n s \<Longrightarrow> \<exists>s'. ttl_op s k now = Inr (ttl_of now (view s now k), s') \<and>
      good n s' \<and> (\<forall>t \<ge> now. view s' t = view s t)"
    and sweep_law: "good n s \<Longrightarrow> \<exists>r s'. sweep_op s mx now = Inr (r, s') \<and>
      good n s' \<and> (\<forall>t \<ge> now. view s' t = view s t)"
begin

lemma set_get:
  assumes "good (Suc n) s"
  shows "\<exists>s'. get_op (set_op s k v) k now = Inr (Some v, s') \<and> good n s' \<and>
    (\<forall>t \<ge> now. view s' t = (view s t)(k \<mapsto> (v, None)))"
proof -
  have g: "good n (set_op s k v)" and v: "\<And>t. view (set_op s k v) t = (view s t)(k \<mapsto> (v, None))"
    using set_law [OF assms] by auto
  then show ?thesis using get_law [OF g, of k now] by auto
qed

lemma del_get:
  assumes "good n s" and "now \<le> now'" and "del_op s k now = Inr (b, s1)"
  shows "\<exists>s'. get_op s1 k now' = Inr (None, s')"
proof -
  have "good n s1" "view s1 now' k = None"
    using del_law [OF assms(1), of k now] assms(2,3) by auto
  then show ?thesis using get_law [of n s1 k now'] by auto
qed

lemma expire_get:
  assumes "good n s" and "view s now k = Some (v, d)" and "0 < secs" and "now \<le> now'"
    and "expire_op s k secs now = Inr (b, s1)"
  shows "b \<and> (\<exists>s'. get_op s1 k now' = Inr (if now' < now + seconds_ns secs then Some v else None, s'))"
proof -
  have b: "b" and "good n s1" "view s1 now' k =
      (if now' < now + seconds_ns secs then Some (v, Some (now + seconds_ns secs)) else None)"
    using expire_law [OF assms(1-3)] assms(4,5) by auto
  then show ?thesis using get_law [of n s1 k now'] by auto
qed

lemma expire_ttl:
  assumes "good n s" and "view s now k = Some (v, d)" and "0 < secs" and "now \<le> now'"
    and "expire_op s k secs now = Inr (b, s1)"
  shows "\<exists>s'. ttl_op s1 k now' = Inr (if now' < now + seconds_ns secs
    then to_int32 (ceil_seconds (now + seconds_ns secs - now')) else - 2, s')"
proof -
  have "good n s1" "view s1 now' k =
      (if now' < now + seconds_ns secs then Some (v, Some (now + seconds_ns secs)) else None)"
    using expire_law [OF assms(1-3)] assms(4,5) by auto
  then show ?thesis using ttl_law [of n s1 k now'] by (auto simp: ttl_of_def)
qed

end

section \<open>The store keeps the contract\<close>

definition kv_good :: "nat \<Rightarrow> KVStore \<Rightarrow> bool" where
  "kv_good n s \<longleftrightarrow> kv_inv s \<and> length (m_data s) + n < 2 ^ 64"

lemma kv_good_fits: "kv_good n s \<Longrightarrow> kv_inv s \<and> kv_fits s"
  by (simp add: kv_good_def kv_fits_def)

lemma kv_ok_good:
  assumes "kv_ok s now res a v" and "kv_good n s"
  shows "\<exists>s'. res = Inr (a, s') \<and> kv_good n s' \<and> (\<forall>t \<ge> now. kv_view s' t = v t)"
  using assms by (auto simp: kv_ok_def kv_good_def)

lemma expire_live_good:
  assumes "kv_good n s" "kv_view s now k = Some (v, d)" "0 < secs"
  shows "\<exists>s'. KVStore_Expire s k secs now = Inr (True, s') \<and> kv_good n s' \<and>
    (\<forall>t \<ge> now. kv_view s' t = (kv_view s t)(k :=
      (if t < now + seconds_ns secs then Some (v, Some (now + seconds_ns secs)) else None)))"
  using kv_ok_good [OF Expire_ok [of s now k secs] assms(1)] kv_good_fits [OF assms(1)] assms(2,3) by simp

lemma expire_fail_good:
  assumes "kv_good n s" "kv_view s now k = None \<or> secs \<le> 0"
  shows "\<exists>s'. KVStore_Expire s k secs now = Inr (False, s') \<and> kv_good n s' \<and>
    (\<forall>t \<ge> now. kv_view s' t = kv_view s t)"
  using kv_ok_good [OF Expire_ok [of s now k secs] assms(1)] kv_good_fits [OF assms(1)] assms(2)
  by (auto split: option.splits)

lemma sweep_good:
  assumes "kv_good n s"
  shows "\<exists>r s'. KVStore_SweepExpired s mx now = Inr (r, s') \<and> kv_good n s' \<and>
    (\<forall>t \<ge> now. kv_view s' t = kv_view s t)"
  using SweepExpired_ok [of s mx now] kv_good_fits [OF assms] assms by (fastforce simp: kv_good_def)

interpretation kv: kv_service KVStore_Set KVStore_Get KVStore_Del KVStore_Expire KVStore_Ttl
  KVStore_SweepExpired kv_view kv_good
proof unfold_locales
  fix n s k v now
  show "kv_good n (KVStore_Set s k v) \<and>
      (\<forall>t. kv_view (KVStore_Set s k v) t = (kv_view s t)(k \<mapsto> (v, None)))" if "kv_good (Suc n) s"
    using that Set_inv [of s k v] Set_length [of s k v] by (auto simp: kv_good_def Set_view)
  show "\<exists>s'. KVStore_Get s k now = Inr (map_option fst (kv_view s now k), s') \<and> kv_good n s' \<and>
      (\<forall>t \<ge> now. kv_view s' t = kv_view s t)" if "kv_good n s"
    using kv_ok_good [OF Get_ok that] kv_good_fits [OF that] by simp
  show "\<exists>s'. KVStore_Del s k now = Inr (kv_view s now k \<noteq> None, s') \<and> kv_good n s' \<and>
      (\<forall>t \<ge> now. kv_view s' t = (kv_view s t)(k := None))" if "kv_good n s"
    using kv_ok_good [OF Del_ok that] kv_good_fits [OF that] by simp
  show "\<exists>s'. KVStore_Ttl s k now = Inr (ttl_of now (kv_view s now k), s') \<and> kv_good n s' \<and>
      (\<forall>t \<ge> now. kv_view s' t = kv_view s t)" if "kv_good n s"
    using kv_ok_good [OF Ttl_ok that] kv_good_fits [OF that] by simp
qed (use expire_live_good expire_fail_good sweep_good in blast)+

section \<open>The abstract store\<close>

datatype kv_op =
    OpSet string string
  | OpGet string
  | OpDel string
  | OpExpire string int
  | OpTtl string
  | OpSweep nat

datatype kv_reply = RDone | RValue "string option" | RBool bool | RInt int

type_synonym kv_spec = "string \<rightharpoonup> (string \<times> time_point option)"

definition spec_live :: "kv_spec \<Rightarrow> kv_contents" where
  "spec_live m t k =
     (case m k of
        Some (v, Some d) \<Rightarrow> if t < d then Some (v, Some d) else None
      | x \<Rightarrow> x)"

fun spec_exec :: "kv_spec \<Rightarrow> kv_op \<Rightarrow> time_point \<Rightarrow> kv_reply \<times> kv_spec" where
  "spec_exec m (OpSet k v) now = (RDone, m(k \<mapsto> (v, None)))"
| "spec_exec m (OpGet k) now = (RValue (map_option fst (spec_live m now k)), m)"
| "spec_exec m (OpDel k) now = (RBool (spec_live m now k \<noteq> None), m(k := None))"
| "spec_exec m (OpExpire k n) now =
     (case spec_live m now k of
        None \<Rightarrow> (RBool False, m)
      | Some (v, _) \<Rightarrow>
          if n \<le> 0 then (RBool False, m) else (RBool True, m(k \<mapsto> (v, Some (now + seconds_ns n)))))"
| "spec_exec m (OpTtl k) now = (RInt (ttl_of now (spec_live m now k)), m)"
| "spec_exec m (OpSweep n) now = (RDone, m)"

fun spec_run :: "kv_spec \<Rightarrow> (kv_op \<times> time_point) list \<Rightarrow> kv_reply list \<times> kv_spec" where
  "spec_run m [] = ([], m)"
| "spec_run m ((op, now) # ops) =
     (let (r, m') = spec_exec m op now; (rs, m'') = spec_run m' ops in (r # rs, m''))"

text \<open>The store on the same operations; \<open>SweepExpired\<close> is called with its result dropped.\<close>

fun KVStore_exec :: "KVStore \<Rightarrow> kv_op \<Rightarrow> time_point \<Rightarrow> (kv_reply \<times> KVStore) result" where
  "KVStore_exec s (OpSet k v) now = Inr (RDone, KVStore_Set s k v)"
| "KVStore_exec s (OpGet k) now = bind_result (KVStore_Get s k now) (\<lambda>(v, s). Inr (RValue v, s))"
| "KVStore_exec s (OpDel k) now = bind_result (KVStore_Del s k now) (\<lambda>(b, s). Inr (RBool b, s))"
| "KVStore_exec s (OpExpire k n) now =
     bind_result (KVStore_Expire s k n now) (\<lambda>(b, s). Inr (RBool b, s))"
| "KVStore_exec s (OpTtl k) now = bind_result (KVStore_Ttl s k now) (\<lambda>(i, s). Inr (RInt i, s))"
| "KVStore_exec s (OpSweep n) now =
     bind_result (KVStore_SweepExpired s n now) (\<lambda>(r, s). Inr (RDone, s))"

fun KVStore_run :: "KVStore \<Rightarrow> (kv_op \<times> time_point) list \<Rightarrow> (kv_reply list \<times> KVStore) result" where
  "KVStore_run s [] = Inr ([], s)"
| "KVStore_run s ((op, now) # ops) =
     bind_result (KVStore_exec s op now) (\<lambda>(r, s).
       bind_result (KVStore_run s ops) (\<lambda>(rs, s). Inr (r # rs, s)))"

definition simulates :: "time_point \<Rightarrow> KVStore \<Rightarrow> kv_spec \<Rightarrow> bool" where
  "simulates now s m \<longleftrightarrow> (\<forall>t \<ge> now. kv_view s t = spec_live m t)"

lemma simulatesD: "simulates t0 s m \<Longrightarrow> t0 \<le> t \<Longrightarrow> kv_view s t = spec_live m t"
  by (simp add: simulates_def)

lemma spec_live_upd:
  "spec_live (m(k := None)) t = (spec_live m t)(k := None)"
  "spec_live (m(k \<mapsto> (v, None))) t = (spec_live m t)(k \<mapsto> (v, None))"
  "spec_live (m(k \<mapsto> (v, Some d))) t = (spec_live m t)(k := (if t < d then Some (v, Some d) else None))"
  by (auto simp: spec_live_def fun_eq_iff)

lemma exec_simulates:
  assumes "kv_good (Suc n) s" "simulates t0 s m" "t0 \<le> now"
  shows "\<exists>s'. KVStore_exec s op now = Inr (fst (spec_exec m op now), s') \<and> kv_good n s' \<and>
    simulates now s' (snd (spec_exec m op now))"
proof -
  note v = simulatesD [OF assms(2,3)]
  have later: "kv_view s t = spec_live m t" if "now \<le> t" for t
    using simulatesD [OF assms(2)] assms(3) that by simp
  have weaken: "kv_good n s'" if "kv_good (Suc n) s'" for s' using that by (simp add: kv_good_def)
  show ?thesis
  proof (cases op)
    case (OpSet k w)
    then show ?thesis using kv.set_law [OF assms(1), of k w] later
      by (auto simp: simulates_def spec_live_upd)
  next
    case (OpGet k)
    then show ?thesis using kv.get_law [OF assms(1), of k now] later weaken v
      by (auto simp: simulates_def)
  next
    case (OpDel k)
    then show ?thesis using kv.del_law [OF assms(1), of k now] later weaken v
      by (fastforce simp: simulates_def spec_live_upd)
  next
    case (OpTtl k)
    then show ?thesis using kv.ttl_law [OF assms(1), of k now] later weaken v
      by (auto simp: simulates_def)
  next
    case (OpSweep k)
    then show ?thesis using kv.sweep_law [OF assms(1), of k now] later weaken
      by (auto simp: simulates_def)
  next
    case (OpExpire k i)
    show ?thesis
    proof (cases "spec_live m now k = None \<or> i \<le> 0")
      case True
      with OpExpire kv.expire_fail_law [OF assms(1), of now k i] later weaken v show ?thesis
        by (auto simp: simulates_def split: option.split prod.split)
    next
      case False
      then obtain w d where w: "spec_live m now k = Some (w, d)" and i: "0 < i" by auto
      with OpExpire kv.expire_law [OF assms(1), of now k w d i] later weaken v show ?thesis
        by (auto simp: simulates_def spec_live_upd)
    qed
  qed
qed

lemma run_simulates:
  assumes "kv_good (length ops) s" "simulates t0 s m" "sorted (t0 # map snd ops)"
  shows "\<exists>s'. KVStore_run s ops = Inr (fst (spec_run m ops), s') \<and> kv_good 0 s' \<and>
    simulates (last (t0 # map snd ops)) s' (snd (spec_run m ops))"
  using assms
proof (induction ops arbitrary: s t0 m)
  case Nil
  then show ?case by simp
next
  case (Cons a ops)
  obtain op now where a: "a = (op, now)" by fastforce
  from Cons.prems a obtain s1 where
    s1: "KVStore_exec s op now = Inr (fst (spec_exec m op now), s1)" "kv_good (length ops) s1"
      "simulates now s1 (snd (spec_exec m op now))"
    using exec_simulates [of "length ops" s t0 m now op] by auto
  from Cons.IH [OF s1(2,3)] Cons.prems(3) a obtain s2 where
    "KVStore_run s1 ops = Inr (fst (spec_run (snd (spec_exec m op now)) ops), s2)" "kv_good 0 s2"
    "simulates (last (now # map snd ops)) s2 (snd (spec_run (snd (spec_exec m op now)) ops))"
    by auto
  then show ?case using s1(1) a by (simp add: Let_def split_beta)
qed

section \<open>Properties of the store\<close>

lemma kv_good_init: "n < 2 ^ 64 \<Longrightarrow> kv_good n KVStore_init"
  by (simp add: kv_good_def kv_inv_init) (simp add: KVStore_init_def)

lemma simulates_init: "simulates t KVStore_init Map.empty"
  by (simp add: simulates_def kv_view_def spec_live_def KVStore_init_def fun_eq_iff)

lemma run_init:
  assumes "length ops < 2 ^ 64" "sorted (map snd ops)"
  shows "\<exists>s. KVStore_run KVStore_init ops = Inr (fst (spec_run Map.empty ops), s) \<and> kv_good 0 s \<and>
    (\<forall>t. (\<forall>t0 \<in> set (map snd ops). t0 \<le> t) \<longrightarrow> kv_view s t = spec_live (snd (spec_run Map.empty ops)) t)"
proof (cases ops)
  case Nil
  then show ?thesis using simulates_init kv_good_init [of 0] by (auto simp: simulates_def)
next
  case (Cons a ops')
  let ?t1 = "last (snd a # map snd ops)"
  have "sorted (snd a # map snd ops)" using assms(2) Cons by auto
  then obtain s where s: "KVStore_run KVStore_init ops = Inr (fst (spec_run Map.empty ops), s)"
    "kv_good 0 s" "simulates ?t1 s (snd (spec_run Map.empty ops))"
    using run_simulates [OF kv_good_init [OF assms(1)] simulates_init] by blast
  have "last (map snd ops) \<in> set (map snd ops)" using Cons by (intro last_in_set) simp
  then have "?t1 \<in> set (map snd ops)" using Cons by simp
  then have "kv_view s t = spec_live (snd (spec_run Map.empty ops)) t"
    if "\<forall>t0 \<in> set (map snd ops). t0 \<le> t" for t
    using simulatesD [OF s(3)] that by blast
  with s(1,2) show ?thesis by blast
qed

text \<open>Claim C5: every sequence of store operations at non-decreasing clock readings, that is every
  interleaving of reactors and sweeper, runs without a failing assertion and gives reply for reply
  what the abstract map with deadlines gives; the invariant holds at its end, and from then on the
  visible contents are those of the abstract map.\<close>

theorem kv_run_refines:
  assumes "length ops < 2 ^ 64" and "sorted (map snd ops)"
  shows "\<exists>s. KVStore_run KVStore_init ops = Inr (fst (spec_run Map.empty ops), s) \<and> kv_inv s \<and>
    (\<forall>t. (\<forall>t0 \<in> set (map snd ops). t0 \<le> t) \<longrightarrow> kv_view s t = spec_live (snd (spec_run Map.empty ops)) t)"
  using run_init [OF assms] by (auto simp: kv_good_def)

theorem kv_run_refines_witness:
  "\<exists>s. KVStore_run KVStore_init
      [(OpSet ''a'' ''x'', 0), (OpExpire ''a'' 1, 5), (OpGet ''a'', 10), (OpGet ''a'', 2000000000)] =
    Inr (fst (spec_run Map.empty
      [(OpSet ''a'' ''x'', 0), (OpExpire ''a'' 1, 5), (OpGet ''a'', 10), (OpGet ''a'', 2000000000)]), s) \<and>
    kv_inv s \<and>
    kv_view s 2000000000 = spec_live (snd (spec_run Map.empty
        [(OpSet ''a'' ''x'', 0), (OpExpire ''a'' 1, 5), (OpGet ''a'', 10), (OpGet ''a'', 2000000000)])) 2000000000"
proof -
  let ?ops = "[(OpSet ''a'' ''x'', 0), (OpExpire ''a'' 1, 5), (OpGet ''a'', 10),
    (OpGet ''a'', 2000000000)] :: (kv_op \<times> int) list"
  have ops: "length ?ops < 2 ^ 64" "sorted (map snd ?ops)"
    and last: "\<forall>t0 \<in> set (map snd ?ops). t0 \<le> 2000000000" by simp_all
  obtain s where "KVStore_run KVStore_init ?ops = Inr (fst (spec_run Map.empty ?ops), s)" "kv_inv s"
    "\<forall>t. (\<forall>t0 \<in> set (map snd ?ops). t0 \<le> t) \<longrightarrow> kv_view s t = spec_live (snd (spec_run Map.empty ?ops)) t"
    using kv_run_refines [OF ops] by blast
  with last show ?thesis by blast
qed

text \<open>Claim C24: the counters are exact after every such run: \<open>Stats\<close> and \<open>Size\<close> report the number
  of stored entries, split into those without and those with a deadline.\<close>

theorem kv_stats_exact:
  assumes "length ops < 2 ^ 64" and "sorted (map snd ops)"
    and "KVStore_run KVStore_init ops = Inr (rs, s)"
  shows "unat (KVStore_Size s) = length (m_data s) \<and>
    unat (st_keys (KVStore_Stats s)) = length (m_data s) \<and>
    unat (st_persistentKeys (KVStore_Stats s)) =
      length (filter (\<lambda>(k, e). entry_expireAt e = None) (m_data s)) \<and>
    unat (st_expiringKeys (KVStore_Stats s)) =
      length (filter (\<lambda>(k, e). entry_expireAt e \<noteq> None) (m_data s))"
proof -
  have good: "kv_good 0 s" using run_init [OF assms(1,2)] assms(3) by auto
  then have core: "kv_core s" and ok: "um_ok (m_data s)" and fits: "kv_fits s"
    by (simp_all add: kv_good_def kv_inv_def kv_core_def kv_fits_def)
  have sum: "map_count expiring (um_find (m_data s)) + map_count (\<lambda>e. \<not> expiring e) (um_find (m_data s)) =
      length (m_data s)" using um.count_size [OF ok] .
  have e: "map_count expiring (um_find (m_data s)) =
      length (filter (\<lambda>(k, e). entry_expireAt e \<noteq> None) (m_data s))"
    using length_expiring_records [OF ok] length_expiring_filter [of "m_data s"] by simp
  have p: "map_count (\<lambda>e. \<not> expiring e) (um_find (m_data s)) =
      length (filter (\<lambda>(k, e). entry_expireAt e = None) (m_data s))"
    using sum e sum_length_filter_compl [of "\<lambda>(k, e). entry_expireAt e \<noteq> None" "m_data s"]
    by (simp add: case_prod_unfold)
  have "m_persistentKeys s + m_expiringKeys s = of_nat (length (m_data s))"
    using core sum by (simp add: kv_core_def counted_def flip: of_nat_add) (simp add: add.commute)
  then have "unat (m_persistentKeys s + m_expiringKeys s) = length (m_data s)"
    using good by (simp add: of_nat_u64 kv_good_def)
  then show ?thesis
    using e p expiringKeys_unat [OF core fits] persistentKeys_unat [OF core fits]
    by (simp add: KVStore_Size_def KVStore_Stats_def)
qed

theorem kv_stats_exact_witness:
  "unat (KVStore_Size (KVStore_Set KVStore_init ''a'' ''x'')) =
     length (m_data (KVStore_Set KVStore_init ''a'' ''x''))"
  using kv_stats_exact [of "[(OpSet ''a'' ''x'', 0)]" "[RDone]" "KVStore_Set KVStore_init ''a'' ''x''"]
  by simp



lemma SweepExpired_cases:
  assumes "kv_inv s" "kv_fits s" "KVStore_SweepExpired s mx now = Inr (r, s')"
  shows "\<exists>s1. kv_inv s1 \<and> kv_fits s1 \<and> m_data s' = m_data s1 \<and>
    (KVStore_ShouldRebuildExpirationHeapLocked s1 = Inr False \<and> s' = s1 \<or>
     length (m_expirations s') = map_count expiring (um_find (m_data s1)))"
proof -
  let ?r0 = "\<lparr>sw_processed = 0, sw_removed = 0, sw_hasMoreExpired = False, sw_heapRebuilt = False\<rparr>"
  obtain r1 s1 where loop: "KVStore_SweepLoop s now mx ?r0 = Inr (r1, s1)" and sw: "swept s now mx ?r0 r1 s1"
    using SweepLoop_swept [OF assms(1,2)] by blast
  have "length (m_data s1) \<le> length (m_data s)" using sw by (simp add: swept_def)
  then have inv1: "kv_inv s1" and fits1: "kv_fits s1"
    using sw assms(2) by (simp_all add: swept_def kv_fits_def)
  obtain b where b: "KVStore_ShouldRebuildExpirationHeapLocked s1 = Inr b"
    using ShouldRebuild_ok [OF inv1 fits1] by blast
  show ?thesis
  proof (cases b)
    case False
    with assms(3) b loop inv1 fits1 show ?thesis
      by (auto simp: KVStore_SweepExpired_def KVStore_SweepExpiredLocked_def)
  next
    case True
    obtain s2 where rb: "KVStore_RebuildExpirationHeapLocked s1 = Inr s2" "m_data s2 = m_data s1"
      "mset (m_expirations s2) = mset (expiring_records (m_data s1))"
      by (rule Rebuild_ok [OF inv1 fits1])
    have "s' = s2" using assms(3) b True loop rb(1)
      by (simp add: KVStore_SweepExpired_def KVStore_SweepExpiredLocked_def)
    moreover have "length (m_expirations s2) = map_count expiring (um_find (m_data s1))"
      using arg_cong [OF rb(3), of size] length_expiring_records [of "m_data s1"] inv1
      by (simp add: kv_inv_def kv_core_def)
    ultimately show ?thesis using inv1 fits1 rb(2) by blast
  qed
qed

text \<open>Claim C25: the expiration queue does not grow without bound: after every sweep it is empty
  when no key has a deadline, and otherwise shorter than 4096 records or than the number \<open>n\<close> of
  keys with a deadline plus the larger of 1024 and \<open>n\<close>.\<close>

theorem kv_heap_bounded:
  assumes "kv_inv s" and "kv_fits s" and "KVStore_SweepExpired s mx now = Inr (r, s')"
  shows "let n = length (filter (\<lambda>(k, e). entry_expireAt e \<noteq> None) (m_data s')) in
    (n = 0 \<longrightarrow> m_expirations s' = []) \<and>
    length (m_expirations s') < max 4096 (n + max 1024 n)"
proof -
  from SweepExpired_cases [OF assms] obtain s1 where
    s1: "kv_inv s1" "kv_fits s1" "m_data s' = m_data s1" and
    c: "KVStore_ShouldRebuildExpirationHeapLocked s1 = Inr False \<and> s' = s1 \<or>
      length (m_expirations s') = map_count expiring (um_find (m_data s1))"
    by blast
  let ?n = "length (filter (\<lambda>(k, e). entry_expireAt e \<noteq> None) (m_data s'))"
  have n: "map_count expiring (um_find (m_data s1)) = ?n"
    using s1 length_expiring_records [of "m_data s1"] length_expiring_filter [of "m_data s1"]
    by (simp add: kv_inv_def kv_core_def)
  have u: "unat (m_expiringKeys s1) = ?n"
    using expiringKeys_unat [OF kv_inv_core [OF s1(1)] s1(2)] n by simp
  then have z: "m_expiringKeys s1 = 0 \<longleftrightarrow> ?n = 0" by (metis unat_eq_zero)
  from c show ?thesis
  proof
    assume "KVStore_ShouldRebuildExpirationHeapLocked s1 = Inr False \<and> s' = s1"
    then show ?thesis using z u
      by (auto simp: KVStore_ShouldRebuildExpirationHeapLocked_def Let_def MIN_HEAP_RECORDS_FOR_REBUILD_def
        MIN_STALE_RECORDS_FOR_REBUILD_def split: if_splits)
  next
    assume "length (m_expirations s') = map_count expiring (um_find (m_data s1))"
    then show ?thesis using n by (auto simp: Let_def)
  qed
qed

lemma Sweep_init: "KVStore_SweepExpired KVStore_init 1024 0 =
    Inr (\<lparr>sw_processed = 0, sw_removed = 0, sw_hasMoreExpired = False, sw_heapRebuilt = False\<rparr>, KVStore_init)"
  by (simp add: KVStore_SweepExpired_def KVStore_SweepExpiredLocked_def KVStore_SweepLoop.simps
    KVStore_init_def pq_top_def heap_has_due_def KVStore_ShouldRebuildExpirationHeapLocked_def)

theorem kv_heap_bounded_witness:
  "let n = length (filter (\<lambda>(k, e). entry_expireAt e \<noteq> None) (m_data KVStore_init)) in
    length (m_expirations KVStore_init) < max 4096 (n + max 1024 n)"
proof -
  have "kv_fits KVStore_init" by (simp add: kv_fits_def KVStore_init_def)
  from kv_heap_bounded [OF kv_inv_init this Sweep_init] show ?thesis by (simp only: Let_def)
qed

lemma ceil_seconds_bounds:
  assumes "0 < d" and "d \<le> seconds_ns n"
  shows "1 \<le> ceil_seconds d \<and> ceil_seconds d \<le> n \<and>
    (ceil_seconds d - 1) * 1000000000 < d \<and> d \<le> ceil_seconds d * 1000000000"
  using assms unfolding ceil_seconds_def seconds_ns_def by auto

lemma to_int32_id: "- (2 ^ 31) \<le> i \<Longrightarrow> i < 2 ^ 31 \<Longrightarrow> to_int32 i = i"
  by (simp add: to_int32_def int_word_sint)

text \<open>Claim C23: the time to live is exact: after \<open>EXPIRE k n\<close> on a visible key, with \<open>n\<close> any
  positive \<open>int\<close>, \<open>TTL k\<close> at any later time reports the remaining nanoseconds rounded up to whole
  seconds, a value between 1 and \<open>n\<close> that the cast to \<open>int\<close> does not change, and \<open>-2\<close> from the
  deadline on. The deadline itself fits into the clock's 64 bits while the clock is below \<open>2^62\<close>
  nanoseconds.\<close>

theorem kv_expire_ttl:
  assumes good: "kv_good m s" and vis: "kv_view s now k = Some (v, d)" and n: "1 \<le> n" "n < 2 ^ 31"
    and later: "now \<le> now'" and clock: "0 \<le> now" "now < 2 ^ 62"
  shows "\<exists>s1 ttl s2. KVStore_Expire s k n now = Inr (True, s1) \<and> KVStore_Ttl s1 k now' = Inr (ttl, s2) \<and>
    (if now' < now + seconds_ns n
     then 1 \<le> ttl \<and> ttl \<le> n \<and> (ttl - 1) * 1000000000 < now + seconds_ns n - now' \<and>
       now + seconds_ns n - now' \<le> ttl * 1000000000
     else ttl = - 2) \<and>
    now + seconds_ns n < 2 ^ 63"
proof -
  obtain s1 where s1: "KVStore_Expire s k n now = Inr (True, s1)"
    using kv.expire_law [OF good vis, of n] n by auto
  obtain s2 where s2: "KVStore_Ttl s1 k now' = Inr (if now' < now + seconds_ns n
      then to_int32 (ceil_seconds (now + seconds_ns n - now')) else - 2, s2)"
    using kv.expire_ttl [OF good vis, of n now' True s1] later s1 n by auto
  have "now + seconds_ns n < 2 ^ 63" using n clock by (simp add: seconds_ns_def)
  moreover have "to_int32 (ceil_seconds (now + seconds_ns n - now')) = ceil_seconds (now + seconds_ns n - now')"
    if "now' < now + seconds_ns n"
    using ceil_seconds_bounds [of "now + seconds_ns n - now'" n] that later n by (intro to_int32_id) auto
  ultimately show ?thesis
    using s1 s2 ceil_seconds_bounds [of "now + seconds_ns n - now'" n] later by auto
qed

theorem kv_expire_ttl_witness:
  "\<exists>s1 ttl s2. KVStore_Expire (KVStore_Set KVStore_init ''a'' ''x'') ''a'' 10 5 = Inr (True, s1) \<and>
    KVStore_Ttl s1 ''a'' 1000000006 = Inr (ttl, s2) \<and>
    (if (1000000006 :: int) < 5 + seconds_ns 10
     then 1 \<le> ttl \<and> ttl \<le> 10 \<and> (ttl - 1) * 1000000000 < 5 + seconds_ns 10 - 1000000006 \<and>
       5 + seconds_ns 10 - 1000000006 \<le> ttl * 1000000000
     else ttl = - 2) \<and>
    5 + seconds_ns 10 < 2 ^ 63"
proof (rule kv_expire_ttl)
  show "kv_good 0 (KVStore_Set KVStore_init ''a'' ''x'')"
    using kv.set_law [OF kv_good_init [of "Suc 0"]] by simp
  show "kv_view (KVStore_Set KVStore_init ''a'' ''x'') 5 ''a'' = Some (''x'', None)" by (simp add: Set_view)
qed simp_all

text \<open>\<open>Size\<close> counts stored entries, not valid ones as its comment says: a key past its
  deadline is invisible to every client and still counted until it is touched or swept.\<close>

theorem kv_size_counts_expired:
  "\<exists>s. KVStore_run KVStore_init [(OpSet ''a'' ''x'', 0), (OpExpire ''a'' 1, 0)] = Inr ([RDone, RBool True], s) \<and>
    KVStore_Size s = 1 \<and> (\<forall>k. kv_view s 1000000000 k = None)"
  by (simp add: KVStore_Set_def KVStore_init_def KVStore_Expire_def KVStore_IsExpired_def um_find_def
      um_put_def Let_def KVStore_Size_def kv_view_def seconds_ns_def)

end
