(* ===== verification/Command_Executor.thy ===== *)
theory Command_Executor
  imports Frame_Codec Command_Parser Kv_Contract
begin

text \<open>
  The command executor (\<^verbatim>\<open>src/core/command_executor.cpp\<close>): one request text is parsed and executed on
  the store, giving the response text.  The specification of a session is \<open>spec_response\<close>, which reads
  the replies off the abstract map of deadlines; the executor is shown to give the same texts for every
  sequence of requests.
\<close>

section \<open>The executor\<close>

definition help_text :: string where
  "help_text =
     ''Supported commands:'' @ [CHR 0x0A] @
     ''  PING'' @ [CHR 0x0A] @
     ''  SET <key> <value>'' @ [CHR 0x0A] @
     ''  GET <key>'' @ [CHR 0x0A] @
     ''  DEL <key>'' @ [CHR 0x0A] @
     ''  EXPIRE <key> <seconds>'' @ [CHR 0x0A] @
     ''  TTL <key>'' @ [CHR 0x0A] @
     ''  STATS'' @ [CHR 0x0A] @
     ''  HELP'' @ [CHR 0x0A] @
     ''  QUIT''"

definition stats_text :: "InnerStats \<Rightarrow> string" where
  "stats_text stats =
     ''+keys='' @ nat_to_string (unat (st_keys stats)) @
     '',persistent='' @ nat_to_string (unat (st_persistentKeys stats)) @
     '',expiring='' @ nat_to_string (unat (st_expiringKeys stats))"

definition CommandExecutor_Execute :: "KVStore \<Rightarrow> Command \<Rightarrow> time_point \<Rightarrow> (string \<times> KVStore) result" where
  "CommandExecutor_Execute store command now =
     (case cmd_type command of
        Ping \<Rightarrow> Inr (''+PONG'', store)
      | Set \<Rightarrow> Inr (''+OK'', KVStore_Set store (cmd_key command) (cmd_value command))
      | Get \<Rightarrow> bind_result (KVStore_Get store (cmd_key command) now) (\<lambda>(value, store).
          case value of Some v \<Rightarrow> Inr (''$'' @ v, store) | None \<Rightarrow> Inr (''$nil'', store))
      | Del \<Rightarrow> bind_result (KVStore_Del store (cmd_key command) now) (\<lambda>(found, store).
          if found then Inr (''+OK'', store) else Inr (''$nil'', store))
      | Expire \<Rightarrow> bind_result (KVStore_Expire store (cmd_key command) (cmd_seconds command) now) (\<lambda>(found, store).
          if found then Inr (''+OK'', store) else Inr (''$nil'', store))
      | Ttl \<Rightarrow> bind_result (KVStore_Ttl store (cmd_key command) now) (\<lambda>(ttl, store).
          Inr (''$'' @ int_to_string ttl, store))
      | Stats \<Rightarrow> Inr (stats_text (KVStore_Stats store), store)
      | Quit \<Rightarrow> Inr (''+BYE'', store)
      | Help \<Rightarrow> Inr (help_text, store)
      | Unknown \<Rightarrow> Inr (''-ERR unknown command'', store))"

section \<open>The specification of a session\<close>

definition command_op :: "Command \<Rightarrow> kv_op option" where
  "command_op c =
     (case cmd_type c of
        Set \<Rightarrow> Some (OpSet (cmd_key c) (cmd_value c))
      | Get \<Rightarrow> Some (OpGet (cmd_key c))
      | Del \<Rightarrow> Some (OpDel (cmd_key c))
      | Expire \<Rightarrow> Some (OpExpire (cmd_key c) (cmd_seconds c))
      | Ttl \<Rightarrow> Some (OpTtl (cmd_key c))
      | _ \<Rightarrow> None)"

fun reply_text :: "kv_reply \<Rightarrow> string" where
  "reply_text RDone = ''+OK''"
| "reply_text (RValue None) = ''$nil''"
| "reply_text (RValue (Some v)) = ''$'' @ v"
| "reply_text (RBool b) = (if b then ''+OK'' else ''$nil'')"
| "reply_text (RInt i) = ''$'' @ int_to_string i"

text \<open>The texts a command may be answered with: one text, except for STATS, whose counters are those
  of the entries in memory, of which the visible ones are a part.\<close>

definition constant_reply :: "CommandType \<Rightarrow> string" where
  "constant_reply ty =
     (case ty of Ping \<Rightarrow> ''+PONG'' | Quit \<Rightarrow> ''+BYE'' | Help \<Rightarrow> help_text | _ \<Rightarrow> ''-ERR unknown command'')"

definition stats_reply :: "string \<Rightarrow> bool" where
  "stats_reply r \<longleftrightarrow> (\<exists>p e. p + e < 2 ^ 64 \<and>
     r = ''+keys='' @ nat_to_string (p + e) @ '',persistent='' @ nat_to_string p @ '',expiring='' @ nat_to_string e)"

definition response_ok :: "kv_spec \<Rightarrow> Command \<Rightarrow> time_point \<Rightarrow> string \<Rightarrow> bool" where
  "response_ok m c now r \<longleftrightarrow>
     (case command_op c of
        Some op \<Rightarrow> r = reply_text (fst (spec_exec m op now))
      | None \<Rightarrow> if cmd_type c = Stats then stats_reply r else r = constant_reply (cmd_type c))"

definition spec_command :: "kv_spec \<Rightarrow> Command \<Rightarrow> time_point \<Rightarrow> kv_spec" where
  "spec_command m c now = (case command_op c of Some op \<Rightarrow> snd (spec_exec m op now) | None \<Rightarrow> m)"

fun session_ok :: "kv_spec \<Rightarrow> (string \<times> time_point) list \<Rightarrow> string list \<Rightarrow> bool" where
  "session_ok m [] rs \<longleftrightarrow> rs = []"
| "session_ok m ((line, now) # reqs) [] \<longleftrightarrow> False"
| "session_ok m ((line, now) # reqs) (r # rs) \<longleftrightarrow>
     response_ok m (ParseCommand line) now r \<and> session_ok (spec_command m (ParseCommand line) now) reqs rs"

text \<open>The requests of a session as the reactor handles them: each frame parsed, then executed.\<close>

fun session :: "KVStore \<Rightarrow> (string \<times> time_point) list \<Rightarrow> (string list \<times> KVStore) result" where
  "session store [] = Inr ([], store)"
| "session store ((line, now) # reqs) =
     bind_result (CommandExecutor_Execute store (ParseCommand line) now) (\<lambda>(r, store).
       bind_result (session store reqs) (\<lambda>(rs, store). Inr (r # rs, store)))"

section \<open>Correctness\<close>

lemma Execute_op:
  assumes "command_op c = Some op"
  shows "CommandExecutor_Execute s c now =
    bind_result (KVStore_exec s op now) (\<lambda>(r, s). Inr (reply_text r, s))"
proof -
  have *: "bind_result (bind_result x f) g = bind_result x (\<lambda>y. bind_result (f y) g)"
    for x :: "'x result" and f :: "'x \<Rightarrow> 'y result" and g :: "'y \<Rightarrow> 'z result" by (cases x) auto
  show ?thesis using assms unfolding command_op_def CommandExecutor_Execute_def
    by (auto simp: * case_prod_unfold split: CommandType.splits option.splits
        intro!: arg_cong [where f = "bind_result _"] ext)
qed

lemma Stats_reply: "kv_good n s \<Longrightarrow> stats_reply (stats_text (KVStore_Stats s))"
proof -
  assume good: "kv_good n s"
  let ?p = "unat (m_persistentKeys s)" and ?e = "unat (m_expiringKeys s)"
  have core: "kv_core s" and fits: "kv_fits s" and ok: "um_ok (m_data s)"
    using good by (simp_all add: kv_good_def kv_inv_def kv_core_def kv_fits_def)
  have sum: "?p + ?e = length (m_data s)"
    using expiringKeys_unat [OF core fits] persistentKeys_unat [OF core fits] um.count_size [OF ok, of expiring] by simp
  then have small: "?p + ?e < 2 ^ 64" using good by (simp add: kv_good_def)
  then have "unat (m_persistentKeys s + m_expiringKeys s) = ?p + ?e"
    by (subst unat_word_ariths) simp
  then show ?thesis using small unfolding stats_reply_def stats_text_def KVStore_Stats_def
    by (intro exI [of _ ?p] exI [of _ ?e]) simp
qed

lemma Execute_refines:
  assumes "kv_good (Suc n) s" "simulates t0 s m" "t0 \<le> now"
  shows "\<exists>r s'. CommandExecutor_Execute s c now = Inr (r, s') \<and> response_ok m c now r \<and> kv_good n s' \<and>
    simulates now s' (spec_command m c now)"
proof (cases "command_op c")
  case (Some op)
  with exec_simulates [OF assms, of op] show ?thesis
    by (auto simp: Execute_op response_ok_def spec_command_def)
next
  case None
  have "kv_good n s" "simulates now s m" using assms by (auto simp: kv_good_def simulates_def)
  then show ?thesis using None Stats_reply [OF assms(1)]
    by (auto simp: CommandExecutor_Execute_def command_op_def response_ok_def spec_command_def
        constant_reply_def split: CommandType.splits)
qed

lemma session_refines:
  assumes "kv_good (length reqs) s" "simulates t0 s m" "sorted (t0 # map snd reqs)"
  shows "\<exists>rs s'. session s reqs = Inr (rs, s') \<and> session_ok m reqs rs"
  using assms
proof (induction reqs arbitrary: s t0 m)
  case (Cons req reqs)
  obtain line now where req: "req = (line, now)" by (cases req)
  obtain r s1 where one: "CommandExecutor_Execute s (ParseCommand line) now = Inr (r, s1)"
    "response_ok m (ParseCommand line) now r" "kv_good (length reqs) s1"
    "simulates now s1 (spec_command m (ParseCommand line) now)"
    using Execute_refines [of "length reqs" s t0 m now "ParseCommand line"] Cons.prems req by auto
  moreover obtain rs s2 where "session s1 reqs = Inr (rs, s2)"
    "session_ok (spec_command m (ParseCommand line) now) reqs rs"
    using Cons.IH [OF one(3,4)] Cons.prems(3) req by auto
  ultimately show ?case using req by auto
qed simp

text \<open>Claim C13: every session of request texts, at non-decreasing clock readings and starting from an
  empty store, is answered completely and without an exception, text for text as the abstract map of
  values and deadlines prescribes.\<close>

theorem session_correct:
  assumes "length reqs < 2 ^ 64" and "sorted (map snd reqs)"
  shows "\<exists>rs s. session KVStore_init reqs = Inr (rs, s) \<and> session_ok Map.empty reqs rs"
proof (cases reqs)
  case Nil
  then show ?thesis by simp
next
  case (Cons a reqs')
  have "sorted (snd a # map snd reqs)" using assms(2) Cons by auto
  then show ?thesis
    using session_refines [OF kv_good_init [OF assms(1)] simulates_init] by blast
qed

theorem session_correct_witness:
  "\<exists>rs s. session KVStore_init [(''set k  two words '', 0), (''EXPIRE k 2'', 1), (''get k'', 2000000000),
      (''ttl k'', 2000000001)] = Inr (rs, s) \<and>
    session_ok Map.empty [(''set k  two words '', 0), (''EXPIRE k 2'', 1), (''get k'', 2000000000),
      (''ttl k'', 2000000001)] rs"
  by (rule session_correct) simp_all

lemma hd_texts: "hd help_text = CHR ''S''" "hd (stats_text st) = CHR ''+''"
  by (simp_all add: help_text_def stats_text_def)

text \<open>Every response but that of HELP carries the type prefix of the response format
  (\<open>+\<close>, \<open>$\<close> or \<open>-ERR\<close>), the error prefix exactly for unknown commands; the response of HELP carries
  none of them.\<close>

theorem response_prefix:
  assumes "CommandExecutor_Execute s c now = Inr (r, s')"
  shows "if cmd_type c = Help then hd r \<notin> {CHR ''+'', CHR ''$'', CHR ''-''}
    else (hd r = CHR ''-'' \<longleftrightarrow> cmd_type c = Unknown) \<and> (cmd_type c \<noteq> Unknown \<longrightarrow> hd r \<in> {CHR ''+'', CHR ''$''})"
proof -
  have "(cmd_type c = Help \<and> hd r = CHR ''S'') \<or> (cmd_type c = Unknown \<and> hd r = CHR ''-'') \<or>
      (cmd_type c \<notin> {Help, Unknown} \<and> hd r \<in> {CHR ''+'', CHR ''$''})"
    using assms unfolding CommandExecutor_Execute_def
    by (cases "cmd_type c"; simp add: result_simps case_prod_unfold split: option.split_asm if_split_asm)
      (auto simp: hd_texts)
  then show ?thesis by auto
qed

theorem response_prefix_witness:
  "hd ''+PONG'' \<in> {CHR ''+'', CHR ''$''}"
  using response_prefix [of KVStore_init "ParseCommand ''PING''" 0 "''+PONG''" KVStore_init]
  by (simp add: CommandExecutor_Execute_def ParseCommand_basic_0)

text \<open>The response \<open>$nil\<close> does not tell a missing key from the stored value \<open>nil\<close>: both
  sessions below get the same answer to the same GET.\<close>

theorem nil_ambiguous:
  "(case session KVStore_init [(''SET k nil'', 0), (''GET k'', 0)] of
      Inr (rs, s) \<Rightarrow> rs = [''+OK'', ''$nil''] \<and> kv_view s 0 ''k'' \<noteq> None
    | Inl e \<Rightarrow> False) \<and>
   (case session KVStore_init [(''SET k v'', 0), (''DEL k'', 0), (''GET k'', 0)] of
      Inr (rs, s) \<Rightarrow> rs = [''+OK'', ''+OK'', ''$nil''] \<and> kv_view s 0 ''k'' = None
    | Inl e \<Rightarrow> False)"
  by code_simp

section \<open>Sizes\<close>

text \<open>The values of the store come from requests that fit in a frame, so that a response does, too.\<close>

definition store_fits :: "KVStore \<Rightarrow> bool" where
  "store_fits s \<longleftrightarrow> (\<forall>k e. um_find (m_data s) k = Some e \<longrightarrow> length (entry_value e) < frame_limit)"

lemma store_fits_init: "store_fits KVStore_init"
  by (simp add: store_fits_def KVStore_init_def)

lemma length_Trim: "length (Trim t) \<le> length t"
  by (simp add: Trim_def Let_def)

lemma length_drop_words: "drop_words n t = Some r \<Longrightarrow> length r + n \<le> length t"
proof (induction n arbitrary: t)
  case (Suc n)
  let ?r = "dropWhile IsSpace t"
  have "length (dropWhile (\<lambda>c. \<not> IsSpace c) ?r) < length ?r" if "?r \<noteq> []"
    using that hd_dropWhile [of IsSpace t] length_dropWhile_le [of "\<lambda>c. \<not> IsSpace c" "tl ?r"]
    by (cases ?r) auto
  then show ?case using Suc length_dropWhile_le [of IsSpace t] by (fastforce simp: Let_def split: if_splits)
qed simp

lemma parsed_value_length:
  assumes "cmd_type (ParseCommand line) = Set"
  shows "length (cmd_value (ParseCommand line)) < length line"
proof -
  have "cmd_value (ParseCommand line) = RestAfterNWords (Trim line) 2 \<and> 2 \<le> length (SplitWords (Trim line))"
    using assms by (auto simp: ParseCommand_def Let_def FillBasicCmd_def MakeUnknow_def fresh_command_def
        split: if_splits option.splits)
  moreover from this obtain r where "drop_words 2 (Trim line) = Some r"
    using drop_words_split [of 2 "Trim line"] by auto
  ultimately show ?thesis
    using length_drop_words [of 2 "Trim line" r] length_Trim [of r] length_Trim [of line]
    by (simp add: RestAfterNWords_drop)
qed

lemma store_fits_put: "store_fits s \<Longrightarrow> length v < frame_limit \<Longrightarrow> store_fits (KVStore_Set s k v)"
  by (auto simp: store_fits_def KVStore_Set_def Let_def split: option.splits if_splits)

lemma EraseEntry_data: "KVStore_EraseEntryLocked s k e = Inr s' \<Longrightarrow> m_data s' = um_erase k (m_data s)"
  by (auto simp: KVStore_EraseEntryLocked_def Let_def split: if_splits)

lemma store_fits_erase: "store_fits s \<Longrightarrow> KVStore_EraseEntryLocked s k e = Inr s' \<Longrightarrow> store_fits s'"
  by (auto simp: store_fits_def EraseEntry_data split: if_splits)

lemma length_int32_string: "length (int_to_string (to_int32 i)) \<le> 12"
proof -
  have "- (2 ^ 31) \<le> to_int32 i" "to_int32 i < 2 ^ 31"
    using sint_ge [of "word_of_int i :: 32 word"] sint_lt [of "word_of_int i :: 32 word"]
    by (simp_all add: to_int32_def)
  then have "nat (to_int32 i) < 10 ^ 11" "nat (- to_int32 i) < 10 ^ 11" by simp_all
  then show ?thesis using length_nat_to_string [of _ 11] by (fastforce simp: int_to_string_def)
qed

lemma Ttl_length: "KVStore_Ttl s k now = Inr (i, s') \<Longrightarrow> length (int_to_string i) \<le> 12"
proof -
  assume "KVStore_Ttl s k now = Inr (i, s')"
  then have "i = - 2 \<or> i = - 1 \<or> (\<exists>j. i = to_int32 j)"
    by (auto simp: KVStore_Ttl_def result_simps split: option.splits if_splits)
  moreover have "to_int32 (- 2) = - 2" "to_int32 (- 1) = - 1" by (simp_all add: to_int32_id)
  ultimately show ?thesis using length_int32_string by metis
qed

lemma Execute_texts:
  assumes "CommandExecutor_Execute s c now = Inr (r, s')" and "store_fits s"
  shows "length r \<le> frame_limit"
proof (cases "cmd_type c")
  case Get
  then show ?thesis using assms
    by (auto simp: CommandExecutor_Execute_def KVStore_Get_def result_simps store_fits_def frame_limit_def Suc_le_eq
        less_Suc_eq_le [symmetric] split: option.splits if_splits)
next
  case Ttl
  then show ?thesis using assms Ttl_length [of s "cmd_key c" now]
    by (auto simp: CommandExecutor_Execute_def result_simps frame_limit_def)
next
  case Stats
  then show ?thesis using assms length_u64_string [of "st_keys (KVStore_Stats s)"]
      length_u64_string [of "st_persistentKeys (KVStore_Stats s)"] length_u64_string [of "st_expiringKeys (KVStore_Stats s)"]
    by (auto simp: CommandExecutor_Execute_def stats_text_def frame_limit_def)
qed (use assms in \<open>auto simp: CommandExecutor_Execute_def result_simps frame_limit_def help_text_def split: if_splits\<close>)

lemma Execute_fits:
  assumes "CommandExecutor_Execute s (ParseCommand line) now = Inr (r, s')" and "store_fits s"
    and "length line \<le> frame_limit"
  shows "store_fits s'"
proof (cases "cmd_type (ParseCommand line)")
  case Set
  then show ?thesis using assms parsed_value_length [OF Set]
    by (auto simp: CommandExecutor_Execute_def intro!: store_fits_put)
next
  case Get
  then show ?thesis using assms
    by (auto simp: CommandExecutor_Execute_def KVStore_Get_def result_simps
        split: option.splits if_splits dest: store_fits_erase)
next
  case Del
  then show ?thesis using assms
    by (auto simp: CommandExecutor_Execute_def KVStore_Del_def result_simps
        split: option.splits if_splits dest: store_fits_erase)
next
  case Ttl
  then show ?thesis using assms
    by (auto simp: CommandExecutor_Execute_def KVStore_Ttl_def result_simps
        split: option.splits if_splits dest: store_fits_erase)
next
  case Expire
  have "store_fits s''" if "KVStore_Expire s k n now = Inr (b, s'')" for k n b s''
    using that assms(2)
    by (auto simp: KVStore_Expire_def result_simps Let_def store_fits_def EraseEntry_data
        split: option.splits if_splits)
  then show ?thesis using Expire assms by (auto simp: CommandExecutor_Execute_def result_simps split: if_splits)
qed (use assms in \<open>auto simp: CommandExecutor_Execute_def\<close>)

end
