(* ===== verification/Output_Buffer.thy ===== *)
theory Output_Buffer
  imports Prelude
begin

text \<open>
  The per-connection output buffer (\<^verbatim>\<open>src/net/output_buffer.cpp\<close>): a string of which a prefix of
  \<open>m_readPos\<close> bytes has already been sent, and which is moved to the front only when the sent prefix
  is both large and at least half of the string.  The interface the reactor relies on is the locale
  \<open>byte_queue\<close>: a first-in first-out queue of bytes, seen through \<open>pending\<close>.  The buffer is shown to
  implement it, to keep its memory proportional to what is pending, and to move, over any sequence of
  operations, about as many bytes as were sent.
\<close>

section \<open>The interface\<close>

locale byte_queue =
  fixes inv :: "'q \<Rightarrow> bool"
    and pending :: "'q \<Rightarrow> string"
    and fresh :: 'q
    and append_op :: "'q \<Rightarrow> string \<Rightarrow> 'q"
    and consume_op :: "'q \<Rightarrow> nat \<Rightarrow> 'q result"
    and clear_op :: "'q \<Rightarrow> 'q"
    and size_op :: "'q \<Rightarrow> nat"
  assumes inv_fresh: "inv fresh" and pending_fresh: "pending fresh = []"
    and append_law: "inv q \<Longrightarrow> inv (append_op q bs) \<and> pending (append_op q bs) = pending q @ bs"
    and consume_law: "inv q \<Longrightarrow> n \<le> length (pending q) \<Longrightarrow>
      \<exists>q'. consume_op q n = Inr q' \<and> inv q' \<and> pending q' = drop n (pending q)"
    and consume_error: "inv q \<Longrightarrow> length (pending q) < n \<Longrightarrow> \<exists>e. consume_op q n = Inl e"
    and clear_law: "inv (clear_op q) \<and> pending (clear_op q) = []"
    and size_law: "inv q \<Longrightarrow> size_op q = length (pending q)"
begin

lemma append_size: "inv q \<Longrightarrow> size_op (append_op q bs) = size_op q + length bs"
  using append_law [of q bs] by (simp add: size_law)

lemma consume_iff: "inv q \<Longrightarrow> (\<exists>q'. consume_op q n = Inr q') \<longleftrightarrow> n \<le> size_op q"
  using consume_law [of q n] consume_error [of q n] by (cases "n \<le> length (pending q)") (auto simp: size_law)

lemma consume_result:
  "inv q \<Longrightarrow> consume_op q n = Inr q' \<Longrightarrow>
   inv q' \<and> n \<le> length (pending q) \<and> pending q' = drop n (pending q)"
  using consume_law [of q n] consume_error [of q n] by (cases "n \<le> length (pending q)") auto

text \<open>Sending a queue piece by piece: what leaves it is a prefix of what was appended.\<close>

lemma consume_then_rest:
  "inv q \<Longrightarrow> consume_op q n = Inr q' \<Longrightarrow> take n (pending q) @ pending q' = pending q"
  using consume_result [of q n q'] by simp

end

section \<open>The buffer\<close>

record OutputBuffer =
  m_storage :: string
  m_readPos :: nat

definition OutputBuffer_init :: OutputBuffer where
  "OutputBuffer_init = \<lparr>m_storage = [], m_readPos = 0\<rparr>"

definition COMPACT_THRESHOLD :: nat where
  "COMPACT_THRESHOLD = 64 * 1024"

definition OutputBuffer_Data :: "OutputBuffer \<Rightarrow> string" where
  "OutputBuffer_Data b = drop (m_readPos b) (m_storage b)"

definition OutputBuffer_Size :: "OutputBuffer \<Rightarrow> nat" where
  "OutputBuffer_Size b = length (m_storage b) - m_readPos b"

definition OutputBuffer_Empty :: "OutputBuffer \<Rightarrow> bool" where
  "OutputBuffer_Empty b \<longleftrightarrow> OutputBuffer_Size b = 0"

definition OutputBuffer_Clear :: "OutputBuffer \<Rightarrow> OutputBuffer" where
  "OutputBuffer_Clear b = b\<lparr>m_storage := [], m_readPos := 0\<rparr>"

definition OutputBuffer_CompactIfNeed :: "OutputBuffer \<Rightarrow> OutputBuffer" where
  "OutputBuffer_CompactIfNeed b =
    (if m_readPos b < COMPACT_THRESHOLD then b
     else if m_readPos b < length (m_storage b) div 2 then b
     else b\<lparr>m_storage := drop (m_readPos b) (m_storage b), m_readPos := 0\<rparr>)"

definition OutputBuffer_Append :: "OutputBuffer \<Rightarrow> string \<Rightarrow> OutputBuffer" where
  "OutputBuffer_Append b data =
    (if data = [] then b
     else let b = OutputBuffer_CompactIfNeed b in b\<lparr>m_storage := m_storage b @ data\<rparr>)"

definition OutputBuffer_Consume :: "OutputBuffer \<Rightarrow> nat \<Rightarrow> OutputBuffer result" where
  "OutputBuffer_Consume b bytes =
    (if OutputBuffer_Size b < bytes then Inl (OutOfRange ''OutputBuffer::Consume exceeds pending bytes'')
     else let b = b\<lparr>m_readPos := m_readPos b + bytes\<rparr> in
       if m_readPos b = length (m_storage b) then Inr (OutputBuffer_Clear b)
       else Inr (OutputBuffer_CompactIfNeed b))"

section \<open>Invariant and refinement\<close>

text \<open>\<open>ob_inv\<close> is the representation invariant; \<open>ob_tight\<close> says that compaction is not overdue.\<close>

definition ob_inv :: "OutputBuffer \<Rightarrow> bool" where
  "ob_inv b \<longleftrightarrow> m_readPos b \<le> length (m_storage b)"

definition ob_tight :: "OutputBuffer \<Rightarrow> bool" where
  "ob_tight b \<longleftrightarrow> m_readPos b < COMPACT_THRESHOLD \<or> m_readPos b < length (m_storage b) div 2"

lemmas ob_defs = OutputBuffer_Data_def OutputBuffer_Size_def ob_inv_def

lemma Compact_keeps:
  assumes "ob_inv b"
  shows "ob_inv (OutputBuffer_CompactIfNeed b)" "ob_tight (OutputBuffer_CompactIfNeed b)"
    "OutputBuffer_Data (OutputBuffer_CompactIfNeed b) = OutputBuffer_Data b"
  using assms by (auto simp: OutputBuffer_CompactIfNeed_def ob_defs ob_tight_def COMPACT_THRESHOLD_def)

lemma Append_keeps:
  assumes "ob_inv b"
  shows "ob_inv (OutputBuffer_Append b bs)"
    "OutputBuffer_Data (OutputBuffer_Append b bs) = OutputBuffer_Data b @ bs"
    "ob_tight b \<Longrightarrow> ob_tight (OutputBuffer_Append b bs)"
  using assms Compact_keeps [OF assms]
  by (auto simp: OutputBuffer_Append_def ob_defs ob_tight_def Let_def)

lemma Consume_keeps:
  assumes "ob_inv b" "n \<le> OutputBuffer_Size b"
  shows "\<exists>b'. OutputBuffer_Consume b n = Inr b' \<and> ob_inv b' \<and> ob_tight b' \<and>
    OutputBuffer_Data b' = drop n (OutputBuffer_Data b)"
proof -
  let ?b = "b\<lparr>m_readPos := m_readPos b + n\<rparr>"
  have inv: "ob_inv ?b" using assms by (simp add: ob_defs)
  have data: "OutputBuffer_Data ?b = drop n (OutputBuffer_Data b)" by (simp add: ob_defs add.commute)
  show ?thesis
  proof (cases "m_readPos ?b = length (m_storage ?b)")
    case True
    then show ?thesis using assms data
      by (auto simp: OutputBuffer_Consume_def OutputBuffer_Clear_def ob_defs ob_tight_def COMPACT_THRESHOLD_def)
  next
    case False
    then show ?thesis using assms data Compact_keeps [OF inv] by (auto simp: OutputBuffer_Consume_def)
  qed
qed

lemma Size_Data: "ob_inv b \<Longrightarrow> OutputBuffer_Size b = length (OutputBuffer_Data b)"
  by (simp add: ob_defs)

interpretation ob: byte_queue ob_inv OutputBuffer_Data OutputBuffer_init OutputBuffer_Append
  OutputBuffer_Consume OutputBuffer_Clear OutputBuffer_Size
proof unfold_locales
  show "ob_inv OutputBuffer_init" "OutputBuffer_Data OutputBuffer_init = []"
    by (simp_all add: OutputBuffer_init_def ob_defs)
next
  fix q bs assume "ob_inv q"
  then show "ob_inv (OutputBuffer_Append q bs) \<and> OutputBuffer_Data (OutputBuffer_Append q bs) = OutputBuffer_Data q @ bs"
    by (simp add: Append_keeps)
next
  fix q n assume "ob_inv q" "n \<le> length (OutputBuffer_Data q)"
  then show "\<exists>q'. OutputBuffer_Consume q n = Inr q' \<and> ob_inv q' \<and> OutputBuffer_Data q' = drop n (OutputBuffer_Data q)"
    using Consume_keeps [of q n] by (auto simp: Size_Data)
next
  fix q n assume "ob_inv q" "length (OutputBuffer_Data q) < n"
  then show "\<exists>e. OutputBuffer_Consume q n = Inl e" by (simp add: OutputBuffer_Consume_def Size_Data)
qed (simp_all add: OutputBuffer_Clear_def ob_defs)

section \<open>Sequences of operations\<close>

datatype ob_op = Append string | Consume nat | Clear

fun ob_step :: "ob_op \<Rightarrow> OutputBuffer \<Rightarrow> OutputBuffer result" where
  "ob_step (Append bs) b = Inr (OutputBuffer_Append b bs)"
| "ob_step (Consume n) b = OutputBuffer_Consume b n"
| "ob_step Clear b = Inr (OutputBuffer_Clear b)"

text \<open>The bytes one call of \<open>CompactIfNeed\<close> moves to the front, and the bytes one operation moves or
  declares sent.\<close>

definition compact_cost :: "OutputBuffer \<Rightarrow> nat" where
  "compact_cost b =
    (if m_readPos b < COMPACT_THRESHOLD \<or> m_readPos b < length (m_storage b) div 2 then 0
     else length (m_storage b) - m_readPos b)"

fun op_cost :: "ob_op \<Rightarrow> OutputBuffer \<Rightarrow> nat" where
  "op_cost (Append bs) b = (if bs = [] then 0 else compact_cost b)"
| "op_cost (Consume n) b =
    (if m_readPos b + n = length (m_storage b) then 0 else compact_cost (b\<lparr>m_readPos := m_readPos b + n\<rparr>))"
| "op_cost Clear b = 0"

fun op_sent :: "ob_op \<Rightarrow> nat" where
  "op_sent (Consume n) = n"
| "op_sent (Append bs) = 0"
| "op_sent Clear = 0"

text \<open>A run of operations, as the final buffer with the total moved; \<open>None\<close> when an operation throws.\<close>

fun ob_run :: "ob_op list \<Rightarrow> OutputBuffer \<Rightarrow> (nat \<times> OutputBuffer) result" where
  "ob_run [] b = Inr (0, b)"
| "ob_run (p # ps) b =
    bind_result (ob_step p b) (\<lambda>b'. bind_result (ob_run ps b') (\<lambda>(moved, b''). Inr (op_cost p b + moved, b'')))"

text \<open>The specification: a list of bytes.\<close>

fun ob_spec :: "ob_op list \<Rightarrow> string \<Rightarrow> string option" where
  "ob_spec [] s = Some s"
| "ob_spec (Append bs # ps) s = ob_spec ps (s @ bs)"
| "ob_spec (Consume n # ps) s = (if n \<le> length s then ob_spec ps (drop n s) else None)"
| "ob_spec (Clear # ps) s = ob_spec ps []"

text \<open>The potential of a buffer pays for its next compaction: each sent byte pays a little more than
  one moved byte.\<close>

lemma compact_paid:
  "ob_inv b \<Longrightarrow> COMPACT_THRESHOLD * compact_cost b + (COMPACT_THRESHOLD + 1) * m_readPos (OutputBuffer_CompactIfNeed b)
    \<le> (COMPACT_THRESHOLD + 1) * m_readPos b"
  by (auto simp: compact_cost_def OutputBuffer_CompactIfNeed_def COMPACT_THRESHOLD_def ob_inv_def)

lemma step_paid:
  assumes "ob_inv b" "ob_step p b = Inr b'"
  shows "COMPACT_THRESHOLD * op_cost p b + (COMPACT_THRESHOLD + 1) * m_readPos b'
    \<le> (COMPACT_THRESHOLD + 1) * (m_readPos b + op_sent p)"
proof (cases p)
  case (Append bs)
  then show ?thesis using compact_paid [OF assms(1)] assms(2)
    by (auto simp: OutputBuffer_Append_def Let_def)
next
  case (Consume n)
  then have n: "n \<le> OutputBuffer_Size b" using assms by (simp add: OutputBuffer_Consume_def split: if_splits)
  then have "ob_inv (b\<lparr>m_readPos := m_readPos b + n\<rparr>)" using assms by (simp add: ob_defs)
  from compact_paid [OF this] show ?thesis using assms(2) Consume n
    by (auto simp: OutputBuffer_Consume_def Let_def OutputBuffer_Clear_def split: if_splits)
next
  case Clear
  then show ?thesis using assms(2) by (auto simp: OutputBuffer_Clear_def)
qed

lemma ob_step_keeps:
  assumes "ob_inv b" "ob_tight b"
  shows "case ob_spec [p] (OutputBuffer_Data b) of
      Some s \<Rightarrow> \<exists>b'. ob_step p b = Inr b' \<and> ob_inv b' \<and> ob_tight b' \<and> OutputBuffer_Data b' = s
    | None \<Rightarrow> \<exists>e. ob_step p b = Inl e"
proof (cases p)
  case (Append bs)
  then show ?thesis using Append_keeps [OF assms(1), of bs] assms(2) by simp
next
  case (Consume n)
  then show ?thesis using Consume_keeps [OF assms(1), of n] assms(1)
    by (auto simp: Size_Data OutputBuffer_Consume_def)
next
  case Clear
  then show ?thesis by (simp add: OutputBuffer_Clear_def ob_defs ob_tight_def COMPACT_THRESHOLD_def)
qed

lemma ob_spec_Cons:
  "ob_spec (p # ps) s = (case ob_spec [p] s of None \<Rightarrow> None | Some s' \<Rightarrow> ob_spec ps s')"
  by (cases p) auto

lemma ob_run_refines:
  assumes "ob_inv b" "ob_tight b"
  shows "case ob_spec ps (OutputBuffer_Data b) of
      Some s \<Rightarrow> \<exists>moved b'. ob_run ps b = Inr (moved, b') \<and> ob_inv b' \<and> ob_tight b' \<and> OutputBuffer_Data b' = s \<and>
        COMPACT_THRESHOLD * moved + (COMPACT_THRESHOLD + 1) * m_readPos b'
          \<le> (COMPACT_THRESHOLD + 1) * (m_readPos b + (\<Sum>p\<leftarrow>ps. op_sent p))
    | None \<Rightarrow> \<exists>e. ob_run ps b = Inl e"
  using assms
proof (induction ps arbitrary: b)
  case (Cons p ps)
  show ?case
  proof (cases "ob_spec [p] (OutputBuffer_Data b)")
    case None
    then show ?thesis using ob_step_keeps [OF Cons.prems, of p] by (auto simp: ob_spec_Cons [of p ps])
  next
    case (Some s)
    then obtain b' where step: "ob_step p b = Inr b'" and b': "ob_inv b'" "ob_tight b'" "OutputBuffer_Data b' = s"
      using ob_step_keeps [OF Cons.prems, of p] by auto
    have paid: "COMPACT_THRESHOLD * op_cost p b + (COMPACT_THRESHOLD + 1) * m_readPos b'
        \<le> (COMPACT_THRESHOLD + 1) * (m_readPos b + op_sent p)"
      by (rule step_paid [OF Cons.prems(1) step])
    show ?thesis
    proof (cases "ob_spec ps s")
      case None
      then show ?thesis using Cons.IH [OF b'(1,2)] Some step b'(3)
        by (auto simp: ob_spec_Cons [of p ps])
    next
      case (Some s')
      then obtain moved b'' where "ob_run ps b' = Inr (moved, b'')" "ob_inv b''" "ob_tight b''" "OutputBuffer_Data b'' = s'"
        "COMPACT_THRESHOLD * moved + (COMPACT_THRESHOLD + 1) * m_readPos b''
          \<le> (COMPACT_THRESHOLD + 1) * (m_readPos b' + (\<Sum>p\<leftarrow>ps. op_sent p))"
        using Cons.IH [OF b'(1,2)] b'(3) by auto
      then show ?thesis using \<open>ob_spec [p] (OutputBuffer_Data b) = Some s\<close> Some step paid
        by (auto simp: ob_spec_Cons [of p ps] algebra_simps)
    qed
  qed
qed simp

lemma ob_tight_space: "ob_tight b \<Longrightarrow> length (m_storage b) \<le> 2 * OutputBuffer_Size b + COMPACT_THRESHOLD"
  by (auto simp: ob_tight_def OutputBuffer_Size_def)

text \<open>Claim C15: the output buffer behaves as a plain byte queue under every sequence of appends,
  consumptions and clears, and throws exactly when more bytes are consumed than are pending; it keeps
  at most 64 KiB more than twice the pending bytes; and over the whole run, compaction moves at most
  \<open>(1 + 1/65536)\<close> times as many bytes as were consumed.\<close>

theorem output_buffer_refines:
  "case ob_spec ps [] of
      Some s \<Rightarrow> \<exists>moved b. ob_run ps OutputBuffer_init = Inr (moved, b) \<and> OutputBuffer_Data b = s \<and>
        OutputBuffer_Size b = length s \<and> length (m_storage b) \<le> 2 * length s + 65536 \<and>
        65536 * moved \<le> 65537 * (\<Sum>p\<leftarrow>ps. op_sent p)
    | None \<Rightarrow> \<exists>e. ob_run ps OutputBuffer_init = Inl e"
proof -
  have init: "ob_inv OutputBuffer_init" "ob_tight OutputBuffer_init" "OutputBuffer_Data OutputBuffer_init = []"
    "m_readPos OutputBuffer_init = 0"
    by (simp_all add: OutputBuffer_init_def ob_defs ob_tight_def COMPACT_THRESHOLD_def)
  show ?thesis
  proof (cases "ob_spec ps []")
    case (Some s)
    then obtain moved b where run: "ob_run ps OutputBuffer_init = Inr (moved, b)" "ob_inv b" "ob_tight b"
      "OutputBuffer_Data b = s"
      "COMPACT_THRESHOLD * moved + (COMPACT_THRESHOLD + 1) * m_readPos b \<le> (COMPACT_THRESHOLD + 1) * (\<Sum>p\<leftarrow>ps. op_sent p)"
      using ob_run_refines [OF init(1,2), of ps] init(3,4) by auto
    moreover have "65536 * moved \<le> 65537 * (\<Sum>p\<leftarrow>ps. op_sent p)"
      using run(5) by (simp add: COMPACT_THRESHOLD_def)
    ultimately show ?thesis using Some Size_Data [of b] ob_tight_space [of b]
      by (auto simp: COMPACT_THRESHOLD_def)
  next
    case None
    then show ?thesis using ob_run_refines [OF init(1,2), of ps] init(3) by simp
  qed
qed

end
