(* ===== verification/Io_Poller.thy ===== *)
theory Io_Poller
  imports Prelude
begin

text \<open>
  Readiness notification (\<^verbatim>\<open>src/net/poll\<close>): the event masks, the two back ends \<open>PollPoller\<close> and
  \<open>EpollPoller\<close>, and the factory.  The abstract class \<open>Poller\<close> is the locale \<open>poller\<close>: a registry from
  descriptors to interests whose operations either do what they say or throw and leave it unchanged.
  Both back ends, and the dynamic dispatch between them, are interpretations.  For \<open>epoll\<close> the control
  calls it made are logged, and the registry of the object is shown to be the one those calls leave in
  the kernel, also when calls fail.

  The outcome of a system call is an argument: \<open>ctl\<close> gives the error of an \<open>epoll_ctl\<close> call from the
  log of the calls made so far, and a waiting call is given the list of its results, one for each time
  it is entered.
\<close>

unbundle bit_operations_syntax

section \<open>Event masks\<close>

type_synonym IoEvent = u32

definition IoEvent_None :: IoEvent where "IoEvent_None = 0"
definition IoEvent_Read :: IoEvent where "IoEvent_Read = push_bit 0 1"
definition IoEvent_Write :: IoEvent where "IoEvent_Write = push_bit 1 1"
definition IoEvent_Error :: IoEvent where "IoEvent_Error = push_bit 2 1"
definition IoEvent_Hangup :: IoEvent where "IoEvent_Hangup = push_bit 3 1"

definition HasIoEvent :: "IoEvent \<Rightarrow> IoEvent \<Rightarrow> bool" where
  "HasIoEvent events expected \<longleftrightarrow> events AND expected \<noteq> 0"

record ReadyEvent =
  ready_fd :: int
  ready_events :: IoEvent

lemmas IoEvent_defs = IoEvent_None_def IoEvent_Read_def IoEvent_Write_def IoEvent_Error_def IoEvent_Hangup_def

lemma and_one_bit: "(w AND push_bit n 1 \<noteq> 0) = bit w n" if "n < LENGTH('a)" for w :: "'a::len word"
proof -
  have "w AND push_bit n 1 = (if bit w n then push_bit n 1 else 0)"
    using that by (intro bit_word_eqI) (auto simp: bit_simps)
  moreover have "push_bit n (1 :: 'a word) \<noteq> 0" using that by (metis bit_0_eq bit_push_bit_iff bit_1_0 bot_apply
        bot_bool_def diff_self_eq_0 order_refl possible_bit_word)
  ultimately show ?thesis by auto
qed

lemma HasIoEvent_bit:
  "HasIoEvent ev IoEvent_Read \<longleftrightarrow> bit ev 0" "HasIoEvent ev IoEvent_Write \<longleftrightarrow> bit ev 1"
  "HasIoEvent ev IoEvent_Error \<longleftrightarrow> bit ev 2" "HasIoEvent ev IoEvent_Hangup \<longleftrightarrow> bit ev 3"
  unfolding HasIoEvent_def IoEvent_defs by (subst and_one_bit; simp)+

section \<open>Shared checks\<close>

definition ValidateInterests :: "int \<Rightarrow> IoEvent \<Rightarrow> cpp_exception option" where
  "ValidateInterests fd interests =
     (if fd < 0 then Some (InvalidArgument ''Poller fd must be non-negative'')
      else
        let hasRead = HasIoEvent interests IoEvent_Read;
            hasWrite = HasIoEvent interests IoEvent_Write
        in if \<not> hasRead \<and> \<not> hasWrite
           then Some (InvalidArgument ''Poller interests must contain Read or Write'')
           else None)"

definition INT_MAX :: int where "INT_MAX = 2147483647"

definition ToTimeoutMilliseconds :: "int \<Rightarrow> int" where
  "ToTimeoutMilliseconds ticks =
     (if ticks < 0 then - 1
      else let maxTimeout = INT_MAX
           in if ticks > maxTimeout then INT_MAX else ticks)"

definition valid_interest :: "int \<Rightarrow> IoEvent \<Rightarrow> bool" where
  "valid_interest fd ev \<longleftrightarrow> 0 \<le> fd \<and> (HasIoEvent ev IoEvent_Read \<or> HasIoEvent ev IoEvent_Write)"

lemma ValidateInterests_iff: "ValidateInterests fd ev = None \<longleftrightarrow> valid_interest fd ev"
  by (simp add: ValidateInterests_def valid_interest_def Let_def)

section \<open>The interface\<close>

text \<open>An operation returns the exception it throws, if any, and the poller as it leaves it.\<close>

type_synonym 'p poller_result = "cpp_exception option \<times> 'p"

locale poller =
  fixes good :: "'p \<Rightarrow> bool"
    and interests :: "'p \<Rightarrow> int \<rightharpoonup> IoEvent"
    and add_op modify_op :: "'p \<Rightarrow> int \<Rightarrow> IoEvent \<Rightarrow> 'p poller_result"
    and remove_op :: "'p \<Rightarrow> int \<Rightarrow> 'p poller_result"
  assumes good_valid: "good p \<Longrightarrow> interests p fd = Some ev \<Longrightarrow> valid_interest fd ev"
    and add_law: "good p \<Longrightarrow> add_op p fd ev = (r, p') \<Longrightarrow> good p' \<and>
      (case r of
         None \<Rightarrow> valid_interest fd ev \<and> interests p fd = None \<and> interests p' = (interests p)(fd \<mapsto> ev)
       | Some e \<Rightarrow> interests p' = interests p)"
    and modify_law: "good p \<Longrightarrow> modify_op p fd ev = (r, p') \<Longrightarrow> good p' \<and>
      (case r of
         None \<Rightarrow> valid_interest fd ev \<and> interests p fd \<noteq> None \<and> interests p' = (interests p)(fd \<mapsto> ev)
       | Some e \<Rightarrow> interests p' = interests p)"
    and remove_law: "good p \<Longrightarrow> remove_op p fd = (r, p') \<Longrightarrow> good p' \<and>
      (case r of
         None \<Rightarrow> interests p' = (interests p)(fd := None)
       | Some e \<Rightarrow> interests p' = interests p \<and> interests p fd \<noteq> None)"
begin

text \<open>Every operation keeps the registry of the other descriptors.\<close>

lemma frame:
  assumes "good p" and "add_op p fd ev = (r, p') \<or> modify_op p fd ev = (r, p') \<or> remove_op p fd = (r, p')"
    and "fd' \<noteq> fd"
  shows "interests p' fd' = interests p fd'"
  using assms add_law [of p fd ev r p'] modify_law [of p fd ev r p'] remove_law [of p fd r p']
  by (auto split: option.splits)

lemma remove_unknown: "good p \<Longrightarrow> interests p fd = None \<Longrightarrow> remove_op p fd = (r, p') \<Longrightarrow>
  r = None \<and> interests p' = interests p"
  using remove_law [of p fd r p'] by (auto split: option.splits)

lemma add_then_remove:
  "good p \<Longrightarrow> add_op p fd ev = (None, p1) \<Longrightarrow> remove_op p1 fd = (None, p2) \<Longrightarrow> interests p2 = interests p"
  using add_law [of p fd ev None p1] remove_law [of p1 fd None p2] by auto

end

section \<open>The poll back end\<close>

record PollPoller =
  pp_interests :: "(int, IoEvent) umap"

definition PollPoller_init :: PollPoller where
  "PollPoller_init = \<lparr>pp_interests = []\<rparr>"

definition PollPoller_Add :: "PollPoller \<Rightarrow> int \<Rightarrow> IoEvent \<Rightarrow> PollPoller poller_result" where
  "PollPoller_Add p fd interests =
     (case ValidateInterests fd interests of
        Some e \<Rightarrow> (Some e, p)
      | None \<Rightarrow>
          if um_find (pp_interests p) fd \<noteq> None
          then (Some (LogicError ''PollPoller fd is already registerred''), p)
          else (None, p\<lparr>pp_interests := um_put fd interests (pp_interests p)\<rparr>))"

definition PollPoller_Modity :: "PollPoller \<Rightarrow> int \<Rightarrow> IoEvent \<Rightarrow> PollPoller poller_result" where
  "PollPoller_Modity p fd interests =
     (case ValidateInterests fd interests of
        Some e \<Rightarrow> (Some e, p)
      | None \<Rightarrow>
          if um_find (pp_interests p) fd = None
          then (Some (LogicError ''PollPoller cannot modify unknown fd''), p)
          else (None, p\<lparr>pp_interests := um_put fd interests (pp_interests p)\<rparr>))"

definition PollPoller_Remove :: "PollPoller \<Rightarrow> int \<Rightarrow> PollPoller poller_result" where
  "PollPoller_Remove p fd = (None, p\<lparr>pp_interests := um_erase fd (pp_interests p)\<rparr>)"

text \<open>The values of the \<open>poll\<close> flags.\<close>

definition POLLIN :: "16 word" where "POLLIN = push_bit 0 1"
definition POLLPRI :: "16 word" where "POLLPRI = push_bit 1 1"
definition POLLOUT :: "16 word" where "POLLOUT = push_bit 2 1"
definition POLLERR :: "16 word" where "POLLERR = push_bit 3 1"
definition POLLHUP :: "16 word" where "POLLHUP = push_bit 4 1"
definition POLLNVAL :: "16 word" where "POLLNVAL = push_bit 5 1"

definition PollPoller_ToNativeEvents :: "IoEvent \<Rightarrow> 16 word" where
  "PollPoller_ToNativeEvents interests =
     (let result = 0;
          result = (if HasIoEvent interests IoEvent_Read then result OR POLLIN else result);
          result = (if HasIoEvent interests IoEvent_Write then result OR POLLOUT else result)
      in result)"

definition PollPoller_FromNativeEvents :: "16 word \<Rightarrow> IoEvent" where
  "PollPoller_FromNativeEvents nativeEvents =
     (let result = IoEvent_None;
          result = (if nativeEvents AND POLLIN \<noteq> 0 \<or> nativeEvents AND POLLPRI \<noteq> 0
                    then result OR IoEvent_Read else result);
          result = (if nativeEvents AND POLLOUT \<noteq> 0 then result OR IoEvent_Write else result);
          result = (if nativeEvents AND POLLERR \<noteq> 0 \<or> nativeEvents AND POLLNVAL \<noteq> 0
                    then result OR IoEvent_Error else result);
          result = (if nativeEvents AND POLLHUP \<noteq> 0 then result OR IoEvent_Hangup else result)
      in result)"

text \<open>One return of a blocking system call: an error number, or a value.  The loops retry on
  \<open>EINTR\<close>; \<open>None\<close> when the listed returns are used up, that is when the call still blocks.\<close>

datatype 'a sysret = Fail int | Ret 'a

definition EINTR :: int where "EINTR = 4"
definition EAGAIN :: int where "EAGAIN = 11"
definition EWOULDBLOCK :: int where "EWOULDBLOCK = 11"

fun retry_eintr :: "'a sysret list \<Rightarrow> 'a sysret option" where
  "retry_eintr [] = None"
| "retry_eintr (Fail e # rs) = (if e = EINTR then retry_eintr rs else Some (Fail e))"
| "retry_eintr (Ret v # rs) = Some (Ret v)"

text \<open>\<open>poll\<close> is given the descriptors with their native interests and returns its count and the
  \<open>revents\<close> of each entry.\<close>

definition poll_fds :: "PollPoller \<Rightarrow> (int \<times> 16 word) list" where
  "poll_fds p = map (\<lambda>(fd, interests). (fd, PollPoller_ToNativeEvents interests)) (pp_interests p)"

definition PollPoller_Wait ::
  "PollPoller \<Rightarrow> (nat \<times> 16 word list) sysret list \<Rightarrow> ReadyEvent list result option" where
  "PollPoller_Wait p returns =
     (let pollFds = poll_fds p
      in case retry_eintr returns of
           None \<Rightarrow> None
         | Some (Fail errno) \<Rightarrow> Some (Inl (SystemError ''Poll failed'' errno))
         | Some (Ret (ready, revents)) \<Rightarrow>
             if ready = 0 then Some (Inr [])
             else Some (Inr (map (\<lambda>((fd, events), revents).
                      \<lparr>ready_fd = fd, ready_events = PollPoller_FromNativeEvents revents\<rparr>)
                    (filter (\<lambda>(descriptor, revents). revents \<noteq> 0) (zip pollFds revents)))))"

definition PollPoller_Name :: "PollPoller \<Rightarrow> string" where
  "PollPoller_Name p = ''poll''"

definition pp_good :: "PollPoller \<Rightarrow> bool" where
  "pp_good p \<longleftrightarrow> um_ok (pp_interests p) \<and>
     (\<forall>fd ev. um_find (pp_interests p) fd = Some ev \<longrightarrow> valid_interest fd ev)"

definition pp_registry :: "PollPoller \<Rightarrow> int \<rightharpoonup> IoEvent" where
  "pp_registry p = um_find (pp_interests p)"

interpretation pp: poller pp_good pp_registry PollPoller_Add PollPoller_Modity PollPoller_Remove
proof unfold_locales
  fix p p' fd ev r
  assume good: "pp_good p"
  show "pp_good p' \<and> (case r of
      None \<Rightarrow> valid_interest fd ev \<and> pp_registry p fd = None \<and> pp_registry p' = (pp_registry p)(fd \<mapsto> ev)
    | Some e \<Rightarrow> pp_registry p' = pp_registry p)" if "PollPoller_Add p fd ev = (r, p')"
    using that good by (auto simp: PollPoller_Add_def pp_good_def pp_registry_def um.ok_put
        ValidateInterests_iff split: option.splits if_splits)
  show "pp_good p' \<and> (case r of
      None \<Rightarrow> valid_interest fd ev \<and> pp_registry p fd \<noteq> None \<and> pp_registry p' = (pp_registry p)(fd \<mapsto> ev)
    | Some e \<Rightarrow> pp_registry p' = pp_registry p)" if "PollPoller_Modity p fd ev = (r, p')"
    using that good by (auto simp: PollPoller_Modity_def pp_good_def pp_registry_def um.ok_put
        ValidateInterests_iff split: option.splits if_splits)
  show "pp_good p' \<and> (case r of
      None \<Rightarrow> pp_registry p' = (pp_registry p)(fd := None)
    | Some e \<Rightarrow> pp_registry p' = pp_registry p \<and> pp_registry p fd \<noteq> None)" if "PollPoller_Remove p fd = (r, p')"
    using that good by (auto simp: PollPoller_Remove_def pp_good_def pp_registry_def um.ok_erase split: if_splits)
qed (auto simp: pp_good_def pp_registry_def)

section \<open>The epoll back end\<close>

datatype epoll_op = EPOLL_CTL_ADD | EPOLL_CTL_MOD | EPOLL_CTL_DEL

text \<open>The log of the control calls: operation, descriptor, events, and the error number of a call
  that failed.\<close>

type_synonym epoll_log = "(epoll_op \<times> int \<times> u32 \<times> int option) list"

type_synonym ctl_oracle = "epoll_log \<Rightarrow> epoll_op \<Rightarrow> int \<Rightarrow> u32 \<Rightarrow> int option"

record EpollPoller =
  ep_epollFd :: int
  ep_interests :: "(int, IoEvent) umap"
  ep_capacity :: nat
  ep_calls :: epoll_log

definition INITIAL_EVENT_CAPACITY :: nat where "INITIAL_EVENT_CAPACITY = 64"
definition MAX_EVENT_CAPACITY :: nat where "MAX_EVENT_CAPACITY = 4096"

text \<open>The constructor, given the return of \<open>epoll_create1\<close>.\<close>

definition EpollPoller_init :: "int sysret \<Rightarrow> EpollPoller result" where
  "EpollPoller_init created =
     (case created of
        Fail errno \<Rightarrow> Inl (SystemError ''epoll_create1 failed'' errno)
      | Ret epollFd \<Rightarrow> Inr \<lparr>ep_epollFd = epollFd, ep_interests = [],
          ep_capacity = INITIAL_EVENT_CAPACITY, ep_calls = []\<rparr>)"

definition EPOLLIN :: u32 where "EPOLLIN = push_bit 0 1"
definition EPOLLPRI :: u32 where "EPOLLPRI = push_bit 1 1"
definition EPOLLOUT :: u32 where "EPOLLOUT = push_bit 2 1"
definition EPOLLERR :: u32 where "EPOLLERR = push_bit 3 1"
definition EPOLLHUP :: u32 where "EPOLLHUP = push_bit 4 1"
definition EPOLLRDHUP :: u32 where "EPOLLRDHUP = push_bit 13 1"

definition EpollPoller_ToNativeEvents :: "IoEvent \<Rightarrow> u32" where
  "EpollPoller_ToNativeEvents interests =
     (let result = 0;
          result = (if HasIoEvent interests IoEvent_Read then result OR EPOLLIN else result);
          result = (if HasIoEvent interests IoEvent_Write then result OR EPOLLOUT else result);
          result = result OR EPOLLRDHUP
      in result)"

definition EpollPoller_FromNativeEvents :: "u32 \<Rightarrow> IoEvent" where
  "EpollPoller_FromNativeEvents nativeEvents =
     (let result = IoEvent_None;
          result = (if nativeEvents AND EPOLLIN \<noteq> 0 \<or> nativeEvents AND EPOLLPRI \<noteq> 0
                    then result OR IoEvent_Read else result);
          result = (if nativeEvents AND EPOLLOUT \<noteq> 0 then result OR IoEvent_Write else result);
          result = (if nativeEvents AND EPOLLERR \<noteq> 0 then result OR IoEvent_Error else result);
          result = (if nativeEvents AND EPOLLHUP \<noteq> 0 \<or> nativeEvents AND EPOLLRDHUP \<noteq> 0
                    then result OR IoEvent_Hangup else result)
      in result)"

text \<open>One control call: its outcome, and the poller with the call logged.\<close>

definition epoll_ctl :: "ctl_oracle \<Rightarrow> EpollPoller \<Rightarrow> epoll_op \<Rightarrow> int \<Rightarrow> u32 \<Rightarrow> int option \<times> EpollPoller" where
  "epoll_ctl ctl p op fd ev =
     (let err = ctl (ep_calls p) op fd ev in (err, p\<lparr>ep_calls := ep_calls p @ [(op, fd, ev, err)]\<rparr>))"

definition EpollPoller_Add :: "ctl_oracle \<Rightarrow> EpollPoller \<Rightarrow> int \<Rightarrow> IoEvent \<Rightarrow> EpollPoller poller_result" where
  "EpollPoller_Add ctl p fd interests =
     (case ValidateInterests fd interests of
        Some e \<Rightarrow> (Some e, p)
      | None \<Rightarrow>
          if um_find (ep_interests p) fd \<noteq> None
          then (Some (LogicError ''EpollPoller fd is already registered''), p)
          else
            let p = p\<lparr>ep_interests := um_put fd interests (ep_interests p)\<rparr>;
                (err, p) = epoll_ctl ctl p EPOLL_CTL_ADD fd (EpollPoller_ToNativeEvents interests)
            in case err of
                 Some errno \<Rightarrow>
                   (Some (SystemError ''epoll_ctl EPOLL_CRL_ADD failed'' errno),
                    p\<lparr>ep_interests := um_erase fd (ep_interests p)\<rparr>)
               | None \<Rightarrow> (None, p))"

definition EpollPoller_Modity :: "ctl_oracle \<Rightarrow> EpollPoller \<Rightarrow> int \<Rightarrow> IoEvent \<Rightarrow> EpollPoller poller_result" where
  "EpollPoller_Modity ctl p fd interests =
     (case ValidateInterests fd interests of
        Some e \<Rightarrow> (Some e, p)
      | None \<Rightarrow>
          if um_find (ep_interests p) fd = None
          then (Some (LogicError ''EpollPoller cannot modify unknown fd''), p)
          else
            let (err, p) = epoll_ctl ctl p EPOLL_CTL_MOD fd (EpollPoller_ToNativeEvents interests)
            in case err of
                 Some errno \<Rightarrow> (Some (SystemError ''epoll_ctl EPOLL_CTL_MOD failed'' errno), p)
               | None \<Rightarrow> (None, p\<lparr>ep_interests := um_put fd interests (ep_interests p)\<rparr>))"

definition EpollPoller_Remove :: "ctl_oracle \<Rightarrow> EpollPoller \<Rightarrow> int \<Rightarrow> EpollPoller poller_result" where
  "EpollPoller_Remove ctl p fd =
     (if um_find (ep_interests p) fd = None then (None, p)
      else
        let (err, p) = epoll_ctl ctl p EPOLL_CTL_DEL fd 0
        in case err of
             Some errno \<Rightarrow> (Some (SystemError ''epoll_ctl EPOLL_CTL_DEL failed'' errno), p)
           | None \<Rightarrow> (None, p\<lparr>ep_interests := um_erase fd (ep_interests p)\<rparr>))"

text \<open>\<open>epoll_wait\<close> returns the ready descriptors with their native events; a full array is doubled
  for the next call, up to the maximum.\<close>

definition EpollPoller_Wait ::
  "EpollPoller \<Rightarrow> (int \<times> u32) list sysret list \<Rightarrow> (ReadyEvent list result \<times> EpollPoller) option" where
  "EpollPoller_Wait p returns =
     (case retry_eintr returns of
        None \<Rightarrow> None
      | Some (Fail errno) \<Rightarrow> Some (Inl (SystemError ''epoll_wait failed'' errno), p)
      | Some (Ret native) \<Rightarrow>
          let readyEvents = map (\<lambda>(fd, events).
                \<lparr>ready_fd = fd, ready_events = EpollPoller_FromNativeEvents events\<rparr>) native;
              p = (if length native = ep_capacity p \<and> ep_capacity p < MAX_EVENT_CAPACITY
                   then let curSize = ep_capacity p; nextCapacity = min (curSize * 2) MAX_EVENT_CAPACITY
                        in p\<lparr>ep_capacity := nextCapacity\<rparr>
                   else p)
          in Some (Inr readyEvents, p))"

definition EpollPoller_Name :: "EpollPoller \<Rightarrow> string" where
  "EpollPoller_Name p = ''epoll''"

text \<open>The interest list the kernel holds after the logged calls, as \<open>epoll_ctl(2)\<close> documents it: a
  successful call registers, changes or deletes the descriptor, a failed one changes nothing.\<close>

fun kernel_step :: "(epoll_op \<times> int \<times> u32 \<times> int option) \<Rightarrow> (int \<rightharpoonup> u32) \<Rightarrow> int \<rightharpoonup> u32" where
  "kernel_step (op, fd, ev, Some errno) k = k"
| "kernel_step (EPOLL_CTL_DEL, fd, ev, None) k = k(fd := None)"
| "kernel_step (_, fd, ev, None) k = k(fd \<mapsto> ev)"

definition kernel_interests :: "EpollPoller \<Rightarrow> int \<rightharpoonup> u32" where
  "kernel_interests p = fold kernel_step (ep_calls p) Map.empty"

definition ep_registry :: "EpollPoller \<Rightarrow> int \<rightharpoonup> IoEvent" where
  "ep_registry p = um_find (ep_interests p)"

definition ep_good :: "EpollPoller \<Rightarrow> bool" where
  "ep_good p \<longleftrightarrow> um_ok (ep_interests p) \<and>
     (\<forall>fd ev. ep_registry p fd = Some ev \<longrightarrow> valid_interest fd ev) \<and>
     kernel_interests p = map_option EpollPoller_ToNativeEvents \<circ> ep_registry p \<and>
     64 \<le> ep_capacity p \<and> ep_capacity p \<le> 4096"

lemma kernel_interests_call:
  "kernel_interests (p\<lparr>ep_calls := ep_calls p @ [c]\<rparr>) = kernel_step c (kernel_interests p)"
  by (simp add: kernel_interests_def)

lemma kernel_interests_upd [simp]: "kernel_interests (p\<lparr>ep_interests := m\<rparr>) = kernel_interests p"
  by (simp add: kernel_interests_def)

lemma ep_good_init: "EpollPoller_init (Ret efd) = Inr p \<Longrightarrow> ep_good p \<and> ep_registry p = Map.empty"
  by (auto simp: EpollPoller_init_def ep_good_def ep_registry_def kernel_interests_def um.ok_nil
      INITIAL_EVENT_CAPACITY_def)


lemma kernel_sync:
  "kernel_interests p = map_option EpollPoller_ToNativeEvents \<circ> ep_registry p \<Longrightarrow>
   (kernel_interests p)(fd \<mapsto> EpollPoller_ToNativeEvents ev) =
     map_option EpollPoller_ToNativeEvents \<circ> (ep_registry p)(fd \<mapsto> ev)"
  "kernel_interests p = map_option EpollPoller_ToNativeEvents \<circ> ep_registry p \<Longrightarrow>
   (kernel_interests p)(fd := None) = map_option EpollPoller_ToNativeEvents \<circ> (ep_registry p)(fd := None)"
  by (auto simp: fun_eq_iff)

interpretation ep: poller ep_good ep_registry "EpollPoller_Add ctl" "EpollPoller_Modity ctl" "EpollPoller_Remove ctl"
  for ctl
proof unfold_locales
  fix p p' fd ev r
  assume good: "ep_good p"
  then have sync: "kernel_interests p = map_option EpollPoller_ToNativeEvents \<circ> ep_registry p"
    by (simp add: ep_good_def)
  note simps = ep_good_def ep_registry_def um.ok_put um.ok_erase kernel_interests_def epoll_ctl_def Let_def
  note sync' = kernel_sync [OF sync, unfolded kernel_interests_def ep_registry_def]
    and sync'' = sync [unfolded kernel_interests_def ep_registry_def]
  show "ep_good p' \<and> (case r of
      None \<Rightarrow> valid_interest fd ev \<and> ep_registry p fd = None \<and> ep_registry p' = (ep_registry p)(fd \<mapsto> ev)
    | Some e \<Rightarrow> ep_registry p' = ep_registry p)" if "EpollPoller_Add ctl p fd ev = (r, p')"
    using that good sync' sync''
    by (auto simp: EpollPoller_Add_def simps ValidateInterests_iff fun_upd_idem split: option.splits if_splits)
  show "ep_good p' \<and> (case r of
      None \<Rightarrow> valid_interest fd ev \<and> ep_registry p fd \<noteq> None \<and> ep_registry p' = (ep_registry p)(fd \<mapsto> ev)
    | Some e \<Rightarrow> ep_registry p' = ep_registry p)" if "EpollPoller_Modity ctl p fd ev = (r, p')"
    using that good sync' sync''
    by (auto simp: EpollPoller_Modity_def simps ValidateInterests_iff split: option.splits if_splits)
  show "ep_good p' \<and> (case r of
      None \<Rightarrow> ep_registry p' = (ep_registry p)(fd := None)
    | Some e \<Rightarrow> ep_registry p' = ep_registry p \<and> ep_registry p fd \<noteq> None)" if "EpollPoller_Remove ctl p fd = (r, p')"
    using that good sync' sync''
    by (auto simp: EpollPoller_Remove_def simps fun_upd_idem split: option.splits if_splits)
qed (simp add: ep_good_def)

section \<open>The abstract class and the factory\<close>

datatype Poller = PollBackend PollPoller | EpollBackend EpollPoller

fun Poller_Add :: "ctl_oracle \<Rightarrow> Poller \<Rightarrow> int \<Rightarrow> IoEvent \<Rightarrow> Poller poller_result" where
  "Poller_Add ctl (PollBackend p) fd ev = map_prod id PollBackend (PollPoller_Add p fd ev)"
| "Poller_Add ctl (EpollBackend p) fd ev = map_prod id EpollBackend (EpollPoller_Add ctl p fd ev)"

fun Poller_Modity :: "ctl_oracle \<Rightarrow> Poller \<Rightarrow> int \<Rightarrow> IoEvent \<Rightarrow> Poller poller_result" where
  "Poller_Modity ctl (PollBackend p) fd ev = map_prod id PollBackend (PollPoller_Modity p fd ev)"
| "Poller_Modity ctl (EpollBackend p) fd ev = map_prod id EpollBackend (EpollPoller_Modity ctl p fd ev)"

fun Poller_Remove :: "ctl_oracle \<Rightarrow> Poller \<Rightarrow> int \<Rightarrow> Poller poller_result" where
  "Poller_Remove ctl (PollBackend p) fd = map_prod id PollBackend (PollPoller_Remove p fd)"
| "Poller_Remove ctl (EpollBackend p) fd = map_prod id EpollBackend (EpollPoller_Remove ctl p fd)"

text \<open>Waiting: each back end is given the returns of its own system call.\<close>

fun Poller_Wait :: "(nat \<times> 16 word list) sysret list \<Rightarrow> (int \<times> u32) list sysret list \<Rightarrow> Poller \<Rightarrow>
    (ReadyEvent list result \<times> Poller) option" where
  "Poller_Wait polls epolls (PollBackend p) = map_option (\<lambda>r. (r, PollBackend p)) (PollPoller_Wait p polls)"
| "Poller_Wait polls epolls (EpollBackend p) = map_option (map_prod id EpollBackend) (EpollPoller_Wait p epolls)"

fun Poller_Name :: "Poller \<Rightarrow> string" where
  "Poller_Name (PollBackend p) = PollPoller_Name p"
| "Poller_Name (EpollBackend p) = EpollPoller_Name p"

fun poller_good :: "Poller \<Rightarrow> bool" where
  "poller_good (PollBackend p) \<longleftrightarrow> pp_good p"
| "poller_good (EpollBackend p) \<longleftrightarrow> ep_good p"

fun poller_registry :: "Poller \<Rightarrow> int \<rightharpoonup> IoEvent" where
  "poller_registry (PollBackend p) = pp_registry p"
| "poller_registry (EpollBackend p) = ep_registry p"

lemma map_prod_iff: "map_prod id f x = (r, p') \<longleftrightarrow> (\<exists>q. x = (r, q) \<and> p' = f q)"
  by (cases x) auto

interpretation pl: poller poller_good poller_registry "Poller_Add ctl" "Poller_Modity ctl" "Poller_Remove ctl"
  for ctl
proof unfold_locales
  fix p p' fd ev r
  assume good: "poller_good p"
  show "valid_interest fd ev" if "poller_registry p fd = Some ev"
    using that good pp.good_valid ep.good_valid by (cases p) auto
  show "poller_good p' \<and> (case r of
      None \<Rightarrow> valid_interest fd ev \<and> poller_registry p fd = None \<and>
        poller_registry p' = (poller_registry p)(fd \<mapsto> ev)
    | Some e \<Rightarrow> poller_registry p' = poller_registry p)" if "Poller_Add ctl p fd ev = (r, p')"
    using that good by (cases p) (fastforce simp: map_prod_iff split: option.splits dest: pp.add_law ep.add_law)+
  show "poller_good p' \<and> (case r of
      None \<Rightarrow> valid_interest fd ev \<and> poller_registry p fd \<noteq> None \<and>
        poller_registry p' = (poller_registry p)(fd \<mapsto> ev)
    | Some e \<Rightarrow> poller_registry p' = poller_registry p)" if "Poller_Modity ctl p fd ev = (r, p')"
    using that good by (cases p) (fastforce simp: map_prod_iff split: option.splits dest: pp.modify_law ep.modify_law)+
  show "poller_good p' \<and> (case r of
      None \<Rightarrow> poller_registry p' = (poller_registry p)(fd := None)
    | Some e \<Rightarrow> poller_registry p' = poller_registry p \<and> poller_registry p fd \<noteq> None)"
    if "Poller_Remove ctl p fd = (r, p')"
    using that good by (cases p) (fastforce simp: map_prod_iff split: option.splits dest: pp.remove_law ep.remove_law)+
qed

text \<open>Waiting changes no registration.\<close>

lemma Poller_Wait_keeps:
  assumes "Poller_Wait polls epolls p = Some (r, p')" "poller_good p"
  shows "poller_good p' \<and> poller_registry p' = poller_registry p"
proof (cases p)
  case (EpollBackend q)
  then show ?thesis using assms
    by (auto simp: EpollPoller_Wait_def ep_good_def ep_registry_def kernel_interests_def Let_def MAX_EVENT_CAPACITY_def
        split: option.splits sysret.splits if_splits)
qed (use assms in auto)

datatype PollerBackend = Auto | Poll | Epoll

text \<open>The factory; \<open>linux\<close> is whether \<^verbatim>\<open>__linux__\<close> is defined.\<close>

definition CreatePoller :: "bool \<Rightarrow> int sysret \<Rightarrow> PollerBackend \<Rightarrow> Poller result" where
  "CreatePoller linux created backend =
     (let epoll = bind_result (EpollPoller_init created) (\<lambda>p. Inr (EpollBackend p))
      in case backend of
           Auto \<Rightarrow> if linux then epoll else Inr (PollBackend PollPoller_init)
         | Poll \<Rightarrow> Inr (PollBackend PollPoller_init)
         | Epoll \<Rightarrow> if linux then epoll
             else Inl (InvalidArgument ''epoll backend is only available on linux''))"

lemma CreatePoller_good:
  "CreatePoller linux created backend = Inr p \<Longrightarrow> poller_good p \<and> poller_registry p = Map.empty"
  by (auto simp: comp_def CreatePoller_def Let_def result_simps EpollPoller_init_def ep_good_def ep_registry_def pp_good_def
      pp_registry_def PollPoller_init_def kernel_interests_def um.ok_nil INITIAL_EVENT_CAPACITY_def
      split: PollerBackend.splits if_splits sysret.splits)

section \<open>Sequences of operations\<close>

datatype poller_call = CallAdd int IoEvent | CallModity int IoEvent | CallRemove int

fun call_poller :: "ctl_oracle \<Rightarrow> poller_call \<Rightarrow> Poller \<Rightarrow> Poller poller_result" where
  "call_poller ctl (CallAdd fd ev) p = Poller_Add ctl p fd ev"
| "call_poller ctl (CallModity fd ev) p = Poller_Modity ctl p fd ev"
| "call_poller ctl (CallRemove fd) p = Poller_Remove ctl p fd"

text \<open>A sequence of calls by a client that goes on after an exception; the list tells which threw.\<close>

fun run_poller :: "ctl_oracle \<Rightarrow> poller_call list \<Rightarrow> Poller \<Rightarrow> bool list \<times> Poller" where
  "run_poller ctl [] p = ([], p)"
| "run_poller ctl (c # cs) p =
     (let (r, p) = call_poller ctl c p; (rs, p) = run_poller ctl cs p in ((r \<noteq> None) # rs, p))"

fun same_backend :: "Poller \<Rightarrow> Poller \<Rightarrow> bool" where
  "same_backend (PollBackend p) (PollBackend q) \<longleftrightarrow> True"
| "same_backend (EpollBackend p) (EpollBackend q) \<longleftrightarrow> True"
| "same_backend _ _ \<longleftrightarrow> False"

lemma call_good: "poller_good p \<Longrightarrow> call_poller ctl c p = (r, p') \<Longrightarrow> poller_good p'"
  by (cases c) (auto dest: pl.add_law pl.modify_law pl.remove_law)

lemma call_backend: "call_poller ctl c p = (r, p') \<Longrightarrow> same_backend p p'"
  by (cases c; cases p) (auto simp: map_prod_iff)

lemma same_backend_trans: "same_backend p q \<Longrightarrow> same_backend q r \<Longrightarrow> same_backend p r"
  by (cases p; cases q; cases r) auto

lemma run_good: "poller_good p \<Longrightarrow> run_poller ctl cs p = (rs, p') \<Longrightarrow> poller_good p' \<and> same_backend p p'"
proof (induction cs arbitrary: p rs)
  case Nil
  then show ?case by (cases p) auto
next
  case (Cons c cs)
  obtain r q where q: "call_poller ctl c p = (r, q)" by fastforce
  moreover obtain rs' where "run_poller ctl cs q = (rs', p')" using Cons.prems(2) q by (auto split: prod.splits)
  ultimately show ?case
    using Cons.IH [of q rs'] call_good [OF Cons.prems(1) q] same_backend_trans [OF call_backend [OF q]] by blast
qed

text \<open>Claim C26: after every sequence of calls on an \<open>EpollPoller\<close>, whichever \<open>epoll_ctl\<close> calls fail, the
  interest list the kernel holds is exactly the registry of the object, translated; and every
  registered interest contains Read or Write.\<close>

theorem epoll_registry_in_kernel:
  assumes "EpollPoller_init (Ret efd) = Inr p0" and "run_poller ctl cs (EpollBackend p0) = (rs, q)"
  shows "\<exists>p. q = EpollBackend p \<and>
    kernel_interests p = map_option EpollPoller_ToNativeEvents \<circ> um_find (ep_interests p) \<and>
    (\<forall>fd ev. um_find (ep_interests p) fd = Some ev \<longrightarrow> valid_interest fd ev)"
  using run_good [OF _ assms(2)] ep_good_init [OF assms(1)]
  by (cases q) (auto simp: ep_good_def ep_registry_def)

theorem epoll_registry_in_kernel_witness:
  "\<exists>p. snd (run_poller (\<lambda>calls op fd ev. if op = EPOLL_CTL_MOD then Some 12 else None)
      [CallAdd 5 1, CallModity 5 3, CallAdd 6 2, CallRemove 6]
      (EpollBackend \<lparr>ep_epollFd = 3, ep_interests = [], ep_capacity = 64, ep_calls = []\<rparr>)) = EpollBackend p \<and>
    kernel_interests p = map_option EpollPoller_ToNativeEvents \<circ> um_find (ep_interests p)"
proof -
  have "EpollPoller_init (Ret 3) = Inr \<lparr>ep_epollFd = 3, ep_interests = [], ep_capacity = 64, ep_calls = []\<rparr>"
    by (simp add: EpollPoller_init_def INITIAL_EVENT_CAPACITY_def)
  from epoll_registry_in_kernel [OF this surjective_pairing] show ?thesis by blast
qed

text \<open>When no control call fails, the two back ends are the same poller.\<close>

lemma call_equivalent:
  assumes "\<forall>calls op fd ev. ctl calls op fd ev = None"
    and "ep_registry p = pp_registry q"
  shows "rel_prod (\<lambda>r r'. (r = None) = (r' = None)) (\<lambda>p q. poller_registry p = poller_registry q)
    (call_poller ctl c (EpollBackend p)) (call_poller ctl' c (PollBackend q))"
  using assms
  by (cases c)
    (auto simp: EpollPoller_Add_def PollPoller_Add_def EpollPoller_Modity_def PollPoller_Modity_def
      EpollPoller_Remove_def PollPoller_Remove_def epoll_ctl_def Let_def pp_registry_def ep_registry_def
      fun_upd_idem split: option.splits)

lemma run_equivalent:
  assumes "\<forall>calls op fd ev. ctl calls op fd ev = None" and "ep_registry p = pp_registry q"
  shows "fst (run_poller ctl cs (EpollBackend p)) = fst (run_poller ctl' cs (PollBackend q)) \<and>
    poller_registry (snd (run_poller ctl cs (EpollBackend p))) =
      poller_registry (snd (run_poller ctl' cs (PollBackend q)))"
  using assms(2)
proof (induction cs arbitrary: p q)
  case (Cons c cs)
  obtain r p1 r' q1 where calls: "call_poller ctl c (EpollBackend p) = (r, p1)"
    "call_poller ctl' c (PollBackend q) = (r', q1)" by fastforce
  then obtain p2 q2 where "p1 = EpollBackend p2" "q1 = PollBackend q2"
    using call_backend by (cases p1; cases q1) fastforce+
  moreover have "(r = None) = (r' = None)" "poller_registry p1 = poller_registry q1"
    using call_equivalent [OF assms(1) Cons.prems, where c = c and ctl' = ctl'] calls by auto
  ultimately show ?case using Cons.IH [of p2 q2] calls by (auto split: prod.splits)
qed simp



section \<open>Translation of events\<close>

lemma from_mask: 
  "(if b then w OR push_bit n 1 else w) = w OR (if b then push_bit n 1 else 0)" for w :: "'a::len word"
  by simp

lemma bit_from_mask: "bit (if b then push_bit n (1 :: 'a::len word) else 0) i \<longleftrightarrow> b \<and> i = n \<and> n < LENGTH('a)"
  by (auto simp: bit_simps)

lemma bit_one_mask: "bit (push_bit n (1 :: 'a::len word)) i \<longleftrightarrow> i = n \<and> n < LENGTH('a)"
  by (auto simp: bit_simps)

lemma bit_IoEvent:
  "bit IoEvent_Read i \<longleftrightarrow> i = 0" "bit IoEvent_Write i \<longleftrightarrow> i = 1" "bit IoEvent_Hangup i \<longleftrightarrow> i = 3"
  unfolding IoEvent_defs bit_one_mask by auto

lemma bit_PollFrom:
  "bit (PollPoller_FromNativeEvents n) i \<longleftrightarrow>
     (i = 0 \<and> (bit n 0 \<or> bit n 1)) \<or> (i = 1 \<and> bit n 2) \<or> (i = 2 \<and> (bit n 3 \<or> bit n 5)) \<or> (i = 3 \<and> bit n 4)"
proof -
  have flags: "n AND POLLIN \<noteq> 0 \<longleftrightarrow> bit n 0" "n AND POLLPRI \<noteq> 0 \<longleftrightarrow> bit n 1" "n AND POLLOUT \<noteq> 0 \<longleftrightarrow> bit n 2"
    "n AND POLLERR \<noteq> 0 \<longleftrightarrow> bit n 3" "n AND POLLHUP \<noteq> 0 \<longleftrightarrow> bit n 4" "n AND POLLNVAL \<noteq> 0 \<longleftrightarrow> bit n 5"
    unfolding POLLIN_def POLLPRI_def POLLOUT_def POLLERR_def POLLHUP_def POLLNVAL_def
    by (subst and_one_bit; simp)+
  show ?thesis unfolding PollPoller_FromNativeEvents_def Let_def flags IoEvent_defs from_mask
    by (simp only: bit_or_iff bit_from_mask bit_0_eq bot_apply) auto
qed

lemma bit_EpollFrom:
  "bit (EpollPoller_FromNativeEvents n) i \<longleftrightarrow>
     (i = 0 \<and> (bit n 0 \<or> bit n 1)) \<or> (i = 1 \<and> bit n 2) \<or> (i = 2 \<and> bit n 3) \<or> (i = 3 \<and> (bit n 4 \<or> bit n 13))"
proof -
  have flags: "n AND EPOLLIN \<noteq> 0 \<longleftrightarrow> bit n 0" "n AND EPOLLPRI \<noteq> 0 \<longleftrightarrow> bit n 1" "n AND EPOLLOUT \<noteq> 0 \<longleftrightarrow> bit n 2"
    "n AND EPOLLERR \<noteq> 0 \<longleftrightarrow> bit n 3" "n AND EPOLLHUP \<noteq> 0 \<longleftrightarrow> bit n 4" "n AND EPOLLRDHUP \<noteq> 0 \<longleftrightarrow> bit n 13"
    unfolding EPOLLIN_def EPOLLPRI_def EPOLLOUT_def EPOLLERR_def EPOLLHUP_def EPOLLRDHUP_def
    by (subst and_one_bit; simp)+
  show ?thesis unfolding EpollPoller_FromNativeEvents_def Let_def flags IoEvent_defs from_mask
    by (simp only: bit_or_iff bit_from_mask bit_0_eq bot_apply) auto
qed

lemma bit_ToNative:
  "bit (PollPoller_ToNativeEvents ev) i \<longleftrightarrow> (i = 0 \<and> bit ev 0) \<or> (i = 2 \<and> bit ev 1)"
  "bit (EpollPoller_ToNativeEvents ev) i \<longleftrightarrow> (i = 0 \<and> bit ev 0) \<or> (i = 2 \<and> bit ev 1) \<or> i = 13"
  unfolding PollPoller_ToNativeEvents_def EpollPoller_ToNativeEvents_def Let_def HasIoEvent_bit
    POLLIN_def POLLOUT_def EPOLLIN_def EPOLLOUT_def EPOLLRDHUP_def from_mask
  by (simp_all only: bit_or_iff bit_from_mask bit_one_mask bit_0_eq bot_apply) auto

text \<open>The translations lose nothing the reactor asks for: an interest translated to the
  native mask and back keeps its Read and Write bits (\<open>epoll\<close> adds the half-close notification, seen as
  Hangup), and native events are read in the same way by both back ends, save for the flags only one of
  them has.\<close>

theorem native_events_agree:
  "PollPoller_FromNativeEvents (PollPoller_ToNativeEvents ev) = ev AND (IoEvent_Read OR IoEvent_Write) \<and>
   EpollPoller_FromNativeEvents (EpollPoller_ToNativeEvents ev) =
     (ev AND (IoEvent_Read OR IoEvent_Write)) OR IoEvent_Hangup \<and>
   PollPoller_FromNativeEvents (n AND NOT (POLLNVAL OR push_bit 13 1)) =
     EpollPoller_FromNativeEvents (ucast (n AND NOT (POLLNVAL OR push_bit 13 1)))"
proof -
  have "PollPoller_FromNativeEvents (PollPoller_ToNativeEvents ev) = ev AND (IoEvent_Read OR IoEvent_Write)"
    by (rule bit_word_eqI) (auto simp: bit_PollFrom bit_ToNative bit_and_iff bit_or_iff bit_IoEvent)
  moreover have "EpollPoller_FromNativeEvents (EpollPoller_ToNativeEvents ev) =
      (ev AND (IoEvent_Read OR IoEvent_Write)) OR IoEvent_Hangup"
    by (rule bit_word_eqI) (auto simp: bit_EpollFrom bit_ToNative bit_and_iff bit_or_iff bit_IoEvent)
  moreover have "PollPoller_FromNativeEvents (n AND NOT (POLLNVAL OR push_bit 13 1)) =
     EpollPoller_FromNativeEvents (ucast (n AND NOT (POLLNVAL OR push_bit 13 1)))"
    by (rule bit_word_eqI) (auto simp: bit_EpollFrom bit_PollFrom bit_simps POLLNVAL_def)
  ultimately show ?thesis by blast
qed

section \<open>Waiting\<close>

text \<open>Claim C36: when \<open>poll\<close> returns with \<open>n\<close> ready entries, possibly after interruptions by signals,
  \<open>Wait\<close> reports exactly those: \<open>n\<close> events for distinct registered descriptors, each with the translation
  of its non-zero \<open>revents\<close>.\<close>

theorem poll_wait_exact:
  assumes "pp_good p" and "length revents = length (pp_interests p)"
    and "n = length (filter (\<lambda>r. r \<noteq> 0) revents)" and "set interrupted \<subseteq> {Fail EINTR}"
  shows "\<exists>es. PollPoller_Wait p (interrupted @ Ret (n, revents) # rest) = Some (Inr es) \<and> length es = n \<and>
    distinct (map ready_fd es) \<and>
    (\<forall>fd ev. \<lparr>ready_fd = fd, ready_events = ev\<rparr> \<in> set es \<longleftrightarrow>
      (\<exists>i < length revents. fst (pp_interests p ! i) = fd \<and> revents ! i \<noteq> 0 \<and>
        ev = PollPoller_FromNativeEvents (revents ! i)))"
proof -
  let ?pairs = "filter (\<lambda>(d, r). r \<noteq> 0) (zip (poll_fds p) revents)"
  let ?event = "\<lambda>((fd, events), revents). \<lparr>ready_fd = fd, ready_events = PollPoller_FromNativeEvents revents\<rparr>"
  have len: "length (poll_fds p) = length revents" using assms(2) by (simp add: poll_fds_def)
  have retry: "retry_eintr (interrupted @ Ret (n, revents) # rest) = Some (Ret (n, revents))"
    using assms(4) by (induction interrupted) auto
  have "length (filter (\<lambda>(d, r). r \<noteq> 0) (zip xs ys)) = length (filter (\<lambda>r. r \<noteq> 0) ys)"
    if "length xs = length ys" for xs :: "(int \<times> 16 word) list" and ys :: "16 word list"
    using that by (induction xs ys rule: list_induct2) auto
  from this [OF len] have n: "length ?pairs = n" using assms(3) by simp
  have "map fst (map fst (zip (poll_fds p) revents)) = map fst (pp_interests p)"
    using len by (simp add: poll_fds_def case_prod_unfold comp_def)
  then have "distinct (map (fst \<circ> fst) (zip (poll_fds p) revents))"
    using assms(1) by (simp add: pp_good_def um_ok_def)
  then have "distinct (map (fst \<circ> fst) ?pairs)" by (rule distinct_map_filter)
  moreover have "map ready_fd (map ?event ?pairs) = map (fst \<circ> fst) ?pairs" by (auto simp: case_prod_unfold)
  ultimately have dist: "distinct (map ready_fd (map ?event ?pairs))" by (simp only:)
  have mem: "\<lparr>ready_fd = fd, ready_events = ev\<rparr> \<in> set (map ?event ?pairs) \<longleftrightarrow>
      (\<exists>i < length revents. fst (pp_interests p ! i) = fd \<and> revents ! i \<noteq> 0 \<and>
        ev = PollPoller_FromNativeEvents (revents ! i))" for fd ev
  proof -
    have "set ?pairs = (\<lambda>i. (poll_fds p ! i, revents ! i)) ` {i. i < length revents \<and> revents ! i \<noteq> 0}"
      using len by (auto simp: set_zip)
    moreover have "?event (poll_fds p ! i, revents ! i) =
        \<lparr>ready_fd = fst (pp_interests p ! i), ready_events = PollPoller_FromNativeEvents (revents ! i)\<rparr>"
      if "i < length revents" for i
      using that assms(2) by (simp add: poll_fds_def case_prod_unfold)
    ultimately show ?thesis by (auto simp: image_iff)
  qed
  have "PollPoller_Wait p (interrupted @ Ret (n, revents) # rest) = Some (Inr (map ?event ?pairs))"
    using n by (auto simp: PollPoller_Wait_def Let_def retry case_prod_unfold)
  then show ?thesis using n dist mem by (intro exI [of _ "map ?event ?pairs"]) simp
qed

theorem poll_wait_exact_witness:
  "\<exists>es. PollPoller_Wait \<lparr>pp_interests = [(5, 1), (6, 3)]\<rparr> ([Fail EINTR] @ Ret (1, [0, 5]) # []) = Some (Inr es) \<and>
    length es = 1 \<and> distinct (map ready_fd es)"
proof -
  have "pp_good \<lparr>pp_interests = [(5, 1), (6, 3)]\<rparr>"
    by (auto simp: pp_good_def um_ok_def um_find_def valid_interest_def HasIoEvent_bit bit_numeral_rec
        split: if_splits)
  from poll_wait_exact [OF this, of "[0, 5]" 1 "[Fail EINTR]" "[]"] show ?thesis by auto
qed

end
