(* ===== verification/Server_Metrics.thy ===== *)
theory Server_Metrics
  imports Prelude
begin

text \<open>
  The server's counters (\<^verbatim>\<open>src/observability/server_metrics.cpp\<close>).  Every counter is a 64 bit atomic
  and every update is a \<open>fetch_add\<close>, a \<open>fetch_sub\<close> or the compare-exchange loop \<open>UpdateMaximum\<close>.  The
  first part models the operations one after the other; the second part models \<open>UpdateMaximum\<close>
  instruction by instruction, with any number of threads interleaved and compare-exchange failing
  spuriously, and shows that the loop is a correct atomic maximum.
\<close>

section \<open>Operations\<close>

record ServerMetrics =
  m_acceptedConnections :: u64
  m_closedConnections :: u64
  m_activeConnections :: u64
  m_bytesReceived :: u64
  m_bytesSent :: u64
  m_framesReceived :: u64
  m_commandsProcessed :: u64
  m_commandErrors :: u64
  m_protocolErrors :: u64
  m_slowClientDisconnects :: u64
  m_readPauseTransitions :: u64
  m_readResumeTransitions :: u64
  m_sweeperRuns :: u64
  m_expiredKeysRemoved :: u64
  m_forcedShutdownConnections :: u64
  m_maximumPendingWriteBytes :: u64
  m_commandLatencyCount :: u64
  m_commandLatencyTotalNanoseconds :: u64
  m_commandLatencyMaximumNanoseconds :: u64
  m_commandLatencyBuckets :: "u64 list"

definition ServerMetrics_init :: ServerMetrics where
  "ServerMetrics_init =
     \<lparr>m_acceptedConnections = 0, m_closedConnections = 0, m_activeConnections = 0,
      m_bytesReceived = 0, m_bytesSent = 0, m_framesReceived = 0, m_commandsProcessed = 0,
      m_commandErrors = 0, m_protocolErrors = 0, m_slowClientDisconnects = 0,
      m_readPauseTransitions = 0, m_readResumeTransitions = 0, m_sweeperRuns = 0,
      m_expiredKeysRemoved = 0, m_forcedShutdownConnections = 0, m_maximumPendingWriteBytes = 0,
      m_commandLatencyCount = 0, m_commandLatencyTotalNanoseconds = 0,
      m_commandLatencyMaximumNanoseconds = 0, m_commandLatencyBuckets = [0, 0, 0, 0, 0, 0, 0]\<rparr>"

definition OnConnectionAccepted :: "ServerMetrics \<Rightarrow> ServerMetrics" where
  "OnConnectionAccepted m =
     (let m = m\<lparr>m_acceptedConnections := m_acceptedConnections m + 1\<rparr>
      in m\<lparr>m_activeConnections := m_activeConnections m + 1\<rparr>)"

definition OnConnectionClosed :: "ServerMetrics \<Rightarrow> ServerMetrics" where
  "OnConnectionClosed m =
     (let m = m\<lparr>m_closedConnections := m_closedConnections m + 1\<rparr>
      in m\<lparr>m_activeConnections := m_activeConnections m - 1\<rparr>)"

definition AddBytesReceived :: "nat \<Rightarrow> ServerMetrics \<Rightarrow> ServerMetrics" where
  "AddBytesReceived bytes m = m\<lparr>m_bytesReceived := m_bytesReceived m + of_nat bytes\<rparr>"

definition AddBytesSent :: "nat \<Rightarrow> ServerMetrics \<Rightarrow> ServerMetrics" where
  "AddBytesSent bytes m = m\<lparr>m_bytesSent := m_bytesSent m + of_nat bytes\<rparr>"

definition AddFramesReceived :: "nat \<Rightarrow> ServerMetrics \<Rightarrow> ServerMetrics" where
  "AddFramesReceived frames m = m\<lparr>m_framesReceived := m_framesReceived m + of_nat frames\<rparr>"

definition OnCommandProcessed :: "ServerMetrics \<Rightarrow> ServerMetrics" where
  "OnCommandProcessed m = m\<lparr>m_commandsProcessed := m_commandsProcessed m + 1\<rparr>"

definition OnCommandError :: "ServerMetrics \<Rightarrow> ServerMetrics" where
  "OnCommandError m = m\<lparr>m_commandErrors := m_commandErrors m + 1\<rparr>"

definition OnProtocolError :: "ServerMetrics \<Rightarrow> ServerMetrics" where
  "OnProtocolError m = m\<lparr>m_protocolErrors := m_protocolErrors m + 1\<rparr>"

definition OnSlowClientDisconnected :: "ServerMetrics \<Rightarrow> ServerMetrics" where
  "OnSlowClientDisconnected m = m\<lparr>m_slowClientDisconnects := m_slowClientDisconnects m + 1\<rparr>"

definition OnReadPaused :: "ServerMetrics \<Rightarrow> ServerMetrics" where
  "OnReadPaused m = m\<lparr>m_readPauseTransitions := m_readPauseTransitions m + 1\<rparr>"

definition OnReadResumed :: "ServerMetrics \<Rightarrow> ServerMetrics" where
  "OnReadResumed m = m\<lparr>m_readResumeTransitions := m_readResumeTransitions m + 1\<rparr>"

definition OnSweeperRun :: "nat \<Rightarrow> ServerMetrics \<Rightarrow> ServerMetrics" where
  "OnSweeperRun removedKeys m =
     (let m = m\<lparr>m_sweeperRuns := m_sweeperRuns m + 1\<rparr>
      in m\<lparr>m_expiredKeysRemoved := m_expiredKeysRemoved m + of_nat removedKeys\<rparr>)"

definition AddForcedShutdownConnections :: "nat \<Rightarrow> ServerMetrics \<Rightarrow> ServerMetrics" where
  "AddForcedShutdownConnections connections m =
     m\<lparr>m_forcedShutdownConnections := m_forcedShutdownConnections m + of_nat connections\<rparr>"

text \<open>\<open>UpdateMaximum\<close> without interference: the compare-exchange of the first round succeeds (the
  loop with interference and spurious failures is the machine below).\<close>

definition UpdateMaximum :: "u64 \<Rightarrow> u64 \<Rightarrow> u64" where
  "UpdateMaximum target candidate = (if candidate > target then candidate else target)"

definition ObservePendingWriteBytes :: "nat \<Rightarrow> ServerMetrics \<Rightarrow> ServerMetrics" where
  "ObservePendingWriteBytes bytes m =
     m\<lparr>m_maximumPendingWriteBytes := UpdateMaximum (m_maximumPendingWriteBytes m) (of_nat bytes)\<rparr>"

definition LATENCY_UPPER_BOUNDS_NS :: "u64 list" where
  "LATENCY_UPPER_BOUNDS_NS = [10000, 50000, 100000, 500000, 1000000, 5000000]"

text \<open>The search loop for the bucket, counting up \<open>bucketIndex\<close> over the bounds.\<close>

fun bucket_index :: "u64 list \<Rightarrow> u64 \<Rightarrow> nat" where
  "bucket_index [] latencyNs = 0"
| "bucket_index (b # bs) latencyNs = (if latencyNs > b then Suc (bucket_index bs latencyNs) else 0)"

text \<open>\<open>nanoseconds::count()\<close> is a signed 64 bit integer; a negative one is recorded as 0.\<close>

definition latency_ns :: "int \<Rightarrow> u64" where
  "latency_ns rawCount = (if rawCount > 0 then of_int rawCount else 0)"

definition RecordCommandLatency :: "int \<Rightarrow> ServerMetrics \<Rightarrow> ServerMetrics" where
  "RecordCommandLatency latency m =
     (let latencyNs = latency_ns latency;
          m = m\<lparr>m_commandLatencyCount := m_commandLatencyCount m + 1\<rparr>;
          m = m\<lparr>m_commandLatencyTotalNanoseconds := m_commandLatencyTotalNanoseconds m + latencyNs\<rparr>;
          m = m\<lparr>m_commandLatencyMaximumNanoseconds :=
                 UpdateMaximum (m_commandLatencyMaximumNanoseconds m) latencyNs\<rparr>;
          bucketIndex = bucket_index LATENCY_UPPER_BOUNDS_NS latencyNs
      in m\<lparr>m_commandLatencyBuckets := (m_commandLatencyBuckets m)
             [bucketIndex := m_commandLatencyBuckets m ! bucketIndex + 1]\<rparr>)"

record ServerMetricsSnapshot =
  acceptedConnections :: u64
  closedConnections :: u64
  activeConnections :: u64
  bytesReceived :: u64
  bytesSent :: u64
  framesReceived :: u64
  commandsProcessed :: u64
  commandErrors :: u64
  protocolErrors :: u64
  slowClientDisconnects :: u64
  readPauseTransitions :: u64
  readResumeTransitions :: u64
  sweeperRuns :: u64
  expiredKeysRemoved :: u64
  forcedShutdownConnections :: u64
  maximumPendingWriteBytes :: u64
  commandLatencyCount :: u64
  commandLatencyTotalNanoseconds :: u64
  commandLatencyMaximumNanoseconds :: u64
  commandLatencyBuckets :: "u64 list"

definition Snapshot :: "ServerMetrics \<Rightarrow> ServerMetricsSnapshot" where
  "Snapshot m =
     \<lparr>acceptedConnections = m_acceptedConnections m,
      closedConnections = m_closedConnections m,
      activeConnections = m_activeConnections m,
      bytesReceived = m_bytesReceived m,
      bytesSent = m_bytesSent m,
      framesReceived = m_framesReceived m,
      commandsProcessed = m_commandsProcessed m,
      commandErrors = m_commandErrors m,
      protocolErrors = m_protocolErrors m,
      slowClientDisconnects = m_slowClientDisconnects m,
      readPauseTransitions = m_readPauseTransitions m,
      readResumeTransitions = m_readResumeTransitions m,
      sweeperRuns = m_sweeperRuns m,
      expiredKeysRemoved = m_expiredKeysRemoved m,
      forcedShutdownConnections = m_forcedShutdownConnections m,
      maximumPendingWriteBytes = m_maximumPendingWriteBytes m,
      commandLatencyCount = m_commandLatencyCount m,
      commandLatencyTotalNanoseconds = m_commandLatencyTotalNanoseconds m,
      commandLatencyMaximumNanoseconds = m_commandLatencyMaximumNanoseconds m,
      commandLatencyBuckets = map (\<lambda>i. m_commandLatencyBuckets m ! i) [0..<7]\<rparr>"

section \<open>The counters count\<close>

datatype metric_event =
    Accepted | Closed | BytesReceived nat | BytesSent nat | FramesReceived nat
  | CommandProcessed | CommandError | ProtocolError | SlowClient | ReadPaused | ReadResumed
  | SweeperRun nat | ForcedShutdown nat | PendingWrite nat | Latency int

fun metric_step :: "metric_event \<Rightarrow> ServerMetrics \<Rightarrow> ServerMetrics" where
  "metric_step Accepted = OnConnectionAccepted"
| "metric_step Closed = OnConnectionClosed"
| "metric_step (BytesReceived n) = AddBytesReceived n"
| "metric_step (BytesSent n) = AddBytesSent n"
| "metric_step (FramesReceived n) = AddFramesReceived n"
| "metric_step CommandProcessed = OnCommandProcessed"
| "metric_step CommandError = OnCommandError"
| "metric_step ProtocolError = OnProtocolError"
| "metric_step SlowClient = OnSlowClientDisconnected"
| "metric_step ReadPaused = OnReadPaused"
| "metric_step ReadResumed = OnReadResumed"
| "metric_step (SweeperRun n) = OnSweeperRun n"
| "metric_step (ForcedShutdown n) = AddForcedShutdownConnections n"
| "metric_step (PendingWrite n) = ObservePendingWriteBytes n"
| "metric_step (Latency d) = RecordCommandLatency d"

lemmas metric_defs = OnConnectionAccepted_def OnConnectionClosed_def AddBytesReceived_def AddBytesSent_def
  AddFramesReceived_def OnCommandProcessed_def OnCommandError_def OnProtocolError_def
  OnSlowClientDisconnected_def OnReadPaused_def OnReadResumed_def OnSweeperRun_def
  AddForcedShutdownConnections_def ObservePendingWriteBytes_def RecordCommandLatency_def Let_def

definition metrics_after :: "metric_event list \<Rightarrow> ServerMetrics" where
  "metrics_after es = fold metric_step es ServerMetrics_init"

lemma metrics_after_Nil: "metrics_after [] = ServerMetrics_init"
  by (simp add: metrics_after_def)

lemma metrics_after_snoc: "metrics_after (es @ [e]) = metric_step e (metrics_after es)"
  by (simp add: metrics_after_def)

text \<open>What the events say: the latencies recorded, and the byte, frame and key totals.\<close>

fun latency_of :: "metric_event \<Rightarrow> int list" where
  "latency_of (Latency d) = [d]"
| "latency_of e = []"

definition latencies :: "metric_event list \<Rightarrow> int list" where
  "latencies es = concat (map latency_of es)"

definition total :: "(metric_event \<Rightarrow> nat) \<Rightarrow> metric_event list \<Rightarrow> u64" where
  "total f es = of_nat (\<Sum>e\<leftarrow>es. f e)"

lemma total_snoc [simp]: "total f (es @ [e]) = total f es + of_nat (f e)" and total_Nil [simp]: "total f [] = 0"
  by (simp_all add: total_def)

lemma latencies_snoc [simp]: "latencies (es @ [e]) = latencies es @ latency_of e"
  and latencies_Nil [simp]: "latencies [] = []"
  by (simp_all add: latencies_def)

text \<open>The bucket of a latency in nanoseconds, from the comment on the buckets.\<close>

definition in_bucket :: "nat \<Rightarrow> int \<Rightarrow> bool" where
  "in_bucket i d \<longleftrightarrow>
     (i = 0 \<longrightarrow> d \<le> 10000) \<and> (i = 1 \<longrightarrow> 10000 < d \<and> d \<le> 50000) \<and> (i = 2 \<longrightarrow> 50000 < d \<and> d \<le> 100000) \<and>
     (i = 3 \<longrightarrow> 100000 < d \<and> d \<le> 500000) \<and> (i = 4 \<longrightarrow> 500000 < d \<and> d \<le> 1000000) \<and>
     (i = 5 \<longrightarrow> 1000000 < d \<and> d \<le> 5000000) \<and> (i = 6 \<longrightarrow> 5000000 < d)"

lemma uint_latency_ns: "d < 2 ^ 63 \<Longrightarrow> uint (latency_ns d) = max d 0"
  by (simp add: latency_ns_def uint_word_of_int_eq take_bit_int_eq_self)

lemma bucket_index_le: "bucket_index bs x \<le> length bs"
  by (induction bs) auto

lemma bucket_index_lt: "bucket_index LATENCY_UPPER_BOUNDS_NS x < 7"
  using bucket_index_le [of LATENCY_UPPER_BOUNDS_NS x] by (simp add: LATENCY_UPPER_BOUNDS_NS_def)

lemma bucket_index_iff:
  "d < 2 ^ 63 \<Longrightarrow> i < 7 \<Longrightarrow> bucket_index LATENCY_UPPER_BOUNDS_NS (latency_ns d) = i \<longleftrightarrow> in_bucket i d"
proof -
  assume d: "d < 2 ^ 63" and i: "i < 7"
  have less: "10000 < latency_ns d \<longleftrightarrow> 10000 < d" "50000 < latency_ns d \<longleftrightarrow> 50000 < d"
    "100000 < latency_ns d \<longleftrightarrow> 100000 < d" "500000 < latency_ns d \<longleftrightarrow> 500000 < d"
    "1000000 < latency_ns d \<longleftrightarrow> 1000000 < d" "5000000 < latency_ns d \<longleftrightarrow> 5000000 < d"
    using d by (simp_all add: word_less_alt uint_latency_ns less_max_iff_disj)
  from i consider "i = 0" | "i = 1" | "i = 2" | "i = 3" | "i = 4" | "i = 5" | "i = 6" by linarith
  then show ?thesis by cases (auto simp: in_bucket_def LATENCY_UPPER_BOUNDS_NS_def less)
qed

lemma buckets_length: "length (m_commandLatencyBuckets (metrics_after es)) = 7"
proof (induction es rule: rev_induct)
  case (snoc e es)
  then show ?case by (cases e) (simp_all add: metrics_after_snoc metric_defs)
qed (simp add: metrics_after_Nil ServerMetrics_init_def)

lemma connections_exact:
  "m_acceptedConnections (metrics_after es) = total (\<lambda>e. of_bool (e = Accepted)) es \<and>
   m_closedConnections (metrics_after es) = total (\<lambda>e. of_bool (e = Closed)) es \<and>
   m_activeConnections (metrics_after es) =
     total (\<lambda>e. of_bool (e = Accepted)) es - total (\<lambda>e. of_bool (e = Closed)) es"
proof (induction es rule: rev_induct)
  case (snoc e es)
  then show ?case by (cases e) (simp_all add: metrics_after_snoc metric_defs)
qed (simp add: metrics_after_Nil ServerMetrics_init_def)

lemma latency_exact:
  "m_commandLatencyCount (metrics_after es) = of_nat (length (latencies es)) \<and>
   m_commandLatencyTotalNanoseconds (metrics_after es) = (\<Sum>d\<leftarrow>latencies es. latency_ns d) \<and>
   m_commandLatencyMaximumNanoseconds (metrics_after es) = foldl max 0 (map latency_ns (latencies es))"
proof (induction es rule: rev_induct)
  case (snoc e es)
  then show ?case by (cases e) (simp_all add: metrics_after_snoc metric_defs UpdateMaximum_def)
qed (simp add: metrics_after_Nil ServerMetrics_init_def)

lemma bucket_exact:
  "i < 7 \<Longrightarrow> m_commandLatencyBuckets (metrics_after es) ! i =
     of_nat (length (filter (\<lambda>d. bucket_index LATENCY_UPPER_BOUNDS_NS (latency_ns d) = i) (latencies es)))"
proof (induction es rule: rev_induct)
  case Nil
  then show ?case by (auto simp: metrics_after_Nil ServerMetrics_init_def nth_Cons' less_Suc_eq numeral_eq_Suc)
next
  case (snoc e es)
  then show ?case
    by (cases e) (simp_all add: metrics_after_snoc metric_defs nth_list_update buckets_length bucket_index_lt)
qed

lemma in_bucket_unique: "d < 2 ^ 63 \<Longrightarrow> \<exists>!i. i < 7 \<and> in_bucket i d"
  using bucket_index_iff [of d] bucket_index_lt [of "latency_ns d"] by metis

lemma buckets_sum:
  "sum_list (m_commandLatencyBuckets (metrics_after es)) = m_commandLatencyCount (metrics_after es)"
proof (induction es rule: rev_induct)
  case (snoc e es)
  have upd: "sum_list (xs[i := xs ! i + 1]) = sum_list xs + (1 :: u64)" if "i < length xs" for xs i
    using that by (induction xs arbitrary: i) (auto split: nat.split simp: algebra_simps)
  show ?case using snoc
    by (cases e) (simp_all add: metrics_after_snoc metric_defs upd buckets_length bucket_index_lt)
qed (simp add: metrics_after_Nil ServerMetrics_init_def)



section \<open>The compare-exchange loop under interference\<close>

text \<open>A thread in \<open>UpdateMaximum\<close> is before its load, in its loop with the local \<open>current\<close>, or has
  returned.  One step of thread \<open>i\<close> is its load, one evaluation of the loop condition that ends the
  loop, a successful compare-exchange, or one that fails: because the target is not \<open>current\<close>, or, in
  its weak form, for no reason.  A failure writes the target's value to \<open>current\<close>.\<close>

datatype um_pc = Start | Loop u64 | Done

type_synonym um_thread = "u64 \<times> um_pc"

inductive um_step :: "u64 \<times> um_thread list \<Rightarrow> bool \<Rightarrow> u64 \<times> um_thread list \<Rightarrow> bool" where
  um_load: "i < length ts \<Longrightarrow> ts ! i = (cand, Start) \<Longrightarrow>
    um_step (target, ts) False (target, ts[i := (cand, Loop target)])"
| um_exit: "i < length ts \<Longrightarrow> ts ! i = (cand, Loop current) \<Longrightarrow> \<not> cand > current \<Longrightarrow>
    um_step (target, ts) False (target, ts[i := (cand, Done)])"
| um_swap: "i < length ts \<Longrightarrow> ts ! i = (cand, Loop current) \<Longrightarrow> cand > current \<Longrightarrow> target = current \<Longrightarrow>
    um_step (target, ts) False (cand, ts[i := (cand, Done)])"
| um_fail: "i < length ts \<Longrightarrow> ts ! i = (cand, Loop current) \<Longrightarrow> cand > current \<Longrightarrow> target \<noteq> current \<Longrightarrow>
    um_step (target, ts) False (target, ts[i := (cand, Loop target)])"
| um_spurious: "i < length ts \<Longrightarrow> ts ! i = (cand, Loop current) \<Longrightarrow> cand > current \<Longrightarrow> target = current \<Longrightarrow>
    um_step (target, ts) True (target, ts[i := (cand, Loop target)])"

inductive_cases um_stepE: "um_step s sp s'"

inductive um_run :: "u64 \<times> um_thread list \<Rightarrow> bool list \<Rightarrow> u64 \<times> um_thread list \<Rightarrow> bool" where
  um_run_Nil: "um_run s [] s"
| um_run_Cons: "um_step s sp s' \<Longrightarrow> um_run s' sps s'' \<Longrightarrow> um_run s (sp # sps) s''"

definition um_start :: "u64 \<Rightarrow> u64 list \<Rightarrow> u64 \<times> um_thread list" where
  "um_start v cs = (v, map (\<lambda>c. (c, Start)) cs)"

fun um_thread_ok :: "u64 \<Rightarrow> um_thread \<Rightarrow> bool" where
  "um_thread_ok target (cand, Start) \<longleftrightarrow> True"
| "um_thread_ok target (cand, Loop current) \<longleftrightarrow> current \<le> target"
| "um_thread_ok target (cand, Done) \<longleftrightarrow> cand \<le> target"

fun um_inv :: "u64 \<Rightarrow> u64 list \<Rightarrow> u64 \<times> um_thread list \<Rightarrow> bool" where
  "um_inv v cs (target, ts) \<longleftrightarrow>
     map fst ts = cs \<and> v \<le> target \<and> target \<in> insert v (set cs) \<and> (\<forall>th \<in> set ts. um_thread_ok target th)"

lemma um_thread_ok_mono: "um_thread_ok target th \<Longrightarrow> target \<le> target' \<Longrightarrow> um_thread_ok target' th"
  by (induction target th rule: um_thread_ok.induct) auto

lemma um_inv_start: "um_inv v cs (um_start v cs)"
  by (auto simp: um_start_def comp_def)

text \<open>What a step does to one thread, and that it only raises the target.\<close>

lemma um_inv_update:
  assumes inv: "um_inv v cs (target, ts)" and i: "i < length ts" "ts ! i = (c, pc0)"
    and t': "target \<le> target'" "target' \<in> insert v (set cs)" and pc: "um_thread_ok target' (c, pc)"
  shows "um_inv v cs (target', ts[i := (c, pc)])"
proof -
  have "(map fst ts)[i := c] = map fst ts" using i by (simp add: list_update_same_conv)
  then have "map fst (ts[i := (c, pc)]) = cs" using inv by (simp add: map_update)
  moreover have "um_thread_ok target' th" if "th \<in> set (ts[i := (c, pc)])" for th
    using that set_update_subset_insert [of ts i "(c, pc)"] pc inv um_thread_ok_mono [OF _ t'(1), of th] by auto
  ultimately show ?thesis using inv t' by auto
qed

lemma um_inv_thread:
  "um_inv v cs (target, ts) \<Longrightarrow> i < length ts \<Longrightarrow> ts ! i = (c, pc) \<Longrightarrow> c \<in> set cs \<and> um_thread_ok target (c, pc)"
  using nth_mem [of i ts] by (force simp: image_iff)

lemma um_step_inv: "um_step s sp s' \<Longrightarrow> um_inv v cs s \<Longrightarrow> um_inv v cs s'"
proof (induction rule: um_step.induct)
  case (um_load i ts cand target)
  then show ?case by (intro um_inv_update [OF um_load.prems um_load.hyps]) auto
next
  case (um_exit i ts cand current target)
  then show ?case using um_inv_thread [OF um_exit.prems um_exit.hyps(1,2)]
    by (intro um_inv_update [OF um_exit.prems um_exit.hyps(1,2)]) auto
next
  case (um_swap i ts cand current target)
  then show ?case using um_inv_thread [OF um_swap.prems um_swap.hyps(1,2)]
    by (intro um_inv_update [OF um_swap.prems um_swap.hyps(1,2)]) auto
next
  case (um_fail i ts cand current target)
  then show ?case by (intro um_inv_update [OF um_fail.prems um_fail.hyps(1,2)]) auto
next
  case (um_spurious i ts cand current target)
  then show ?case by (intro um_inv_update [OF um_spurious.prems um_spurious.hyps(1,2)]) auto
qed

lemma um_run_inv: "um_run s sps s' \<Longrightarrow> um_inv v cs s \<Longrightarrow> um_inv v cs s'"
  by (induction rule: um_run.induct) (auto dest: um_step_inv)

text \<open>Lock freedom: without spurious failures every step lowers a measure, since a thread whose
  compare-exchange fails has seen the target rise among finitely many values.\<close>

fun um_weight :: "u64 set \<Rightarrow> um_thread \<Rightarrow> nat" where
  "um_weight V (cand, Start) = card V + 1"
| "um_weight V (cand, Loop current) = card {x \<in> V. current < x} + 1"
| "um_weight V (cand, Done) = 0"

fun um_measure :: "u64 set \<Rightarrow> u64 \<times> um_thread list \<Rightarrow> nat" where
  "um_measure V (target, ts) = (\<Sum>th\<leftarrow>ts. um_weight V th)"

lemma sum_list_update_less:
  "i < length xs \<Longrightarrow> f y < f (xs ! i) \<Longrightarrow> (\<Sum>x\<leftarrow>xs[i := y]. f x) < (\<Sum>x\<leftarrow>xs. (f x :: nat))"
  by (induction xs arbitrary: i) (auto split: nat.splits)

lemma um_weight_loop:
  "finite V \<Longrightarrow> target \<in> V \<Longrightarrow> current < target \<Longrightarrow> um_weight V (c, Loop target) < um_weight V (c, Loop current)"
  by (auto intro!: psubset_card_mono)

lemma um_step_measure:
  assumes "um_step s sp s'" "um_inv v cs s"
  shows "if sp then um_measure (insert v (set cs)) s' = um_measure (insert v (set cs)) s
    else um_measure (insert v (set cs)) s' < um_measure (insert v (set cs)) s"
  using assms
proof (induction rule: um_step.induct)
  case (um_load i ts cand target)
  have "card {x \<in> insert v (set cs). target < x} < card (insert v (set cs))"
    using um_load.prems by (intro psubset_card_mono) auto
  then show ?case using um_load by (simp add: sum_list_update_less)
next
  case (um_fail i ts cand current target)
  then have "um_weight (insert v (set cs)) (cand, Loop target) < um_weight (insert v (set cs)) (cand, Loop current)"
    using um_inv_thread [OF um_fail.prems um_fail.hyps(1,2)] by (intro um_weight_loop) auto
  then show ?case using um_fail by (simp add: sum_list_update_less)
next
  case (um_spurious i ts cand current target)
  then have "ts[i := (cand, Loop target)] = ts" by (simp add: list_update_same_conv)
  then show ?case by simp
qed (simp_all add: sum_list_update_less)

lemma um_run_bound:
  "um_run s sps s' \<Longrightarrow> um_inv v cs s \<Longrightarrow>
   length (filter Not sps) + um_measure (insert v (set cs)) s' \<le> um_measure (insert v (set cs)) s"
proof (induction rule: um_run.induct)
  case (um_run_Cons s sp s' sps s'')
  then show ?case using um_step_measure [OF um_run_Cons.hyps(1) um_run_Cons.prems] um_step_inv
    by (fastforce split: if_splits)
qed simp

lemma um_measure_start: "um_measure (insert v (set cs)) (um_start v cs) \<le> length cs * (length cs + 2)"
proof -
  have "card (insert v (set cs)) + 1 \<le> length cs + 2" using card_insert_le_m1 card_length [of cs]
    by (metis Suc_eq_plus1 add_2_eq_Suc' card_insert_if finite_set le_SucI not_less_eq_eq)
  moreover have "um_measure V (um_start v cs) = length cs * (card V + 1)" for V
    by (simp add: um_start_def comp_def sum_list_triv)
  ultimately show ?thesis by (metis mult_le_mono2)
qed

text \<open>A state in which no step is possible is one in which all threads have returned.\<close>

lemma um_stuck: "\<forall>sp s'. \<not> um_step (target, ts) sp s' \<Longrightarrow> (c, pc) \<in> set ts \<Longrightarrow> pc = Done"
proof (rule ccontr)
  assume stuck: "\<forall>sp s'. \<not> um_step (target, ts) sp s'" and mem: "(c, pc) \<in> set ts" and pc: "pc \<noteq> Done"
  from mem obtain i where i: "i < length ts" "ts ! i = (c, pc)" by (auto simp: in_set_conv_nth)
  show False
  proof (cases pc)
    case (Loop x)
    then show False using i stuck um_exit um_swap um_fail by (metis not_less)
  qed (use i stuck um_load pc in blast)+
qed

text \<open>Claim C14: concurrent \<open>UpdateMaximum\<close> calls on one atomic compute the maximum: in every
  interleaving, when all threads have returned the target is the largest of its initial value and all
  candidates; no interleaving takes more than \<open>n (n + 2)\<close> steps besides spurious failures of the weak
  compare-exchange; and a state in which no thread can step is one in which all have returned.\<close>

theorem update_maximum_concurrent:
  assumes "um_run (um_start v cs) sps (target, ts)"
  shows "length (filter Not sps) \<le> length cs * (length cs + 2) \<and>
    ((\<forall>th \<in> set ts. snd th = Done) \<longrightarrow> target = Max (insert v (set cs))) \<and>
    ((\<forall>sp s'. \<not> um_step (target, ts) sp s') \<longrightarrow> (\<forall>th \<in> set ts. snd th = Done))"
proof -
  have inv: "um_inv v cs (target, ts)" by (rule um_run_inv [OF assms um_inv_start])
  have "target = Max (insert v (set cs))" if fin: "\<forall>th \<in> set ts. snd th = Done"
  proof (rule Max_eqI [symmetric])
    fix y assume "y \<in> insert v (set cs)"
    moreover have "c \<le> target" if "c \<in> set cs" for c
    proof -
      have "c \<in> fst ` set ts" using inv that by auto
      then have "(c, Done) \<in> set ts" using fin by force
      then show ?thesis using inv by auto
    qed
    ultimately show "y \<le> target" using inv by auto
  qed (use inv in auto)
  moreover have "length (filter Not sps) \<le> length cs * (length cs + 2)"
    using um_run_bound [OF assms um_inv_start] um_measure_start [of v cs] by linarith
  ultimately show ?thesis using um_stuck by fastforce
qed

theorem update_maximum_concurrent_witness:
  "(9 :: u64) = Max (insert 4 (set [9, 7]))"
proof -
  have "um_run (um_start 4 [9, 7]) [False, False, False, False, False] (9, [(9, Done), (7, Done)])"
    unfolding um_start_def
    by (rule um_run_Cons [OF um_load [of 0]], simp, simp, simp,
        rule um_run_Cons [OF um_load [of 1]], simp, simp, simp,
        rule um_run_Cons [OF um_swap [of 0]], simp, simp, simp, simp, simp,
        rule um_run_Cons [OF um_fail [of 1]], simp, simp, simp, simp, simp,
        rule um_run_Cons [OF um_exit [of 1]], simp, simp, simp, simp, rule um_run_Nil)
  then show ?thesis using update_maximum_concurrent by fastforce
qed

text \<open>A thread alone ends with the sequential result.\<close>

lemma update_maximum_alone:
  "um_run (um_start v [c]) sps (target, [(c, Done)]) \<Longrightarrow> target = UpdateMaximum v c"
  using um_run_inv [OF _ um_inv_start, of v "[c]" sps "(target, [(c, Done)])"]
  by (auto simp: UpdateMaximum_def)

end
