(* ===== verification/Stats_Report.thy ===== *)
theory Stats_Report
  imports Complex_Main Kv_Store Server_Metrics
begin

text \<open>
  The STATS report of the server (\<open>BuildStatsResponse\<close> and \<open>EstimatePercentileBucketUs\<close> of
  \<^verbatim>\<open>src/net/sub_reactor.cpp\<close>, \<open>AverageCommandLatencyMicroseconds\<close> of \<^verbatim>\<open>server_metrics.cpp\<close>).  The
  report computes with \<open>double\<close>: a value of that type is a rational number here, and every operation
  rounds its exact result to the nearest number with a 53 bit significand, ties to even.  The values of
  the report are zero or lie between \<open>2\<^sup>-\<^sup>8\<^sup>0\<close> and \<open>2\<^sup>6\<^sup>4\<close>, so the exponent range plays no role.
\<close>

section \<open>Binary floating point\<close>

fun bit_length :: "nat \<Rightarrow> nat" where
  "bit_length n = (if n = 0 then 0 else Suc (bit_length (n div 2)))"

declare bit_length.simps [simp del]

definition pow2 :: "int \<Rightarrow> rat" where
  "pow2 e = 2 powi e"

text \<open>The exponent of the leading bit of a positive rational.\<close>

definition exponent :: "rat \<Rightarrow> int" where
  "exponent x =
     (let (n, d) = quotient_of x; e = int (bit_length (nat n)) - int (bit_length (nat d))
      in if x < pow2 e then e - 1 else e)"

definition round_half_even :: "rat \<Rightarrow> int" where
  "round_half_even x =
     (let f = \<lfloor>x\<rfloor>; r = x - of_int f
      in if r < 1 / 2 \<or> (r = 1 / 2 \<and> even f) then f else f + 1)"

definition fl :: "rat \<Rightarrow> rat" where
  "fl x = (if x \<le> 0 then 0
     else let ulp = pow2 (exponent x - 52) in of_int (round_half_even (x / ulp)) * ulp)"

text \<open>\<open>std::fixed\<close> with \<open>std::setprecision(2)\<close> on a non-negative value.\<close>

definition fixed2 :: "rat \<Rightarrow> string" where
  "fixed2 x =
     (let h = nat (round_half_even (x * 100))
      in nat_to_string (h div 100) @ ''.'' @ nat_to_string (h div 10 mod 10) @ nat_to_string (h mod 10))"

definition double_of_u64 :: "u64 \<Rightarrow> rat" where
  "double_of_u64 w = fl (of_nat (unat w))"

section \<open>The report\<close>

definition AverageCommandLatencyMicroseconds :: "ServerMetricsSnapshot \<Rightarrow> rat" where
  "AverageCommandLatencyMicroseconds s =
     (if commandLatencyCount s = 0 then 0
      else let totalMicroseconds = fl (double_of_u64 (commandLatencyTotalNanoseconds s) / 1000)
           in fl (totalMicroseconds / double_of_u64 (commandLatencyCount s)))"

definition upperBoundsUs :: "u64 list" where
  "upperBoundsUs = [10, 50, 100, 500, 1000, 5000]"

text \<open>The accumulation loop over the first six buckets.\<close>

fun percentile_loop :: "u64 \<Rightarrow> u64 \<Rightarrow> u64 list \<Rightarrow> u64 list \<Rightarrow> string" where
  "percentile_loop targetRank accumulated (b # bs) (u # us) =
     (let accumulated = accumulated + b
      in if accumulated \<ge> targetRank then nat_to_string (unat u)
         else percentile_loop targetRank accumulated bs us)"
| "percentile_loop targetRank accumulated _ _ = ''>5000''"

definition target_rank :: "u64 \<Rightarrow> rat \<Rightarrow> u64" where
  "target_rank n percentile = of_int \<lceil>fl (double_of_u64 n * percentile)\<rceil>"

definition EstimatePercentileBucketUs :: "ServerMetricsSnapshot \<Rightarrow> rat \<Rightarrow> string" where
  "EstimatePercentileBucketUs s percentile =
     (if commandLatencyCount s = 0 then ''0''
      else let targetRank = target_rank (commandLatencyCount s) percentile
           in percentile_loop targetRank 0 (commandLatencyBuckets s) upperBoundsUs)"

definition show_u64 :: "u64 \<Rightarrow> string" where
  "show_u64 w = nat_to_string (unat w)"

definition BuildStatsResponse :: "KVStore \<Rightarrow> ServerMetrics \<Rightarrow> string" where
  "BuildStatsResponse store m_metrics =
     (let storeStats = KVStore_Stats store;
          metrics = Snapshot m_metrics;
          averageLatencyUs = AverageCommandLatencyMicroseconds metrics;
          maximumLatencyUs = fl (double_of_u64 (commandLatencyMaximumNanoseconds metrics) / 1000);
          p95UpperUs = EstimatePercentileBucketUs metrics (fl (95 / 100));
          p99UpperUs = EstimatePercentileBucketUs metrics (fl (99 / 100))
      in ''+keys='' @ show_u64 (st_keys storeStats) @
         '',persistent='' @ show_u64 (st_persistentKeys storeStats) @
         '',expiring='' @ show_u64 (st_expiringKeys storeStats) @
         '',connections_active='' @ show_u64 (activeConnections metrics) @
         '',connections_accepted='' @ show_u64 (acceptedConnections metrics) @
         '',connections_closed='' @ show_u64 (closedConnections metrics) @
         '',bytes_received='' @ show_u64 (bytesReceived metrics) @
         '',bytes_sent='' @ show_u64 (bytesSent metrics) @
         '',frames_received='' @ show_u64 (framesReceived metrics) @
         '',commands='' @ show_u64 (commandsProcessed metrics) @
         '',command_errors='' @ show_u64 (commandErrors metrics) @
         '',protocol_errors='' @ show_u64 (protocolErrors metrics) @
         '',slow_clients='' @ show_u64 (slowClientDisconnects metrics) @
         '',read_pauses='' @ show_u64 (readPauseTransitions metrics) @
         '',read_resumes='' @ show_u64 (readResumeTransitions metrics) @
         '',expired_removed='' @ show_u64 (expiredKeysRemoved metrics) @
         '',max_pending_write_bytes='' @ show_u64 (maximumPendingWriteBytes metrics) @
         '',latency_avg_us='' @ fixed2 averageLatencyUs @
         '',latency_max_us='' @ fixed2 maximumLatencyUs @
         '',latency_p95_upper_us='' @ p95UpperUs @
         '',latency_p99_upper_us='' @ p99UpperUs)"

section \<open>Rounding\<close>

lemma pow2_pos [simp]: "0 < pow2 e" by (simp add: pow2_def)

lemma pow2_add: "pow2 (a + b) = pow2 a * pow2 b" by (simp add: pow2_def power_int_add)

lemma pow2_nat: "pow2 (int n) = 2 ^ n" by (simp add: pow2_def)

lemma pow2_diff: "pow2 (a - b) * pow2 b = pow2 a" using pow2_add [of "a - b" b] by simp

lemma pow2_lessD: "pow2 a < pow2 b \<Longrightarrow> a < b"
  using power_int_increasing [of b a "2 :: rat"] by (force simp: pow2_def)

lemma pow2_nonzero [simp]: "pow2 e \<noteq> 0" by (simp add: pow2_def)

lemma bit_length_bounds: "0 < n \<Longrightarrow> 2 ^ bit_length n \<le> 2 * n \<and> n < 2 ^ bit_length n"
proof (induction n rule: bit_length.induct)
  case (1 n)
  then show ?case
  proof (cases "n div 2 = 0")
    case True
    then have "n = 1" using 1(2) by auto
    then show ?thesis by (simp add: bit_length.simps)
  next
    case False
    then have "2 ^ bit_length (n div 2) \<le> 2 * (n div 2) \<and> n div 2 < 2 ^ bit_length (n div 2)" using 1 by auto
    then show ?thesis using 1(2) by (subst (1 2) bit_length.simps) auto
  qed
qed

lemma exponent_bounds:
  assumes "0 < x"
  shows "pow2 (exponent x) \<le> x" "x < pow2 (exponent x + 1)"
proof -
  obtain n d where q: "quotient_of x = (n, d)" by fastforce
  then have d: "0 < d" and x: "x = of_int n / of_int d"
    using quotient_of_denom_pos quotient_of_div by auto
  then have n: "0 < n" using assms by (simp add: zero_less_divide_iff)
  let ?bn = "int (bit_length (nat n))" and ?bd = "int (bit_length (nat d))"
  have *: "pow2 (int (bit_length (nat k))) \<le> 2 * of_int k \<and> of_int k < pow2 (int (bit_length (nat k)))" if "0 < k" for k
  proof -
    have "of_nat (2 ^ bit_length (nat k)) \<le> (of_nat (2 * nat k) :: rat)"
      "(of_nat (nat k) :: rat) < of_nat (2 ^ bit_length (nat k))"
      using bit_length_bounds [of "nat k"] that by (simp_all only: of_nat_le_iff of_nat_less_iff zero_less_nat_eq)
    then show ?thesis using that by (simp add: pow2_nat)
  qed
  have "pow2 ?bn \<le> 2 * of_int n" "of_int n < pow2 ?bn" "pow2 ?bd \<le> 2 * of_int d" "of_int d < pow2 ?bd"
    using *[OF n] *[OF d] by auto
  moreover have "pow2 (?bn - ?bd) * pow2 ?bd = pow2 ?bn" by (rule pow2_diff)
  ultimately have up: "x < 2 * pow2 (?bn - ?bd)" and lo: "pow2 (?bn - ?bd) < 2 * x"
  proof -
    assume a: "pow2 ?bn \<le> 2 * of_int n" "of_int n < pow2 ?bn" "pow2 ?bd \<le> 2 * of_int d" "of_int d < pow2 ?bd"
      "pow2 (?bn - ?bd) * pow2 ?bd = pow2 ?bn"
    have "of_int n < pow2 (?bn - ?bd) * (2 * of_int d)"
      using a(2,5) mult_left_mono [OF a(3) less_imp_le [OF pow2_pos], of "?bn - ?bd"] by linarith
    then show "x < 2 * pow2 (?bn - ?bd)" using d by (simp add: x field_simps)
    have "pow2 (?bn - ?bd) * of_int d < 2 * of_int n"
      using a(1,4,5) mult_strict_left_mono [OF a(4), of "pow2 (?bn - ?bd)"] by simp
    then show "pow2 (?bn - ?bd) < 2 * x" using d by (simp add: x field_simps)
  qed
  have e: "exponent x = (if x < pow2 (?bn - ?bd) then ?bn - ?bd - 1 else ?bn - ?bd)"
    by (simp add: exponent_def q Let_def)
  have half: "2 * pow2 (k - 1) = pow2 k" for k using pow2_add [of 1 "k - 1"] by (simp add: pow2_def)
  have dbl: "pow2 (k + 1) = 2 * pow2 k" for k using pow2_add [of k 1] by (simp add: pow2_def)
  show "pow2 (exponent x) \<le> x" using lo half [of "?bn - ?bd"] by (auto simp: e)
  show "x < pow2 (exponent x + 1)" using up dbl [of "?bn - ?bd"] by (auto simp: e)
qed

lemma round_half_even_bounds:
  "of_int (round_half_even x) \<le> x + 1 / 2" "x - 1 / 2 \<le> of_int (round_half_even x)"
  using of_int_floor_le [of x] floor_correct [of x] by (auto simp: round_half_even_def Let_def) linarith+

lemma round_half_even_le: "x \<le> of_int k \<Longrightarrow> round_half_even x \<le> k"
proof -
  assume "x \<le> of_int k"
  then have "of_int (round_half_even x) \<le> of_int k + 1 / (2 :: rat)" using round_half_even_bounds(1) [of x] by linarith
  then have "(of_int (round_half_even x) :: rat) < of_int (k + 1)" by simp
  then show ?thesis by (simp only: of_int_less_iff)
qed

lemma fl_zero [simp]: "fl 0 = 0" by (simp add: fl_def)

lemma fl_error:
  assumes "0 < x"
  shows "\<bar>fl x - x\<bar> \<le> x / 2 ^ 53"
proof -
  let ?u = "pow2 (exponent x - 52)"
  have u: "0 < ?u" by simp
  have "?u * 2 ^ 52 = pow2 (exponent x)" using pow2_diff [of "exponent x" 52] by (simp add: pow2_def)
  then have u2: "?u * 2 ^ 52 \<le> x" using exponent_bounds(1) [OF assms] by simp
  have "of_int (round_half_even (x / ?u)) * ?u \<le> (x / ?u + 1 / 2) * ?u"
    "(x / ?u - 1 / 2) * ?u \<le> of_int (round_half_even (x / ?u)) * ?u"
    using round_half_even_bounds [of "x / ?u"] u by (auto intro: mult_right_mono)
  then have "fl x \<le> x + ?u / 2" "x - ?u / 2 \<le> fl x"
    using assms u by (auto simp: fl_def Let_def algebra_simps)
  then have "\<bar>fl x - x\<bar> \<le> ?u / 2" by linarith
  also have "\<dots> \<le> x / 2 ^ 53" using u2 by simp
  finally show ?thesis .
qed

lemma fl_le_int:
  assumes "0 < x" "x \<le> of_int k" "k < 2 ^ 53"
  shows "fl x \<le> of_int k"
proof -
  let ?e = "exponent x"
  have "pow2 ?e < pow2 53"
    using exponent_bounds(1) [OF assms(1)] assms(2,3) of_int_less_iff [of k "2 ^ 53", where 'a = rat]
    by (simp add: pow2_def)
  then have e: "?e \<le> 52" by (auto dest: pow2_lessD)
  let ?u = "pow2 (?e - 52)" and ?m = "2 ^ nat (52 - ?e) :: int"
  have "?u * of_int ?m = 1" using pow2_diff [of "?e - 52" "- (52 - ?e)"] e
    by (simp add: pow2_def power_int_def field_simps)
  then have mu: "of_int (k * ?m) * ?u = of_int k" by (simp add: mult.assoc mult.commute)
  then have "x / ?u \<le> of_int (k * ?m)" using assms(2) by (simp only: pos_divide_le_eq [OF pow2_pos])
  then have "round_half_even (x / ?u) \<le> k * ?m" by (rule round_half_even_le)
  then have "of_int (round_half_even (x / ?u)) * ?u \<le> of_int (k * ?m) * ?u"
    by (intro mult_right_mono) (simp_all only: of_int_le_iff pow2_pos less_imp_le)
  then have "of_int (round_half_even (x / ?u)) * ?u \<le> of_int k" by (simp only: mu)
  then show ?thesis using assms(1) by (simp add: fl_def Let_def)
qed

lemma fl_nonneg: "0 \<le> fl x"
proof (cases "0 < x")
  case True
  have "x / 2 ^ 53 \<le> x" using True by simp
  then show ?thesis using fl_error [OF True] by linarith
qed (simp add: fl_def)

lemma fl_le_double: "0 \<le> x \<Longrightarrow> fl x \<le> 2 * x"
proof (cases "x = 0")
  case False
  assume "0 \<le> x"
  with False have x: "0 < x" by simp
  have "x / 2 ^ 53 \<le> x" using x by simp
  then show ?thesis using fl_error [OF x] by linarith
qed simp

lemma fl_int: "0 \<le> k \<Longrightarrow> k < 2 ^ 53 \<Longrightarrow> fl (of_int k) = of_int k"
proof (cases "k = 0")
  case False
  assume k: "0 \<le> k" "k < 2 ^ 53"
  then have pos: "0 < (of_int k :: rat)" using False by simp
  let ?e = "exponent (of_int k)"
  have "pow2 ?e < pow2 53" using exponent_bounds(1) [OF pos] k(2) of_int_less_iff [of k "2 ^ 53", where 'a = rat]
    by (simp add: pow2_def)
  then have e: "?e \<le> 52" by (auto dest: pow2_lessD)
  let ?u = "pow2 (?e - 52)" and ?m = "2 ^ nat (52 - ?e) :: int"
  have um: "?u * of_int ?m = 1" using e by (simp add: pow2_def power_int_def field_simps)
  then have "of_int k / ?u = of_int (k * ?m)"
    by (simp add: nonzero_divide_eq_eq mult.assoc mult.commute [of "2 ^ _"])
  moreover have "round_half_even (of_int j) = j" for j by (simp add: round_half_even_def)
  ultimately have "round_half_even (of_int k / ?u) = k * ?m" by metis
  then have "fl (of_int k) = of_int (k * ?m) * ?u" using pos by (simp add: fl_def Let_def)
  also have "\<dots> = of_int k * (?u * of_int ?m)" by simp
  also have "\<dots> = of_int k" by (simp only: um mult_1_right)
  finally show ?thesis .
qed simp

section \<open>The percentile estimates\<close>

lemma percentile_95: "fl (95 / 100) = 8556839292003942 / 9007199254740992"
  by code_simp

lemma percentile_99: "fl (99 / 100) = 8917127262193582 / 9007199254740992"
  by code_simp

lemma unat_target_rank:
  assumes n: "0 < n" "n < 2 ^ 45" and b: "0 < b" "b \<le> 100" "a \<le> b" "0 \<le> a"
    and p: "0 < p" "p \<le> of_int a / of_int b" "of_int a / of_int b \<le> p + 1 / 2 ^ 53"
  shows "unat (target_rank (of_nat n) p) = nat \<lceil>of_int a * of_nat n / (of_int b :: rat)\<rceil>"
proof -
  let ?k = "\<lceil>of_int a * of_nat n / (of_int b :: rat)\<rceil>" and ?y = "of_nat n * p"
  have nr: "(of_nat n :: rat) < 2 ^ 45" "0 < (of_nat n :: rat)"
    using n of_nat_less_iff [of n "2 ^ 45", where 'a = rat] by simp_all
  have dbl: "double_of_u64 (of_nat n) = of_nat n"
    using n fl_int [of "int n"] by (simp add: double_of_u64_def unat_of_nat)
  have exact: "of_int a * of_nat n / of_int b = of_nat n * (of_int a / of_int b :: rat)" by simp
  have y: "0 < ?y" "?y \<le> of_int a * of_nat n / of_int b"
    using p(1) nr(2) mult_left_mono [OF p(2), of "of_nat n"] unfolding exact by (simp_all only: mult_pos_pos less_imp_le)
  have "of_int a * of_nat n / of_int b \<le> (of_nat n :: rat)"
    using b nr by (simp add: divide_le_eq mult_right_mono)
  then have "?k \<le> int n" by (simp add: ceiling_le_iff)
  moreover have "int n < 2 ^ 45" using n(2) by simp
  ultimately have k: "?k < 2 ^ 45" by linarith
  have "?y \<le> of_int ?k" using y(2) le_of_int_ceiling order_trans by blast
  then have up: "fl ?y \<le> of_int ?k" using fl_le_int [OF y(1)] k by simp
  have ab: "of_int a / of_int b \<le> (1 :: rat)" using b by simp
  have "of_nat n * (of_int a / of_int b) \<le> of_nat n * (p + 1 / 2 ^ 53)"
    using p(3) nr(2) by (intro mult_left_mono) auto
  then have "of_int a * of_nat n / of_int b \<le> ?y + of_nat n / 2 ^ 53"
    unfolding exact by (simp add: distrib_left)
  moreover have "?y \<le> of_nat n" using mult_left_mono [OF order_trans [OF p(2) ab], of "of_nat n"] nr(2) by simp
  then have "?y / 2 ^ 53 \<le> of_nat n / 2 ^ 53" by (simp add: divide_right_mono)
  moreover have "?y - ?y / 2 ^ 53 \<le> fl ?y" using fl_error [OF y(1)] by linarith
  moreover have "of_nat n / 2 ^ 52 = 2 * (of_nat n / 2 ^ 53 :: rat)" by simp
  ultimately have near: "of_int a * of_nat n / of_int b - of_nat n / 2 ^ 52 \<le> fl ?y" by linarith
  have "of_nat n / 2 ^ 52 < (1 / 128 :: rat)" using nr(1) by simp
  then have low: "of_int a * of_nat n / of_int b - 1 / 128 < fl ?y" using near by linarith
  have kb: "(?k - 1) * b + 1 \<le> a * int n"
  proof -
    have "of_int (?k - 1) < of_int a * of_nat n / (of_int b :: rat)" by linarith
    then have "of_int (?k - 1) * of_int b < (of_int a * of_nat n :: rat)" using b by (simp add: less_divide_eq)
    then have "(of_int ((?k - 1) * b) :: rat) < of_int (a * int n)" by simp
    then show ?thesis by (simp only: of_int_less_iff)
  qed
  have "of_int (?k - 1) + 1 / of_int b \<le> (of_int a * of_nat n / of_int b :: rat)"
  proof -
    have "of_int ((?k - 1) * b + 1) \<le> (of_int (a * int n) :: rat)" using kb by (simp only: of_int_le_iff)
    then have "of_int ((?k - 1) * b + 1) / of_int b \<le> (of_int (a * int n) / of_int b :: rat)"
      using b by (intro divide_right_mono) simp_all
    then show ?thesis using b by (simp add: add_divide_distrib)
  qed
  moreover have "1 / 100 \<le> (1 / of_int b :: rat)" using b by (simp add: field_simps)
  ultimately have "of_int (?k - 1) < fl ?y" using low by linarith
  then have "\<lceil>fl ?y\<rceil> = ?k" using up by (intro ceiling_unique) simp_all
  moreover have "0 \<le> of_int a * of_nat n / (of_int b :: rat)" using b by simp
  then have "0 \<le> ?k" by linarith
  ultimately show ?thesis using k
    by (simp add: target_rank_def dbl unsigned_of_int take_bit_int_eq_self)
qed

text \<open>How many of the recorded latencies are at most \<open>u\<close> microseconds.\<close>

definition covered :: "int list \<Rightarrow> nat \<Rightarrow> nat" where
  "covered ds u = length (filter (\<lambda>d. d \<le> 1000 * int u) ds)"

lemma covered_step: "lo \<le> hi \<Longrightarrow>
  length (filter (\<lambda>d. d \<le> hi) ds) = length (filter (\<lambda>d. d \<le> lo) ds) + length (filter (\<lambda>d. lo < d \<and> d \<le> hi) ds)"
  for lo hi :: int
  by (induction ds) auto

lemma covered_buckets:
  "covered ds 10 = length (filter (in_bucket 0) ds)"
  "covered ds 50 = covered ds 10 + length (filter (in_bucket 1) ds)"
  "covered ds 100 = covered ds 50 + length (filter (in_bucket 2) ds)"
  "covered ds 500 = covered ds 100 + length (filter (in_bucket 3) ds)"
  "covered ds 1000 = covered ds 500 + length (filter (in_bucket 4) ds)"
  "covered ds 5000 = covered ds 1000 + length (filter (in_bucket 5) ds)"
  by (simp_all add: covered_def in_bucket_def [abs_def] covered_step [of 10000 50000] covered_step [of 50000 100000]
      covered_step [of 100000 500000] covered_step [of 500000 1000000] covered_step [of 1000000 5000000])

lemma covered_le: "covered ds u \<le> length ds"
  by (simp add: covered_def)

text \<open>The loop returns the first bound whose accumulated count reaches the rank.\<close>

fun first_bound :: "(nat \<Rightarrow> bool) \<Rightarrow> nat list \<Rightarrow> string" where
  "first_bound P [] = ''>5000''"
| "first_bound P (u # us) = (if P u then nat_to_string u else first_bound P us)"

lemma percentile_loop_first:
  assumes n: "length ds < 2 ^ 45" and rank: "unat targetRank = rank"
    and b: "bs = map (\<lambda>i. of_nat (length (filter (in_bucket i) ds))) [0..<7]"
  shows "percentile_loop targetRank 0 bs upperBoundsUs =
    first_bound (\<lambda>u. rank \<le> covered ds u) [10, 50, 100, 500, 1000, 5000]"
proof -
  have le: "targetRank \<le> of_nat (covered ds u) \<longleftrightarrow> rank \<le> covered ds u" for u
    using covered_le [of ds u] n rank by (simp add: word_le_nat_alt unat_of_nat)
  have seven: "[0..<7] = [0 :: nat, 1, 2, 3, 4, 5, 6]" by code_simp
  have bs: "bs = [of_nat (covered ds 10), of_nat (covered ds 50) - of_nat (covered ds 10),
      of_nat (covered ds 100) - of_nat (covered ds 50), of_nat (covered ds 500) - of_nat (covered ds 100),
      of_nat (covered ds 1000) - of_nat (covered ds 500), of_nat (covered ds 5000) - of_nat (covered ds 1000),
      of_nat (length (filter (in_bucket 6) ds))]"
    unfolding b seven by (simp add: covered_buckets)
  show ?thesis unfolding bs upperBoundsUs_def
    by (simp add: Let_def le)
qed

lemma estimate_first:
  assumes "\<forall>d \<in> set (latencies es). d < 2 ^ 63" and n: "0 < length (latencies es)" "length (latencies es) < 2 ^ 45"
    and rank: "unat (target_rank (of_nat (length (latencies es))) p) = rank"
  shows "EstimatePercentileBucketUs (Snapshot (metrics_after es)) p =
    first_bound (\<lambda>u. rank \<le> covered (latencies es) u) [10, 50, 100, 500, 1000, 5000]"
proof -
  let ?ds = "latencies es"
  have "filter (\<lambda>d. bucket_index LATENCY_UPPER_BOUNDS_NS (latency_ns d) = i) ?ds = filter (in_bucket i) ?ds" if "i < 7" for i
    using that assms(1) bucket_index_iff by (intro filter_cong) auto
  then have "commandLatencyBuckets (Snapshot (metrics_after es)) =
      map (\<lambda>i. of_nat (length (filter (in_bucket i) ?ds))) [0..<7]"
    by (simp add: Snapshot_def bucket_exact)
  moreover have "commandLatencyCount (Snapshot (metrics_after es)) = of_nat (length ?ds)"
    by (simp add: Snapshot_def latency_exact)
  moreover have "(of_nat (length ?ds) :: u64) \<noteq> 0"
  proof
    assume "(of_nat (length ?ds) :: u64) = 0"
    then have "unat (of_nat (length ?ds) :: u64) = 0" by simp
    then show False using n by (simp add: unat_of_nat)
  qed
  ultimately show ?thesis using percentile_loop_first [OF n(2) rank]
    by (simp add: EstimatePercentileBucketUs_def Let_def)
qed


lemma rank_95:
  "0 < n \<Longrightarrow> n < 2 ^ 45 \<Longrightarrow> unat (target_rank (of_nat n) (fl (95 / 100))) = nat \<lceil>95 * of_nat n / (100 :: rat)\<rceil>"
  unfolding percentile_95 using unat_target_rank [of n 100 95 "8556839292003942 / 9007199254740992"] by simp

lemma rank_99:
  "0 < n \<Longrightarrow> n < 2 ^ 45 \<Longrightarrow> unat (target_rank (of_nat n) (fl (99 / 100))) = nat \<lceil>99 * of_nat n / (100 :: rat)\<rceil>"
  unfolding percentile_99 using unat_target_rank [of n 100 99 "8917127262193582 / 9007199254740992"] by simp

text \<open>Claim C29: the percentile estimates are right although they are computed in floating point: with
  fewer than \<open>2\<^sup>4\<^sup>5\<close> recorded latencies, the p95 value of the report is the first bucket bound that
  covers at least \<open>\<lceil>95 n / 100\<rceil>\<close> of the \<open>n\<close> latencies, and \<^verbatim>\<open>>5000\<close> if none does; p99 likewise.\<close>

theorem percentiles_exact:
  assumes "\<forall>d \<in> set (latencies es). d < 2 ^ 63"
    and "n = length (latencies es)" and "0 < n" and "n < 2 ^ 45"
  shows "EstimatePercentileBucketUs (Snapshot (metrics_after es)) (fl (95 / 100)) =
      first_bound (\<lambda>u. nat \<lceil>95 * of_nat n / (100 :: rat)\<rceil> \<le> covered (latencies es) u) [10, 50, 100, 500, 1000, 5000] \<and>
    EstimatePercentileBucketUs (Snapshot (metrics_after es)) (fl (99 / 100)) =
      first_bound (\<lambda>u. nat \<lceil>99 * of_nat n / (100 :: rat)\<rceil> \<le> covered (latencies es) u) [10, 50, 100, 500, 1000, 5000]"
  using estimate_first [OF assms(1)] rank_95 [of n] rank_99 [of n] assms(2-4) by simp

theorem percentiles_exact_witness:
  "EstimatePercentileBucketUs (Snapshot (metrics_after [Latency 9000, Latency 20000])) (fl (95 / 100)) = ''50'' \<and>
   EstimatePercentileBucketUs (Snapshot (metrics_after [Latency 9000, Latency 20000])) (fl (99 / 100)) = ''50''"
proof -
  have "\<lceil>95 * of_nat 2 / (100 :: rat)\<rceil> = 2" "\<lceil>99 * of_nat 2 / (100 :: rat)\<rceil> = 2"
    by (rule ceiling_unique; simp)+
  moreover have "nat_to_string 50 = ''50''" "first_bound (\<lambda>u. 2 \<le> covered [9000, 20000] u) [10, 50] = ''50''"
    by code_simp+
  ultimately show ?thesis using percentiles_exact [of "[Latency 9000, Latency 20000]" 2]
    by (simp add: latencies_def covered_def)
qed

section \<open>The size of the report\<close>

lemma length_fixed2: "x < 2 ^ 80 \<Longrightarrow> length (fixed2 x) \<le> 40"
proof -
  assume x: "x < 2 ^ 80"
  let ?h = "nat (round_half_even (x * 100))"
  have "round_half_even (x * 100) \<le> 2 ^ 80 * 100" using x by (intro round_half_even_le) simp
  then have "?h \<le> nat (2 ^ 80 * 100)" by (rule nat_mono)
  then have "?h div 100 < 10 ^ 30" by simp
  moreover have "?h div 10 mod 10 < 10 ^ 1" "?h mod 10 < 10 ^ 1" by simp_all
  ultimately show ?thesis
    using length_nat_to_string [of "?h div 100" 30] length_nat_to_string [of "?h div 10 mod 10" 1]
      length_nat_to_string [of "?h mod 10" 1]
    by (simp add: fixed2_def Let_def)
qed

lemma fl_ge_half: "1 \<le> x \<Longrightarrow> 1 / 2 \<le> fl x"
proof -
  assume x: "1 \<le> x"
  then have "x / 2 ^ 53 \<le> x / 2" by simp
  then show ?thesis using fl_error [of x] x by linarith
qed

lemma double_of_u64_bounds: "0 \<le> double_of_u64 w" "double_of_u64 w \<le> 2 ^ 65" "w \<noteq> 0 \<Longrightarrow> 1 / 2 \<le> double_of_u64 w"
proof -
  have lt: "(of_nat (unat w) :: rat) \<le> 2 ^ 64"
    using unsigned_less [of w, where 'a = nat] of_nat_less_iff [of "unat w" "2 ^ 64", where 'a = rat] by simp
  show "0 \<le> double_of_u64 w" by (simp add: double_of_u64_def fl_nonneg)
  show "double_of_u64 w \<le> 2 ^ 65" using fl_le_double [OF of_nat_0_le_iff, of "unat w"] order_trans [of _ "2 * of_nat (unat w)" "2 ^ 65 :: rat"] lt
    unfolding double_of_u64_def by simp
  show "1 / 2 \<le> double_of_u64 w" if "w \<noteq> 0"
  proof -
    have "0 < unat w" using that by (simp add: unat_gt_0)
    then have "1 \<le> (of_nat (unat w) :: rat)" using of_nat_le_iff [of 1 "unat w", where 'a = rat] by simp
    then show ?thesis unfolding double_of_u64_def by (rule fl_ge_half)
  qed
qed

lemma latency_doubles:
  "fl (double_of_u64 w / 1000) < 2 ^ 80" "AverageCommandLatencyMicroseconds s < 2 ^ 80"
proof -
  have max: "fl (double_of_u64 w / 1000) \<le> 2 ^ 60" for w
    using fl_le_double [of "double_of_u64 w / 1000"] double_of_u64_bounds [of w] by simp
  then show "fl (double_of_u64 w / 1000) < 2 ^ 80" by (rule order.strict_trans1) simp
  show "AverageCommandLatencyMicroseconds s < 2 ^ 80"
  proof (cases "commandLatencyCount s = 0")
    case False
    let ?t = "fl (double_of_u64 (commandLatencyTotalNanoseconds s) / 1000)" and ?n = "double_of_u64 (commandLatencyCount s)"
    have n: "1 / 2 \<le> ?n" using False by (rule double_of_u64_bounds(3))
    have "?t / ?n \<le> 2 ^ 60 / (1 / 2)" using n max fl_nonneg by (intro frac_le) simp_all
    moreover have "0 \<le> ?t / ?n" using n fl_nonneg [of "double_of_u64 (commandLatencyTotalNanoseconds s) / 1000"] by simp
    ultimately have "fl (?t / ?n) < 2 ^ 80" using fl_le_double [of "?t / ?n"] by simp
    then show ?thesis using False by (simp add: AverageCommandLatencyMicroseconds_def Let_def)
  qed (simp add: AverageCommandLatencyMicroseconds_def)
qed

lemma length_percentile_loop: "length (percentile_loop r acc bs us) \<le> 20"
  by (induction r acc bs us rule: percentile_loop.induct) (auto simp: Let_def length_u64_string)

lemma length_Estimate: "length (EstimatePercentileBucketUs s p) \<le> 20"
  by (simp add: EstimatePercentileBucketUs_def Let_def length_percentile_loop)

lemma length_show_u64: "length (show_u64 w) \<le> 20"
  by (simp add: show_u64_def length_u64_string)

lemma length_BuildStatsResponse: "length (BuildStatsResponse store m) \<le> 4096"
proof -
  have add: "length (a @ b) \<le> i + j" if "length a \<le> i" "length b \<le> j" for a b :: string and i j :: nat
    using that by simp
  have lit: "length a \<le> 40" if "length a < 41" for a :: string using that by simp
  have *: "length (BuildStatsResponse store m) \<le>
     (40 + (20 + (40 + (20 + (40 + (20 + (40 + (20 + (40 + (20 + (40 + (20 + (40 + (20 + (40 + (20 + (40 + (20 +
     (40 + (20 + (40 + (20 + (40 + (20 + (40 + (20 + (40 + (20 + (40 + (20 + (40 + (20 + (40 + (20 +
     (40 + (40 + (40 + (40 + (40 + (20 + (40 + 20)))))))))))))))))))))))))))))))))))))))))"
    unfolding BuildStatsResponse_def Let_def
    by (intro add length_show_u64 length_Estimate length_fixed2 latency_doubles) simp_all
  then show ?thesis by simp
qed

end
