(* ===== verification/Connection_Model.thy ===== *)
theory Connection_Model
  imports Frame_Codec Command_Executor Output_Buffer Io_Poller Stats_Report
begin

text \<open>
  One client connection of a sub-reactor: the handlers of \<^verbatim>\<open>src/net/sub_reactor.cpp\<close> that work on a
  single \<open>Connection\<close>.  A handler reads and changes the connection, the store, the metrics and the
  poller, collected in the record \<open>ConnCtx\<close>, and returns its value or the exception that leaves it
  together with the context as it left it.  The bytes \<open>recv\<close> delivers, the counts \<open>send\<close> returns, the
  errors of \<open>epoll_ctl\<close> and the clock readings are arguments.  Logging is not modelled.
\<close>

section \<open>State\<close>

record NetworkOptions =
  maxReadBufferBytes :: nat
  writeHighWatermarkBytes :: nat
  writeLowWatermarkBytes :: nat
  writeHardLimitBytes :: nat
  maxWriteBytesPerEvent :: nat
  maxAcceptsPerEvent :: nat

definition NetworkOptions_default :: NetworkOptions where
  "NetworkOptions_default =
     \<lparr>maxReadBufferBytes = 1024 * 1024 + 4, writeHighWatermarkBytes = 1024 * 1024,
      writeLowWatermarkBytes = 512 * 1024, writeHardLimitBytes = 4 * 1024 * 1024,
      maxWriteBytesPerEvent = 64 * 1024, maxAcceptsPerEvent = 64\<rparr>"

record Connection =
  conn_fd :: int
  readBuffer :: string
  writeBuffer :: OutputBuffer
  readPaused :: bool
  closeAfterWrite :: bool
  conn_closed :: bool
  registeredEvents :: IoEvent

definition Connection_init :: "int \<Rightarrow> Connection" where
  "Connection_init clientFd =
     \<lparr>conn_fd = clientFd, readBuffer = [], writeBuffer = OutputBuffer_init, readPaused = False,
      closeAfterWrite = False, conn_closed = False, registeredEvents = IoEvent_None\<rparr>"

record ConnCtx =
  x_store :: KVStore
  x_metrics :: ServerMetrics
  x_poller :: Poller
  x_conn :: Connection

abbreviation upd_conn :: "(Connection \<Rightarrow> Connection) \<Rightarrow> ConnCtx \<Rightarrow> ConnCtx" where
  "upd_conn f x \<equiv> x\<lparr>x_conn := f (x_conn x)\<rparr>"

abbreviation upd_metrics :: "(ServerMetrics \<Rightarrow> ServerMetrics) \<Rightarrow> ConnCtx \<Rightarrow> ConnCtx" where
  "upd_metrics f x \<equiv> x\<lparr>x_metrics := f (x_metrics x)\<rparr>"

text \<open>A handler's value or exception, and the context it leaves.\<close>

type_synonym 'a handled = "'a result \<times> ConnCtx"

fun bind_handled :: "'a handled \<Rightarrow> ('a \<Rightarrow> ConnCtx \<Rightarrow> 'b handled) \<Rightarrow> 'b handled" where
  "bind_handled (Inl e, x) f = (Inl e, x)"
| "bind_handled (Inr a, x) f = f a x"

section \<open>Handlers\<close>

definition MarkClosed :: "Connection \<Rightarrow> Connection" where
  "MarkClosed conn = conn\<lparr>conn_closed := True, readPaused := False, closeAfterWrite := False,
     readBuffer := [], writeBuffer := OutputBuffer_Clear (writeBuffer conn)\<rparr>"

definition UpdateReadBackPressure :: "NetworkOptions \<Rightarrow> ConnCtx \<Rightarrow> ConnCtx" where
  "UpdateReadBackPressure opts x =
     (let conn = x_conn x
      in if closeAfterWrite conn \<or> conn_closed conn then x
         else
           let pendingBytes = OutputBuffer_Size (writeBuffer conn)
           in if readPaused conn
              then if pendingBytes \<le> writeLowWatermarkBytes opts
                   then upd_metrics OnReadResumed (x\<lparr>x_conn := conn\<lparr>readPaused := False\<rparr>\<rparr>)
                   else x
              else if pendingBytes \<ge> writeHighWatermarkBytes opts
                   then upd_metrics OnReadPaused (x\<lparr>x_conn := conn\<lparr>readPaused := True\<rparr>\<rparr>)
                   else x)"

definition QueueResponse :: "endianness \<Rightarrow> NetworkOptions \<Rightarrow> string \<Rightarrow> ConnCtx \<Rightarrow> bool handled" where
  "QueueResponse h opts response x =
     (case FrameCodec_Encode h response of
        Inl e \<Rightarrow> if is_std_exception e then (Inr False, upd_conn MarkClosed x) else (Inl e, x)
      | Inr frame \<Rightarrow>
          let pendingBytes = OutputBuffer_Size (writeBuffer (x_conn x));
              hardLimit = writeHardLimitBytes opts
          in if pendingBytes > hardLimit \<or> length frame > hardLimit - pendingBytes
             then (Inr False, upd_conn MarkClosed (upd_metrics OnSlowClientDisconnected x))
             else
               let x = upd_conn (\<lambda>conn. conn\<lparr>writeBuffer := OutputBuffer_Append (writeBuffer conn) frame\<rparr>) x;
                   x = upd_metrics (ObservePendingWriteBytes (OutputBuffer_Size (writeBuffer (x_conn x)))) x;
                   x = UpdateReadBackPressure opts x
               in (Inr True, x))"

text \<open>The clock is read when a payload's processing begins, inside the store, and at its end.\<close>

record clock_readings =
  clk_begin :: time_point
  clk_store :: time_point
  clk_end :: time_point

definition ProcessPayload ::
  "endianness \<Rightarrow> NetworkOptions \<Rightarrow> clock_readings \<Rightarrow> string \<Rightarrow> ConnCtx \<Rightarrow> bool handled" where
  "ProcessPayload h opts clk payload x =
     (let cmd = ParseCommand payload;
          x = upd_metrics OnCommandProcessed x;
          x = (if cmd_type cmd = Unknown then upd_metrics OnCommandError x else x);
          executed = (if cmd_type cmd = Stats then Inr (BuildStatsResponse (x_store x) (x_metrics x), x_store x)
                      else CommandExecutor_Execute (x_store x) cmd (clk_store clk))
      in case executed of
           Inl e \<Rightarrow> (Inl e, x)
         | Inr (response, store) \<Rightarrow>
             let x = x\<lparr>x_store := store\<rparr>;
                 x = upd_metrics (RecordCommandLatency (clk_end clk - clk_begin clk)) x
             in bind_handled (QueueResponse h opts response x) (\<lambda>queued x.
                  if \<not> queued then (Inr False, x)
                  else if cmd_type cmd = Quit then (Inr False, upd_conn (\<lambda>conn. conn\<lparr>closeAfterWrite := True\<rparr>) x)
                  else (Inr True, x)))"

text \<open>The loop over the decoded payloads; each is processed with its own clock readings.\<close>

fun process_payloads ::
  "endianness \<Rightarrow> NetworkOptions \<Rightarrow> (clock_readings \<times> string) list \<Rightarrow> ConnCtx \<Rightarrow> unit handled" where
  "process_payloads h opts [] x = (Inr (), x)"
| "process_payloads h opts ((clk, payload) # rest) x =
     bind_handled (ProcessPayload h opts clk payload x) (\<lambda>go_on x.
       if go_on then process_payloads h opts rest x else (Inr (), x))"

definition RejectOversizedReadBuffer :: "endianness \<Rightarrow> NetworkOptions \<Rightarrow> ConnCtx \<Rightarrow> unit handled" where
  "RejectOversizedReadBuffer h opts x =
     bind_handled (QueueResponse h opts ''-ERR request buffer too large'' x) (\<lambda>queued x.
       if queued then (Inr (), upd_conn (\<lambda>conn. conn\<lparr>closeAfterWrite := True\<rparr>) x)
       else (Inr (), upd_conn MarkClosed x))"

definition RECV_SIZE :: nat where "RECV_SIZE = 16 * 1024"

text \<open>The size given to \<open>recv\<close>.\<close>

definition read_size :: "NetworkOptions \<Rightarrow> Connection \<Rightarrow> nat" where
  "read_size opts conn =
     (let availableBytes = maxReadBufferBytes opts - length (readBuffer conn) in min RECV_SIZE availableBytes)"

text \<open>\<open>recvs\<close> are the returns of \<open>recv\<close>, \<open>Ret []\<close> for the orderly shutdown of the peer; \<open>clks i\<close> are the
  clock readings of payload \<open>i\<close>.\<close>

definition HandleClientRead ::
  "endianness \<Rightarrow> NetworkOptions \<Rightarrow> string sysret list \<Rightarrow> (nat \<Rightarrow> clock_readings) \<Rightarrow> ConnCtx \<Rightarrow> unit handled" where
  "HandleClientRead h opts recvs clks x =
     (let conn = x_conn x
      in if conn_closed conn \<or> readPaused conn \<or> closeAfterWrite conn then (Inr (), x)
         else if length (readBuffer conn) \<ge> maxReadBufferBytes opts then RejectOversizedReadBuffer h opts x
         else
           case retry_eintr recvs of
             None \<Rightarrow> (Inl StillBlocked, x)
           | Some (Fail errno) \<Rightarrow>
               if errno = EAGAIN \<or> errno = EWOULDBLOCK then (Inr (), x)
               else (Inr (), upd_conn MarkClosed x)
           | Some (Ret received) \<Rightarrow>
               if received = [] then
                 let x = upd_conn MarkClosed x;
                     x = upd_conn (\<lambda>conn. conn\<lparr>readPaused := True\<rparr>) x;
                     x = upd_conn (\<lambda>conn. conn\<lparr>closeAfterWrite := True\<rparr>) x
                 in (Inr (), if OutputBuffer_Empty (writeBuffer (x_conn x)) then upd_conn MarkClosed x else x)
               else
                 let x = upd_metrics (AddBytesReceived (length received)) x;
                     (decoded, buffer) =
                       FrameCodec_DecodeAppend h (readBuffer (x_conn x)) (Some received) (length received);
                     x = upd_conn (\<lambda>conn. conn\<lparr>readBuffer := buffer\<rparr>) x
                 in case decoded of
                      Inl e \<Rightarrow>
                        let x = upd_metrics OnProtocolError x
                        in bind_handled (QueueResponse h opts ''-ERR protocol error'' x) (\<lambda>queued x.
                             if queued then (Inr (), upd_conn (\<lambda>conn. conn\<lparr>closeAfterWrite := True\<rparr>) x)
                             else (Inr (), x))
                    | Inr payloads \<Rightarrow>
                        let x = upd_metrics (AddFramesReceived (length payloads)) x
                        in process_payloads h opts (zip (map clks [0..<length payloads]) payloads) x)"

text \<open>\<open>sends\<close> are the returns of \<open>send\<close>: the bytes the kernel took.\<close>

definition bytes_to_write :: "NetworkOptions \<Rightarrow> Connection \<Rightarrow> nat" where
  "bytes_to_write opts conn = min (OutputBuffer_Size (writeBuffer conn)) (maxWriteBytesPerEvent opts)"

definition HandleClientWrite :: "NetworkOptions \<Rightarrow> nat sysret list \<Rightarrow> ConnCtx \<Rightarrow> unit handled" where
  "HandleClientWrite opts sends x =
     (let conn = x_conn x
      in if conn_closed conn then (Inr (), x)
         else if OutputBuffer_Empty (writeBuffer conn) then
           let x = UpdateReadBackPressure opts x
           in (Inr (), if closeAfterWrite (x_conn x) then upd_conn MarkClosed x else x)
         else
           case retry_eintr sends of
             None \<Rightarrow> (Inl StillBlocked, x)
           | Some (Fail errno) \<Rightarrow>
               if errno = EAGAIN \<or> errno = EWOULDBLOCK then (Inr (), x)
               else (Inr (), upd_conn MarkClosed x)
           | Some (Ret written) \<Rightarrow>
               if written > 0 then
                 let x = upd_metrics (AddBytesSent written) x
                 in case OutputBuffer_Consume (writeBuffer (x_conn x)) written of
                      Inl e \<Rightarrow> (Inl e, x)
                    | Inr buffer \<Rightarrow>
                        let x = upd_conn (\<lambda>conn. conn\<lparr>writeBuffer := buffer\<rparr>) x;
                            x = UpdateReadBackPressure opts x
                        in (Inr (), if OutputBuffer_Empty (writeBuffer (x_conn x)) \<and> closeAfterWrite (x_conn x)
                                    then upd_conn MarkClosed x else x)
               else (Inr (), upd_conn MarkClosed x))"

definition DesiredEvents :: "Connection \<Rightarrow> IoEvent" where
  "DesiredEvents conn =
     (if conn_closed conn then IoEvent_None
      else
        let interests = IoEvent_None;
            interests = (if \<not> readPaused conn \<and> \<not> closeAfterWrite conn
                         then interests OR IoEvent_Read else interests);
            interests = (if \<not> OutputBuffer_Empty (writeBuffer conn)
                         then interests OR IoEvent_Write else interests)
        in interests)"

definition RefreshConnectionInterest :: "ctl_oracle \<Rightarrow> NetworkOptions \<Rightarrow> ConnCtx \<Rightarrow> unit handled" where
  "RefreshConnectionInterest ctl opts x =
     (if conn_closed (x_conn x) then (Inr (), x)
      else
        let x = UpdateReadBackPressure opts x
        in if closeAfterWrite (x_conn x) \<and> OutputBuffer_Empty (writeBuffer (x_conn x))
           then (Inr (), upd_conn MarkClosed x)
           else
             let desired = DesiredEvents (x_conn x)
             in if desired = IoEvent_None then (Inr (), upd_conn MarkClosed x)
                else if desired = registeredEvents (x_conn x) then (Inr (), x)
                else
                  let (r, p) = Poller_Modity ctl (x_poller x) (conn_fd (x_conn x)) desired;
                      x = x\<lparr>x_poller := p\<rparr>
                  in case r of
                       Some e \<Rightarrow> (Inl e, x)
                     | None \<Rightarrow> (Inr (), upd_conn (\<lambda>conn. conn\<lparr>registeredEvents := desired\<rparr>) x))"

section \<open>The invariant of a connection\<close>

text \<open>What \<open>Validate\<close> asks of the options, and a positive high watermark.\<close>

definition opts_ok :: "NetworkOptions \<Rightarrow> bool" where
  "opts_ok opts \<longleftrightarrow> writeLowWatermarkBytes opts \<le> writeHighWatermarkBytes opts \<and>
     writeHighWatermarkBytes opts \<le> writeHardLimitBytes opts \<and> 0 < writeHighWatermarkBytes opts \<and>
     0 < maxWriteBytesPerEvent opts"

abbreviation pending :: "Connection \<Rightarrow> nat" where
  "pending conn \<equiv> OutputBuffer_Size (writeBuffer conn)"

abbreviation pending_data :: "Connection \<Rightarrow> string" where
  "pending_data conn \<equiv> OutputBuffer_Data (writeBuffer conn)"

text \<open>A connection never holds more output than the hard limit nor more input than the read limit; a
  closed one holds nothing; an open one that does not read still has something to send, and one that
  may read holds an incomplete frame only.\<close>

definition conn_inv :: "NetworkOptions \<Rightarrow> Connection \<Rightarrow> bool" where
  "conn_inv opts conn \<longleftrightarrow>
     ob_inv (writeBuffer conn) \<and> pending conn \<le> writeHardLimitBytes opts \<and>
     length (readBuffer conn) \<le> maxReadBufferBytes opts \<and>
     (conn_closed conn \<longrightarrow> pending conn = 0 \<and> readBuffer conn = []) \<and>
     (\<not> conn_closed conn \<longrightarrow> (readPaused conn \<or> closeAfterWrite conn \<longrightarrow> 0 < pending conn) \<and>
       (\<not> closeAfterWrite conn \<longrightarrow> incomplete (readBuffer conn)))"

lemma Clear_simps [simp]:
  "ob_inv (OutputBuffer_Clear b)" "OutputBuffer_Size (OutputBuffer_Clear b) = 0"
  "OutputBuffer_Data (OutputBuffer_Clear b) = []" "OutputBuffer_Empty (OutputBuffer_Clear b)"
  by (simp_all add: OutputBuffer_Clear_def OutputBuffer_Empty_def ob_defs)

lemma MarkClosed_simps [simp]:
  "conn_closed (MarkClosed conn)" "conn_fd (MarkClosed conn) = conn_fd conn"
  "registeredEvents (MarkClosed conn) = registeredEvents conn" "writeBuffer (MarkClosed conn) = OutputBuffer_Clear (writeBuffer conn)"
  "readBuffer (MarkClosed conn) = []" "\<not> readPaused (MarkClosed conn)" "\<not> closeAfterWrite (MarkClosed conn)"
  by (simp_all add: MarkClosed_def)

lemma MarkClosed_inv [simp]: "conn_inv opts (MarkClosed conn)"
  by (simp add: conn_inv_def)

lemma conn_inv_init: "conn_inv opts (Connection_init fd)"
  by (simp add: conn_inv_def Connection_init_def ob.inv_fresh incomplete_def)
    (simp add: OutputBuffer_init_def OutputBuffer_Size_def)

lemma Update_frame [simp]:
  "x_store (UpdateReadBackPressure opts x) = x_store x" "x_poller (UpdateReadBackPressure opts x) = x_poller x"
  "conn_fd (x_conn (UpdateReadBackPressure opts x)) = conn_fd (x_conn x)"
  "registeredEvents (x_conn (UpdateReadBackPressure opts x)) = registeredEvents (x_conn x)"
  "writeBuffer (x_conn (UpdateReadBackPressure opts x)) = writeBuffer (x_conn x)"
  "readBuffer (x_conn (UpdateReadBackPressure opts x)) = readBuffer (x_conn x)"
  "closeAfterWrite (x_conn (UpdateReadBackPressure opts x)) = closeAfterWrite (x_conn x)"
  "conn_closed (x_conn (UpdateReadBackPressure opts x)) = conn_closed (x_conn x)"
  by (simp_all add: UpdateReadBackPressure_def Let_def)

lemma Update_paused:
  "readPaused (x_conn (UpdateReadBackPressure opts x)) =
     (if closeAfterWrite (x_conn x) \<or> conn_closed (x_conn x) then readPaused (x_conn x)
      else if readPaused (x_conn x) then writeLowWatermarkBytes opts < pending (x_conn x)
      else writeHighWatermarkBytes opts \<le> pending (x_conn x))"
  by (simp add: UpdateReadBackPressure_def Let_def)

text \<open>The flag is right after an update whatever it was before it, as far as the invariant goes.\<close>

lemma Update_inv:
  assumes "opts_ok opts"
    and "conn_inv opts ((x_conn x)\<lparr>readPaused := False\<rparr>)"
    and "readPaused (x_conn x) \<Longrightarrow> closeAfterWrite (x_conn x) \<Longrightarrow> conn_closed (x_conn x) \<or> 0 < pending (x_conn x)"
  shows "conn_inv opts (x_conn (UpdateReadBackPressure opts x))"
  using assms by (auto simp: conn_inv_def Update_paused opts_ok_def)

lemma conn_inv_unpaused: "conn_inv opts conn \<Longrightarrow> conn_inv opts (conn\<lparr>readPaused := False\<rparr>)"
  by (simp add: conn_inv_def)

lemma Append_pending [simp]:
  "ob_inv b \<Longrightarrow> OutputBuffer_Size (OutputBuffer_Append b bs) = OutputBuffer_Size b + length bs"
  "ob_inv b \<Longrightarrow> ob_inv (OutputBuffer_Append b bs)"
  "ob_inv b \<Longrightarrow> OutputBuffer_Data (OutputBuffer_Append b bs) = OutputBuffer_Data b @ bs"
  by (simp_all add: ob.append_size ob.append_law)

section \<open>What each handler does\<close>

definition same_frame :: "ConnCtx \<Rightarrow> ConnCtx \<Rightarrow> bool" where
  "same_frame x x' \<longleftrightarrow> x_poller x' = x_poller x \<and> conn_fd (x_conn x') = conn_fd (x_conn x) \<and>
     registeredEvents (x_conn x') = registeredEvents (x_conn x)"

lemma same_frame_refl [simp]: "same_frame x x" by (simp add: same_frame_def)

lemma same_frame_trans: "same_frame x y \<Longrightarrow> same_frame y z \<Longrightarrow> same_frame x z" by (simp add: same_frame_def)

lemma QueueResponse_cases:
  assumes "opts_ok opts" "conn_inv opts (x_conn x)" "\<not> conn_closed (x_conn x)" "length response \<le> frame_limit"
  obtains (Queued) x' where "QueueResponse h opts response x = (Inr True, x')" "conn_inv opts (x_conn x')"
      "\<not> conn_closed (x_conn x')" "pending_data (x_conn x') = pending_data (x_conn x) @ wire_frame response"
      "closeAfterWrite (x_conn x') = closeAfterWrite (x_conn x)" "readBuffer (x_conn x') = readBuffer (x_conn x)"
      "0 < pending (x_conn x')" "x_store x' = x_store x" "same_frame x x'"
      "pending (x_conn x) + 4 + length response \<le> writeHardLimitBytes opts"
  | (Slow) x' where "QueueResponse h opts response x = (Inr False, x')" "x_conn x' = MarkClosed (x_conn x)"
      "x_store x' = x_store x" "same_frame x x'"
      "writeHardLimitBytes opts < pending (x_conn x) + 4 + length response"
proof (cases "pending (x_conn x) + 4 + length response \<le> writeHardLimitBytes opts")
  case True
  have ob: "ob_inv (writeBuffer (x_conn x))" using assms(2) by (simp add: conn_inv_def)
  let ?x1 = "upd_conn (\<lambda>conn. conn\<lparr>writeBuffer := OutputBuffer_Append (writeBuffer conn) (wire_frame response)\<rparr>) x"
  let ?x2 = "upd_metrics (ObservePendingWriteBytes (pending (x_conn ?x1))) ?x1"
  let ?x' = "UpdateReadBackPressure opts ?x2"
  have q: "QueueResponse h opts response x = (Inr True, ?x')"
    using True Encode_wire_frame [OF assms(4), of h] by (simp add: QueueResponse_def Let_def)
  have "conn_inv opts (x_conn ?x')"
    using assms(2,3) ob True by (intro Update_inv [OF assms(1)]) (auto simp: conn_inv_def)
  then show thesis using q ob assms(3) True by (intro Queued [of ?x']) (simp_all add: same_frame_def)
next
  case False
  have "QueueResponse h opts response x = (Inr False, upd_conn MarkClosed (upd_metrics OnSlowClientDisconnected x))"
    using False Encode_wire_frame [OF assms(4), of h] by (simp add: QueueResponse_def Let_def) linarith
  from Slow [OF this] show thesis using False by (simp add: same_frame_def)
qed

text \<open>One payload: its response, as the executor gives it or as the report for STATS, and the store
  after it.\<close>

definition payload_response :: "ConnCtx \<Rightarrow> time_point \<Rightarrow> string \<Rightarrow> (string \<times> KVStore) result" where
  "payload_response x now payload =
     (if cmd_type (ParseCommand payload) = Stats
      then Inr (BuildStatsResponse (x_store x) (OnCommandProcessed (x_metrics x)), x_store x)
      else CommandExecutor_Execute (x_store x) (ParseCommand payload) now)"

definition is_quit :: "string \<Rightarrow> bool" where
  "is_quit payload \<longleftrightarrow> cmd_type (ParseCommand payload) = Quit"

text \<open>The store a handler may be called with: it keeps its contract for \<open>n\<close> more commands, and its
  values fit in a frame.\<close>

definition store_ready :: "nat \<Rightarrow> KVStore \<Rightarrow> bool" where
  "store_ready n s \<longleftrightarrow> kv_good n s \<and> store_fits s"

lemma store_ready_mono: "store_ready n s \<Longrightarrow> m \<le> n \<Longrightarrow> store_ready m s"
  by (auto simp: store_ready_def kv_good_def)

lemma simulates_self: "simulates t s (\<lambda>k. map_option (\<lambda>e. (entry_value e, entry_expireAt e)) (um_find (m_data s) k))"
  by (auto simp: simulates_def spec_live_def kv_view_def KVStore_IsExpired_def fun_eq_iff split: option.splits)

lemma payload_response_ok:
  assumes "store_ready (Suc n) (x_store x)" "length payload \<le> frame_limit"
  shows "\<exists>r s'. payload_response x now payload = Inr (r, s') \<and> store_ready n s' \<and> length r \<le> frame_limit"
proof (cases "cmd_type (ParseCommand payload) = Stats")
  case True
  then show ?thesis using assms(1) length_BuildStatsResponse [of "x_store x" "OnCommandProcessed (x_metrics x)"]
    by (auto simp: payload_response_def store_ready_def kv_good_def frame_limit_def)
next
  case False
  have good: "kv_good (Suc n) (x_store x)" and fits: "store_fits (x_store x)"
    using assms(1) by (simp_all add: store_ready_def)
  obtain r s' where "CommandExecutor_Execute (x_store x) (ParseCommand payload) now = Inr (r, s')" "kv_good n s'"
    using Execute_refines [OF good simulates_self order_refl] by blast
  then show ?thesis using False Execute_texts [OF _ fits] Execute_fits [OF _ fits assms(2)]
    by (auto simp: payload_response_def store_ready_def)
qed


lemma conn_inv_closing:
  "conn_inv opts conn \<Longrightarrow> 0 < pending conn \<or> conn_closed conn \<Longrightarrow> conn_inv opts (conn\<lparr>closeAfterWrite := True\<rparr>)"
  by (auto simp: conn_inv_def)

lemma ProcessPayload_cases:
  assumes "opts_ok opts" "conn_inv opts (x_conn x)" "\<not> conn_closed (x_conn x)"
    and "store_ready (Suc n) (x_store x)" "length payload \<le> frame_limit"
  obtains (Answered) r s' x' where "payload_response x (clk_store clk) payload = Inr (r, s')"
      "ProcessPayload h opts clk payload x = (Inr (\<not> is_quit payload), x')" "conn_inv opts (x_conn x')"
      "\<not> conn_closed (x_conn x')" "pending_data (x_conn x') = pending_data (x_conn x) @ wire_frame r"
      "x_store x' = s'" "store_ready n s'" "closeAfterWrite (x_conn x') = (closeAfterWrite (x_conn x) \<or> is_quit payload)"
      "readBuffer (x_conn x') = readBuffer (x_conn x)" "same_frame x x'"
      "pending (x_conn x) + 4 + length r \<le> writeHardLimitBytes opts"
  | (Slow) r s' x' where "payload_response x (clk_store clk) payload = Inr (r, s')"
      "ProcessPayload h opts clk payload x = (Inr False, x')" "x_conn x' = MarkClosed (x_conn x)"
      "store_ready n (x_store x')" "same_frame x x'" "writeHardLimitBytes opts < pending (x_conn x) + 4 + length r" "x_store x' = s'"
proof -
  let ?cmd = "ParseCommand payload"
  obtain r s' where r: "payload_response x (clk_store clk) payload = Inr (r, s')" "store_ready n s'" "length r \<le> frame_limit"
    using payload_response_ok [OF assms(4,5)] by blast
  let ?x1 = "if cmd_type ?cmd = Unknown then upd_metrics OnCommandError (upd_metrics OnCommandProcessed x)
    else upd_metrics OnCommandProcessed x"
  define x2 where "x2 = upd_metrics (RecordCommandLatency (clk_end clk - clk_begin clk)) (?x1\<lparr>x_store := s'\<rparr>)"
  have x2: "x_conn x2 = x_conn x" "x_store x2 = s'" "same_frame x x2" by (simp_all add: same_frame_def x2_def)
  have P: "ProcessPayload h opts clk payload x =
    bind_handled (QueueResponse h opts r x2) (\<lambda>queued x.
      if \<not> queued then (Inr False, x)
      else if is_quit payload then (Inr False, upd_conn (\<lambda>conn. conn\<lparr>closeAfterWrite := True\<rparr>) x)
      else (Inr True, x))"
    using r(1) unfolding payload_response_def is_quit_def
    by (cases "cmd_type ?cmd = Stats") (auto simp add: ProcessPayload_def Let_def x2_def)
  have inv2: "conn_inv opts (x_conn x2)" "\<not> conn_closed (x_conn x2)" using assms(2,3) by (simp_all only: x2 not_False_eq_True)
  from assms(1) inv2 r(3) show thesis
  proof (cases rule: QueueResponse_cases [where h = h])
    case (Queued x')
    let ?x' = "if is_quit payload then upd_conn (\<lambda>conn. conn\<lparr>closeAfterWrite := True\<rparr>) x' else x'"
    show thesis using P Queued r x2 same_frame_trans [OF x2(3) Queued(9)] conn_inv_closing [OF Queued(2)]
      by (intro Answered [OF r(1), of ?x']) (auto simp: same_frame_def)
  next
    case (Slow x')
    show thesis using P Slow r same_frame_trans [OF x2(3) Slow(4)] by (intro that(2) [OF r(1), of x']) (auto simp: x2)
  qed
qed

text \<open>The loop answers payload after payload until it has answered a QUIT, or until the connection is
  dropped as too slow.\<close>

lemma process_payloads_inv:
  assumes "opts_ok opts" "conn_inv opts (x_conn x)" "\<not> conn_closed (x_conn x)"
    and "store_ready (n + length ps) (x_store x)" "\<forall>(clk, p) \<in> set ps. length p \<le> frame_limit"
  shows "\<exists>x'. process_payloads h opts ps x = (Inr (), x') \<and> conn_inv opts (x_conn x') \<and>
    store_ready n (x_store x') \<and> same_frame x x'"
  using assms(2-)
proof (induction ps arbitrary: x)
  case (Cons cp ps)
  obtain clk p where cp: "cp = (clk, p)" by (cases cp)
  have p: "length p \<le> frame_limit" and ready: "store_ready (Suc (n + length ps)) (x_store x)" using Cons.prems cp by auto
  from assms(1) Cons.prems(1,2) ready p show ?case
  proof (cases rule: ProcessPayload_cases [where clk = clk and h = h])
    case (Answered r s' x')
    then have here: "store_ready n (x_store x')" by (auto intro: store_ready_mono)
    show ?thesis
    proof (cases "is_quit p")
      case True
      then show ?thesis using Answered here cp by auto
    next
      case False
      then obtain x'' where "process_payloads h opts ps x' = (Inr (), x'')" "conn_inv opts (x_conn x'')"
        "store_ready n (x_store x'')" "same_frame x' x''"
        using Cons.IH [of x'] Answered Cons.prems(4) by auto
      then show ?thesis using False Answered cp same_frame_trans by auto
    qed
  next
    case (Slow r s' x')
    then have "store_ready n (x_store x')" by (auto intro: store_ready_mono)
    then show ?thesis using Slow cp by auto
  qed
qed (auto intro: store_ready_mono)


text \<open>The contract of the socket calls: \<open>recv\<close> and \<open>send\<close> return, after interruptions, and transfer at
  most what they were asked for.\<close>

definition recv_ok :: "NetworkOptions \<Rightarrow> Connection \<Rightarrow> string sysret list \<Rightarrow> bool" where
  "recv_ok opts conn recvs \<longleftrightarrow>
     (case retry_eintr recvs of None \<Rightarrow> False | Some (Fail e) \<Rightarrow> True
      | Some (Ret bytes) \<Rightarrow> length bytes \<le> read_size opts conn)"

definition send_ok :: "NetworkOptions \<Rightarrow> Connection \<Rightarrow> nat sysret list \<Rightarrow> bool" where
  "send_ok opts conn sends \<longleftrightarrow>
     (case retry_eintr sends of None \<Rightarrow> False | Some (Fail e) \<Rightarrow> True
      | Some (Ret n) \<Rightarrow> n \<le> bytes_to_write opts conn)"

lemma length_frames: "4 * length ps \<le> length (concat (map wire_frame ps))"
  by (induction ps) auto

lemma conn_inv_buffer:
  "conn_inv opts conn \<Longrightarrow> \<not> conn_closed conn \<Longrightarrow> length buf \<le> maxReadBufferBytes opts \<Longrightarrow>
   closeAfterWrite conn \<or> incomplete buf \<Longrightarrow> conn_inv opts (conn\<lparr>readBuffer := buf\<rparr>)"
  by (auto simp: conn_inv_def)

lemma Reject_ok:
  assumes "opts_ok opts" "conn_inv opts (x_conn x)" "\<not> conn_closed (x_conn x)"
  shows "\<exists>x'. RejectOversizedReadBuffer h opts x = (Inr (), x') \<and> conn_inv opts (x_conn x') \<and>
    x_store x' = x_store x \<and> same_frame x x'"
proof -
  have "length ''-ERR request buffer too large'' \<le> frame_limit" by (simp add: frame_limit_def)
  with assms show ?thesis
  proof (cases rule: QueueResponse_cases [where h = h])
    case (Queued x')
    then show ?thesis using conn_inv_closing [OF Queued(2)]
      by (auto simp: RejectOversizedReadBuffer_def same_frame_def)
  qed (auto simp: RejectOversizedReadBuffer_def same_frame_def)
qed

text \<open>A protocol error is answered, and the connection closed after the answer; the buffer, which holds
  the offending bytes, is not read again.\<close>

lemma Queue_close_ok:
  assumes "opts_ok opts" "conn_inv opts ((x_conn x)\<lparr>readBuffer := []\<rparr>)" "\<not> conn_closed (x_conn x)"
    and "length (readBuffer (x_conn x)) \<le> maxReadBufferBytes opts" "length response \<le> frame_limit"
  shows "\<exists>x'. bind_handled (QueueResponse h opts response x) (\<lambda>queued x.
      if queued then (Inr (), upd_conn (\<lambda>conn. conn\<lparr>closeAfterWrite := True\<rparr>) x) else (Inr (), x)) = (Inr (), x') \<and>
    conn_inv opts (x_conn x') \<and> x_store x' = x_store x \<and> same_frame x x'"
proof -
  let ?buf = "readBuffer (x_conn x)"
  define y where "y = upd_conn (\<lambda>conn. conn\<lparr>readBuffer := []\<rparr>) x"
  have commute: "QueueResponse h opts response x =
      (case QueueResponse h opts response y of
         (Inr True, y') \<Rightarrow> (Inr True, upd_conn (\<lambda>conn. conn\<lparr>readBuffer := ?buf\<rparr>) y')
       | (Inr False, y') \<Rightarrow> (Inr False, y')
       | (Inl e, y') \<Rightarrow> (Inl e, upd_conn (\<lambda>conn. conn\<lparr>readBuffer := ?buf\<rparr>) y'))"
    by (simp add: QueueResponse_def y_def Let_def UpdateReadBackPressure_def MarkClosed_def split: sum.split)
  have y: "conn_inv opts (x_conn y)" "\<not> conn_closed (x_conn y)" "x_store y = x_store x" "same_frame x y"
    using assms(2,3) by (simp_all add: y_def same_frame_def)
  from assms(1) y(1,2) assms(5) show ?thesis
  proof (cases rule: QueueResponse_cases [where h = h])
    case (Queued y')
    let ?x' = "upd_conn (\<lambda>conn. conn\<lparr>readBuffer := ?buf, closeAfterWrite := True\<rparr>) y'"
    have "conn_inv opts (x_conn ?x')" using Queued(2,3,7) assms(4) by (simp add: conn_inv_def)
    then show ?thesis using commute Queued y same_frame_trans [OF y(4) Queued(9)]
      by (intro exI [of _ ?x']) (auto simp: same_frame_def)
  next
    case (Slow y')
    then show ?thesis using commute y same_frame_trans [OF y(4) Slow(4)] by (intro exI [of _ y']) auto
  qed
qed

lemma HandleClientRead_ok:
  assumes "opts_ok opts" "conn_inv opts (x_conn x)" "recv_ok opts (x_conn x) recvs"
    and "store_ready (n + maxReadBufferBytes opts) (x_store x)"
  shows "\<exists>x'. HandleClientRead h opts recvs clks x = (Inr (), x') \<and> conn_inv opts (x_conn x') \<and>
    store_ready n (x_store x') \<and> same_frame x x'"
proof -
  let ?conn = "x_conn x"
  have ready: "store_ready n (x_store x)" using assms(4) by (rule store_ready_mono) simp
  consider (skip) "conn_closed ?conn \<or> readPaused ?conn \<or> closeAfterWrite ?conn"
    | (full) "\<not> (conn_closed ?conn \<or> readPaused ?conn \<or> closeAfterWrite ?conn)"
        "maxReadBufferBytes opts \<le> length (readBuffer ?conn)"
    | (fail) e where "\<not> (conn_closed ?conn \<or> readPaused ?conn \<or> closeAfterWrite ?conn)"
        "length (readBuffer ?conn) < maxReadBufferBytes opts" "retry_eintr recvs = Some (Fail e)"
    | (eof) "\<not> (conn_closed ?conn \<or> readPaused ?conn \<or> closeAfterWrite ?conn)"
        "length (readBuffer ?conn) < maxReadBufferBytes opts" "retry_eintr recvs = Some (Ret [])"
    | (data) bs where "\<not> (conn_closed ?conn \<or> readPaused ?conn \<or> closeAfterWrite ?conn)"
        "length (readBuffer ?conn) < maxReadBufferBytes opts" "retry_eintr recvs = Some (Ret bs)" "bs \<noteq> []"
        "length bs \<le> read_size opts ?conn"
    using assms(3) by (fastforce simp: recv_ok_def split: option.splits sysret.splits)
  then show ?thesis
  proof cases
    case skip
    then show ?thesis using assms(2) ready by (auto simp: HandleClientRead_def)
  next
    case full
    then show ?thesis using Reject_ok [OF assms(1,2), of h] ready by (auto simp: HandleClientRead_def)
  next
    case fail
    then show ?thesis using assms(2) ready by (auto simp: HandleClientRead_def same_frame_def)
  next
    case eof
    then show ?thesis using assms(2) ready by (auto simp: HandleClientRead_def Let_def same_frame_def)
  next
    case data
    let ?x1 = "upd_metrics (AddBytesReceived (length bs)) x" and ?buf = "readBuffer ?conn @ bs"
    have len: "length ?buf \<le> maxReadBufferBytes opts" using data(2,5) by (simp add: read_size_def Let_def, arith)
    show ?thesis
    proof (cases h ?buf rule: Decode_cases)
      case (Frames ps rest)
      let ?x2 = "upd_metrics (AddFramesReceived (length ps)) (upd_conn (\<lambda>conn. conn\<lparr>readBuffer := rest\<rparr>) ?x1)"
      let ?ps = "zip (map clks [0..<length ps]) ps"
      have eq: "HandleClientRead h opts recvs clks x = process_payloads h opts ?ps ?x2"
        using data Frames by (simp add: HandleClientRead_def DecodeAppend_all Let_def)
      have count: "length ps \<le> maxReadBufferBytes opts" and rest: "length rest \<le> maxReadBufferBytes opts"
        using len Frames(2) length_frames [of ps] by simp_all
      have "conn_inv opts (x_conn ?x2)" "\<not> conn_closed (x_conn ?x2)"
        using conn_inv_buffer [OF assms(2) _ rest] data(1) Frames(4) by simp_all
      moreover have "store_ready (n + length ?ps) (x_store ?x2)" using assms(4) count by (auto intro: store_ready_mono)
      moreover have "\<forall>(clk, p) \<in> set ?ps. length p \<le> frame_limit" using Frames(3) by (auto dest: set_zip_rightD)
      ultimately obtain x' where "process_payloads h opts ?ps ?x2 = (Inr (), x')" "conn_inv opts (x_conn x')"
        "store_ready n (x_store x')" "same_frame ?x2 x'"
        using process_payloads_inv [OF assms(1), of ?x2 n ?ps h] by blast
      then show ?thesis using eq by (auto simp: same_frame_def)
    next
      case (Oversized ps rest)
      let ?x2 = "upd_metrics OnProtocolError (upd_conn (\<lambda>conn. conn\<lparr>readBuffer := rest\<rparr>) ?x1)"
      have inv: "conn_inv opts ((x_conn ?x2)\<lparr>readBuffer := []\<rparr>)"
        using conn_inv_buffer [OF assms(2), of "[]"] data(1) by (simp add: incomplete_def)
      have "length ''-ERR protocol error'' \<le> frame_limit" by (simp add: frame_limit_def)
      from Queue_close_ok [OF assms(1) inv _ _ this, of h] data len Oversized(1,2) ready show ?thesis
        by (auto simp: HandleClientRead_def DecodeAppend_all Let_def same_frame_def)
    qed
  qed
qed


lemma Empty_iff: "OutputBuffer_Empty b \<longleftrightarrow> OutputBuffer_Size b = 0"
  by (simp add: OutputBuffer_Empty_def)

lemma HandleClientWrite_cases:
  assumes "opts_ok opts" "conn_inv opts (x_conn x)" "send_ok opts (x_conn x) sends"
  obtains (Idle) "HandleClientWrite opts sends x = (Inr (), x)" "conn_closed (x_conn x)"
  | (Nothing) x' where "HandleClientWrite opts sends x = (Inr (), x')" "\<not> conn_closed (x_conn x)"
      "pending (x_conn x) = 0" "conn_inv opts (x_conn x')" "x_store x' = x_store x" "same_frame x x'"
  | (Failed) x' e where "HandleClientWrite opts sends x = (Inr (), x')" "\<not> conn_closed (x_conn x)"
      "retry_eintr sends = Some (Fail e) \<or> retry_eintr sends = Some (Ret 0)"
      "x' = x \<or> x' = upd_conn MarkClosed x"
  | (Sent) x' n where "HandleClientWrite opts sends x = (Inr (), x')" "\<not> conn_closed (x_conn x)"
      "retry_eintr sends = Some (Ret n)" "0 < n" "n \<le> pending (x_conn x)"
      "pending_data (x_conn x') = drop n (pending_data (x_conn x))" "conn_inv opts (x_conn x')"
      "x_store x' = x_store x" "same_frame x x'"
      "closeAfterWrite (x_conn x) \<Longrightarrow> conn_closed (x_conn x') \<longleftrightarrow> n = pending (x_conn x)"
      "closeAfterWrite (x_conn x') \<longleftrightarrow> closeAfterWrite (x_conn x) \<and> n < pending (x_conn x)"
      "\<not> closeAfterWrite (x_conn x) \<Longrightarrow> \<not> conn_closed (x_conn x')"
proof -
  let ?conn = "x_conn x"
  have ob: "ob_inv (writeBuffer ?conn)" using assms(2) by (simp add: conn_inv_def)
  consider (idle) "conn_closed ?conn" | (empty) "\<not> conn_closed ?conn" "pending ?conn = 0"
    | (fail) e where "\<not> conn_closed ?conn" "0 < pending ?conn"
        "retry_eintr sends = Some (Fail e) \<or> retry_eintr sends = Some (Ret 0)"
    | (sent) n where "\<not> conn_closed ?conn" "0 < pending ?conn" "retry_eintr sends = Some (Ret n)" "0 < n"
        "n \<le> pending ?conn"
    using assms(3) by (cases "pending ?conn = 0")
      (fastforce simp: send_ok_def bytes_to_write_def split: option.splits sysret.splits)+
  then show thesis
  proof cases
    case idle
    then show thesis by (intro that(1)) (simp_all add: HandleClientWrite_def Let_def)
  next
    case empty
    have "conn_inv opts (x_conn (UpdateReadBackPressure opts x))"
      using assms(2) empty by (intro Update_inv [OF assms(1)] conn_inv_unpaused) (auto simp: conn_inv_def)
    then show thesis using empty assms(2)
      by (intro that(2) [of "if closeAfterWrite ?conn then upd_conn MarkClosed (UpdateReadBackPressure opts x)
            else UpdateReadBackPressure opts x"])
        (auto simp: HandleClientWrite_def Let_def Empty_iff same_frame_def)
  next
    case fail
    from fail(3) show thesis
    proof
      assume "retry_eintr sends = Some (Fail e)"
      then show thesis using fail
        by (intro that(3) [of "if e = EAGAIN \<or> e = EWOULDBLOCK then x else upd_conn MarkClosed x" e])
          (auto simp: HandleClientWrite_def Let_def Empty_iff)
    next
      assume "retry_eintr sends = Some (Ret 0)"
      then show thesis using fail
        by (intro that(3) [of "upd_conn MarkClosed x" 0]) (auto simp: HandleClientWrite_def Let_def Empty_iff)
    qed
  next
    case sent
    obtain b where b: "OutputBuffer_Consume (writeBuffer ?conn) n = Inr b" "ob_inv b"
      "OutputBuffer_Data b = drop n (pending_data ?conn)"
      using ob.consume_law [OF ob, of n] sent(5) by (auto simp: Size_Data [OF ob])
    then have size: "OutputBuffer_Size b = pending ?conn - n" using ob by (simp add: Size_Data)
    define y where "y = upd_conn (\<lambda>conn. conn\<lparr>writeBuffer := b\<rparr>) (upd_metrics (AddBytesSent n) x)"
    let ?z = "UpdateReadBackPressure opts y"
    let ?x' = "if OutputBuffer_Empty (writeBuffer (x_conn ?z)) \<and> closeAfterWrite (x_conn ?z) then upd_conn MarkClosed ?z else ?z"
    have H: "HandleClientWrite opts sends x = (Inr (), ?x')"
      using sent b by (simp add: HandleClientWrite_def Let_def Empty_iff y_def)
    have "conn_inv opts (x_conn ?x')"
    proof (cases "n = pending ?conn \<and> closeAfterWrite ?conn")
      case False
      then have "closeAfterWrite ?conn \<Longrightarrow> n < pending ?conn" using sent(5) by auto
      then have "conn_inv opts (x_conn ?z)"
        using assms(2) sent b(2) size by (intro Update_inv [OF assms(1)]) (auto simp: y_def conn_inv_def)
      then show ?thesis by simp
    qed (simp add: y_def Empty_iff size)
    then show thesis using H sent b size
      by (intro that(4) [of ?x' n]) (auto simp: Empty_iff y_def same_frame_def Size_Data)
  qed
qed

lemma HandleClientWrite_ok:
  assumes "opts_ok opts" "conn_inv opts (x_conn x)" "send_ok opts (x_conn x) sends"
  shows "\<exists>x'. HandleClientWrite opts sends x = (Inr (), x') \<and> conn_inv opts (x_conn x') \<and>
    x_store x' = x_store x \<and> same_frame x x'"
  by (cases rule: HandleClientWrite_cases [OF assms]) (use assms(2) in \<open>auto simp: same_frame_def\<close>)

text \<open>An open connection is always registered for something: the case of \<open>RefreshConnectionInterest\<close>
  that closes a connection without interests is never taken.\<close>

lemma DesiredEvents_open:
  "conn_inv opts conn \<Longrightarrow> \<not> conn_closed conn \<Longrightarrow> DesiredEvents conn \<noteq> IoEvent_None"
  by (auto simp: DesiredEvents_def conn_inv_def Empty_iff IoEvent_defs Let_def)

lemma DesiredEvents_valid:
  "conn_inv opts conn \<Longrightarrow> \<not> conn_closed conn \<Longrightarrow> 0 \<le> fd \<Longrightarrow> valid_interest fd (DesiredEvents conn)"
  by (auto simp: valid_interest_def DesiredEvents_def conn_inv_def Empty_iff Let_def HasIoEvent_def IoEvent_defs)

text \<open>What the poller holds for a connection is what the connection believes.\<close>

definition registered :: "Connection \<Rightarrow> Poller \<Rightarrow> bool" where
  "registered conn p \<longleftrightarrow> poller_registry p (conn_fd conn) = Some (registeredEvents conn)"

lemma RefreshConnectionInterest_cases:
  assumes "opts_ok opts" "conn_inv opts (x_conn x)" "poller_good (x_poller x)" "registered (x_conn x) (x_poller x)"
  obtains (Ok) x' where "RefreshConnectionInterest ctl opts x = (Inr (), x')"
      "conn_inv opts (x_conn x')" "conn_closed (x_conn x') = conn_closed (x_conn x)" "registered (x_conn x') (x_poller x')"
      "\<not> conn_closed (x_conn x') \<Longrightarrow> registeredEvents (x_conn x') = DesiredEvents (x_conn x')"
      "x_store x' = x_store x" "conn_fd (x_conn x') = conn_fd (x_conn x)" "poller_good (x_poller x')"
      "\<And>fd. fd \<noteq> conn_fd (x_conn x) \<Longrightarrow> poller_registry (x_poller x') fd = poller_registry (x_poller x) fd"
  | (Failed) x' e where "RefreshConnectionInterest ctl opts x = (Inl e, x')" "\<not> conn_closed (x_conn x)"
      "fst (Poller_Modity ctl (x_poller x) (conn_fd (x_conn x)) (DesiredEvents (x_conn x'))) = Some e"
      "conn_inv opts (x_conn x')" "\<not> conn_closed (x_conn x')" "x_store x' = x_store x"
proof (cases "conn_closed (x_conn x)")
  case True
  then show thesis using assms by (intro that(1) [of x]) (simp_all add: RefreshConnectionInterest_def)
next
  case False
  define y where "y = UpdateReadBackPressure opts x"
  have y: "conn_inv opts (x_conn y)" "\<not> conn_closed (x_conn y)" "x_poller y = x_poller x"
    "conn_fd (x_conn y) = conn_fd (x_conn x)" "registeredEvents (x_conn y) = registeredEvents (x_conn x)"
    "x_store y = x_store x"
    using assms False unfolding y_def
    by (auto intro!: Update_inv conn_inv_unpaused) (auto simp: conn_inv_def)
  have sending: "\<not> (closeAfterWrite (x_conn y) \<and> OutputBuffer_Empty (writeBuffer (x_conn y)))"
    using y(1,2) by (auto simp: conn_inv_def Empty_iff)
  have eq: "RefreshConnectionInterest ctl opts x =
      (if DesiredEvents (x_conn y) = registeredEvents (x_conn y) then (Inr (), y)
       else case Poller_Modity ctl (x_poller y) (conn_fd (x_conn y)) (DesiredEvents (x_conn y)) of
         (None, p) \<Rightarrow> (Inr (), upd_conn (\<lambda>conn. conn\<lparr>registeredEvents := DesiredEvents (x_conn y)\<rparr>) (y\<lparr>x_poller := p\<rparr>))
       | (Some e, p) \<Rightarrow> (Inl e, y\<lparr>x_poller := p\<rparr>))"
    using False sending DesiredEvents_open [OF y(1,2)]
    by (auto simp: RefreshConnectionInterest_def y_def [symmetric] Let_def split: option.split prod.split)
  show thesis
  proof (cases "DesiredEvents (x_conn y) = registeredEvents (x_conn y)")
    case True
    then show thesis using False y assms by (intro that(1) [of y]) (simp_all add: eq registered_def)
  next
    case change: False
    obtain r p where m: "Poller_Modity ctl (x_poller x) (conn_fd (x_conn x)) (DesiredEvents (x_conn y)) = (r, p)"
      by fastforce
    show thesis
    proof (cases r)
      case None
      let ?x' = "upd_conn (\<lambda>conn. conn\<lparr>registeredEvents := DesiredEvents (x_conn y)\<rparr>) (y\<lparr>x_poller := p\<rparr>)"
      have "DesiredEvents (x_conn ?x') = DesiredEvents (x_conn y)" by (simp add: DesiredEvents_def)
      moreover have "conn_inv opts (x_conn ?x')" using y(1) by (simp add: conn_inv_def)
      ultimately show thesis
        using False change m None y pl.modify_law [OF assms(3) m]
        by (intro that(1) [of ?x']) (auto simp: eq registered_def)
    next
      case (Some e)
      then show thesis using False change m y by (intro that(2) [of e "y\<lparr>x_poller := p\<rparr>"]) (auto simp: eq)
    qed
  qed
qed


section \<open>One ready event\<close>

datatype ServerState = Created | Running | Draining | Stopped

record io_results =
  io_recvs :: "string sysret list"
  io_sends :: "nat sysret list"
  io_clks :: "nat \<Rightarrow> clock_readings"

definition begin_hangup :: "ConnCtx \<Rightarrow> ConnCtx" where
  "begin_hangup x =
     (let x = upd_conn (\<lambda>conn. conn\<lparr>readPaused := True\<rparr>) x;
          x = upd_conn (\<lambda>conn. conn\<lparr>closeAfterWrite := True\<rparr>) x
      in if OutputBuffer_Empty (writeBuffer (x_conn x)) then upd_conn MarkClosed x else x)"

text \<open>The body of the loop of \<open>EventLoop\<close> over the ready client descriptors.\<close>

definition HandleReadyEvent ::
  "endianness \<Rightarrow> ctl_oracle \<Rightarrow> NetworkOptions \<Rightarrow> ServerState \<Rightarrow> IoEvent \<Rightarrow> io_results \<Rightarrow> ConnCtx \<Rightarrow> unit handled" where
  "HandleReadyEvent h ctl opts state events io x =
     (if HasIoEvent events IoEvent_Error then (Inr (), upd_conn MarkClosed x)
      else
        bind_handled
          (if state = Running \<and> HasIoEvent events IoEvent_Read
           then HandleClientRead h opts (io_recvs io) (io_clks io) x else (Inr (), x)) (\<lambda>_ x.
        bind_handled
          (if \<not> conn_closed (x_conn x) \<and> HasIoEvent events IoEvent_Write
           then HandleClientWrite opts (io_sends io) x else (Inr (), x)) (\<lambda>_ x.
        let x = (if \<not> conn_closed (x_conn x) \<and> HasIoEvent events IoEvent_Hangup then begin_hangup x else x)
        in if \<not> conn_closed (x_conn x) then RefreshConnectionInterest ctl opts x else (Inr (), x))))"

text \<open>The kernel keeps the contract of \<open>recv\<close> and \<open>send\<close> in one event, the latter for the output as it
  is after the read.\<close>

definition io_ok :: "endianness \<Rightarrow> NetworkOptions \<Rightarrow> ServerState \<Rightarrow> IoEvent \<Rightarrow> io_results \<Rightarrow> ConnCtx \<Rightarrow> bool" where
  "io_ok h opts state events io x \<longleftrightarrow>
     recv_ok opts (x_conn x) (io_recvs io) \<and>
     send_ok opts
       (x_conn (snd (if state = Running \<and> HasIoEvent events IoEvent_Read
                     then HandleClientRead h opts (io_recvs io) (io_clks io) x else (Inr (), x)))) (io_sends io)"

definition conn_ok :: "NetworkOptions \<Rightarrow> nat \<Rightarrow> ConnCtx \<Rightarrow> bool" where
  "conn_ok opts n x \<longleftrightarrow> conn_inv opts (x_conn x) \<and> store_ready n (x_store x) \<and> poller_good (x_poller x) \<and>
     registered (x_conn x) (x_poller x)"

lemma registered_frame: "same_frame x x' \<Longrightarrow> registered (x_conn x') (x_poller x') = registered (x_conn x) (x_poller x)"
  by (simp add: registered_def same_frame_def)

lemma begin_hangup_ok:
  "conn_inv opts (x_conn x) \<Longrightarrow> \<not> conn_closed (x_conn x) \<Longrightarrow>
   conn_inv opts (x_conn (begin_hangup x)) \<and> x_store (begin_hangup x) = x_store x \<and> same_frame x (begin_hangup x)"
  by (auto simp: begin_hangup_def Let_def same_frame_def conn_inv_def Empty_iff)

lemma HandleReadyEvent_ok:
  assumes opts: "opts_ok opts" and ok: "conn_ok opts (n + maxReadBufferBytes opts) x"
    and io: "io_ok h opts state events io x"
  shows "\<exists>r x'. HandleReadyEvent h ctl opts state events io x = (r, x') \<and> conn_inv opts (x_conn x') \<and>
    store_ready n (x_store x') \<and>
    (case r of
       Inr _ \<Rightarrow> conn_ok opts n x' \<and> conn_fd (x_conn x') = conn_fd (x_conn x) \<and>
         (\<forall>fd. fd \<noteq> conn_fd (x_conn x) \<longrightarrow> poller_registry (x_poller x') fd = poller_registry (x_poller x) fd) \<and>
         (\<not> conn_closed (x_conn x') \<longrightarrow> registeredEvents (x_conn x') = DesiredEvents (x_conn x') \<and>
            DesiredEvents (x_conn x') \<noteq> IoEvent_None)
     | Inl e \<Rightarrow> \<exists>ev. fst (Poller_Modity ctl (x_poller x) (conn_fd (x_conn x)) ev) = Some e)"
proof (cases "HasIoEvent events IoEvent_Error")
  case True
  have "store_ready n (x_store x)" using ok by (auto simp: conn_ok_def intro: store_ready_mono)
  then show ?thesis using True ok by (simp add: HandleReadyEvent_def conn_ok_def registered_def)
next
  case False
  let ?rd = "if state = Running \<and> HasIoEvent events IoEvent_Read
    then HandleClientRead h opts (io_recvs io) (io_clks io) x else (Inr (), x)"
  have inv: "conn_inv opts (x_conn x)" and ready: "store_ready (n + maxReadBufferBytes opts) (x_store x)"
    and good: "poller_good (x_poller x)" and reg: "registered (x_conn x) (x_poller x)" using ok by (simp_all add: conn_ok_def)
  obtain x1 where x1: "?rd = (Inr (), x1)" "conn_inv opts (x_conn x1)" "store_ready n (x_store x1)" "same_frame x x1"
  proof (cases "state = Running \<and> HasIoEvent events IoEvent_Read")
    case True
    have "recv_ok opts (x_conn x) (io_recvs io)" using io by (simp add: io_ok_def)
    from HandleClientRead_ok [OF opts inv this ready, of h "io_clks io"] show thesis using True that by auto
  next
    case False
    then show thesis using that [of x] inv store_ready_mono [OF ready, of n] by auto
  qed
  let ?wr = "if \<not> conn_closed (x_conn x1) \<and> HasIoEvent events IoEvent_Write
    then HandleClientWrite opts (io_sends io) x1 else (Inr (), x1)"
  have "send_ok opts (x_conn x1) (io_sends io)" using io x1(1) by (simp add: io_ok_def)
  from HandleClientWrite_ok [OF opts x1(2) this]
  obtain x2 where x2: "?wr = (Inr (), x2)" "conn_inv opts (x_conn x2)" "x_store x2 = x_store x1" "same_frame x1 x2"
    using x1(2) same_frame_refl [of x1] by (cases "\<not> conn_closed (x_conn x1) \<and> HasIoEvent events IoEvent_Write") auto
  define x3 where "x3 = (if \<not> conn_closed (x_conn x2) \<and> HasIoEvent events IoEvent_Hangup then begin_hangup x2 else x2)"
  have f2: "same_frame x x2" using x1(4) x2(4) by (rule same_frame_trans)
  have x3: "conn_inv opts (x_conn x3)" "x_store x3 = x_store x1" "same_frame x x3"
    using begin_hangup_ok [OF x2(2)] x2(2,3) f2 same_frame_trans [OF f2, of "begin_hangup x2"]
    by (simp_all add: x3_def)
  have eq: "HandleReadyEvent h ctl opts state events io x =
      (if \<not> conn_closed (x_conn x3) then RefreshConnectionInterest ctl opts x3 else (Inr (), x3))"
    unfolding HandleReadyEvent_def x1(1) bind_handled.simps x2(1) x3_def Let_def using False by (simp only: if_False)
  have frame: "x_poller x3 = x_poller x" "conn_fd (x_conn x3) = conn_fd (x_conn x)" "registered (x_conn x3) (x_poller x3)"
    using x3(3) reg registered_frame [OF x3(3)] by (simp_all add: same_frame_def)
  then have good3: "poller_good (x_poller x3)" using good by simp
  show ?thesis
  proof (cases "conn_closed (x_conn x3)")
    case True
    then show ?thesis using eq x3 x1(3) frame good3 by (auto simp: conn_ok_def)
  next
    case False
    from opts x3(1) good3 frame(3) show ?thesis
    proof (cases rule: RefreshConnectionInterest_cases [where ctl = ctl])
      case (Ok x')
      then show ?thesis using False eq x3 x1(3) frame DesiredEvents_open [OF Ok(2)] by (auto simp: conn_ok_def)
    next
      case (Failed x' e)
      then show ?thesis using False eq x3 x1(3) frame by auto
    qed
  qed
qed


section \<open>Serving a connection\<close>

text \<open>The responses to a list of requests, up to and including the first QUIT.\<close>

fun serve :: "KVStore \<Rightarrow> (clock_readings \<times> string) list \<Rightarrow> (string list \<times> KVStore) result" where
  "serve s [] = Inr ([], s)"
| "serve s ((clk, p) # ps) =
     bind_result (CommandExecutor_Execute s (ParseCommand p) (clk_store clk)) (\<lambda>(r, s).
       if is_quit p then Inr ([r], s)
       else bind_result (serve s ps) (\<lambda>(rs, s). Inr (r # rs, s)))"

definition is_stats :: "string \<Rightarrow> bool" where
  "is_stats payload \<longleftrightarrow> cmd_type (ParseCommand payload) = Stats"

lemma serve_returns:
  "store_ready (n + length ps) s \<Longrightarrow> \<forall>(clk, p) \<in> set ps. length p \<le> frame_limit \<and> \<not> is_stats p \<Longrightarrow>
   \<exists>rs s'. serve s ps = Inr (rs, s')"
proof (induction ps arbitrary: s)
  case (Cons cp ps)
  obtain clk p where cp: "cp = (clk, p)" by (cases cp)
  define x :: ConnCtx where "x = undefined\<lparr>x_store := s\<rparr>"
  have p: "length p \<le> frame_limit" "cmd_type (ParseCommand p) \<noteq> Stats"
    and ready: "store_ready (Suc (n + length ps)) (x_store x)"
    using Cons.prems cp by (auto simp: is_stats_def x_def)
  obtain r s1 where "CommandExecutor_Execute s (ParseCommand p) (clk_store clk) = Inr (r, s1)"
    "store_ready (n + length ps) s1"
    using payload_response_ok [OF ready p(1), of "clk_store clk"] p(2) by (auto simp: payload_response_def x_def)
  then show ?case using Cons.IH [of s1] Cons.prems(2) cp by (cases "is_quit p") auto
qed simp

lemma process_payloads_serve:
  assumes "opts_ok opts" "conn_inv opts (x_conn x)" "\<not> conn_closed (x_conn x)"
    and "store_ready (n + length ps) (x_store x)" "\<forall>(clk, p) \<in> set ps. length p \<le> frame_limit \<and> \<not> is_stats p"
  shows "\<exists>rs s' x'. serve (x_store x) ps = Inr (rs, s') \<and> process_payloads h opts ps x = (Inr (), x') \<and>
    (if pending (x_conn x) + length (concat (map wire_frame rs)) \<le> writeHardLimitBytes opts
     then \<not> conn_closed (x_conn x') \<and> x_store x' = s' \<and> readBuffer (x_conn x') = readBuffer (x_conn x) \<and>
       pending_data (x_conn x') = pending_data (x_conn x) @ concat (map wire_frame rs) \<and>
       (closeAfterWrite (x_conn x') \<longleftrightarrow> closeAfterWrite (x_conn x) \<or> (\<exists>(clk, p) \<in> set ps. is_quit p))
     else conn_closed (x_conn x') \<and> pending (x_conn x') = 0)"
  using assms(2-)
proof (induction ps arbitrary: x)
  case Nil
  have "pending (x_conn x) \<le> writeHardLimitBytes opts" using Nil.prems(1) by (simp add: conn_inv_def)
  then show ?case using Nil.prems(2) by simp
next
  case (Cons cp ps)
  obtain clk p where cp: "cp = (clk, p)" by (cases cp)
  have p: "length p \<le> frame_limit" "\<not> is_stats p" and ready: "store_ready (Suc (n + length ps)) (x_store x)"
    using Cons.prems cp by auto
  have exec: "payload_response x (clk_store clk) p = CommandExecutor_Execute (x_store x) (ParseCommand p) (clk_store clk)"
    using p(2) by (simp add: payload_response_def is_stats_def)
  have size: "pending c = length (pending_data c)" if "conn_inv opts c" for c
    using that by (simp add: conn_inv_def Size_Data)
  from assms(1) Cons.prems(1,2) ready p(1) show ?case
  proof (cases rule: ProcessPayload_cases [where clk = clk and h = h])
    case (Answered r s' x')
    note exec' = Answered(1) [unfolded exec]
    show ?thesis
    proof (cases "is_quit p")
      case True
      then show ?thesis using Answered exec' cp by auto
    next
      case False
      have pend: "pending (x_conn x') = pending (x_conn x) + 4 + length r"
        using size [OF Answered(3)] size [OF Cons.prems(1)] Answered(5) by simp
      obtain rs s'' x'' where IH: "serve (x_store x') ps = Inr (rs, s'')" "process_payloads h opts ps x' = (Inr (), x'')"
        "if pending (x_conn x') + length (concat (map wire_frame rs)) \<le> writeHardLimitBytes opts
         then \<not> conn_closed (x_conn x'') \<and> x_store x'' = s'' \<and> readBuffer (x_conn x'') = readBuffer (x_conn x') \<and>
           pending_data (x_conn x'') = pending_data (x_conn x') @ concat (map wire_frame rs) \<and>
           (closeAfterWrite (x_conn x'') \<longleftrightarrow> closeAfterWrite (x_conn x') \<or> (\<exists>(clk, p) \<in> set ps. is_quit p))
         else conn_closed (x_conn x'') \<and> pending (x_conn x'') = 0"
        using Cons.IH [of x'] Answered Cons.prems(4) by auto
      have "serve (x_store x) (cp # ps) = Inr (r # rs, s'')" using exec' IH(1) False cp Answered(6) by simp
      moreover have "process_payloads h opts (cp # ps) x = (Inr (), x'')" using Answered(2) False IH(2) cp by simp
      ultimately show ?thesis using IH(3) pend Answered(5,8,9) False cp
        by (intro exI [of _ "r # rs"] exI [of _ s''] exI [of _ x'']) (auto split: if_splits)
    qed
  next
    case (Slow r s' x')
    note exec' = Slow(1) [unfolded exec]
    obtain rs s'' where all: "serve (x_store x) (cp # ps) = Inr (r # rs, s'')"
    proof (cases "is_quit p")
      case True
      then show ?thesis using that exec' cp by simp
    next
      case False
      have "store_ready (n + length ps) s'" using payload_response_ok [OF ready p(1), of "clk_store clk"] Slow(1) by auto
      from serve_returns [OF this] obtain rs s'' where "serve s' ps = Inr (rs, s'')" using Cons.prems(4) by auto
      then show ?thesis using that exec' cp False by simp
    qed
    have "process_payloads h opts (cp # ps) x = (Inr (), x')" using Slow(2) cp by simp
    then show ?thesis using Slow(3,6) all by (intro exI [of _ "r # rs"] exI [of _ s''] exI [of _ x']) simp
  qed
qed

end
