(* ===== verification/Connection_Properties.thy ===== *)
theory Connection_Properties
  imports Connection_Model
begin

text \<open>
  Properties of one client connection: the invariant over every ready event, the responses to a batch
  of requests, back pressure, draining of the output, and the cases in which output is dropped.
\<close>

section \<open>A concrete connection for the witnesses\<close>

definition demo_ctx :: ConnCtx where
  "demo_ctx = \<lparr>x_store = KVStore_init, x_metrics = ServerMetrics_init,
     x_poller = PollBackend \<lparr>pp_interests = [(7, 1)]\<rparr>,
     x_conn = (Connection_init 7)\<lparr>registeredEvents := 1\<rparr>\<rparr>"

definition demo_clk :: clock_readings where
  "demo_clk = \<lparr>clk_begin = 0, clk_store = 1, clk_end = 2\<rparr>"

definition demo_io :: io_results where
  "demo_io = \<lparr>io_recvs = [Fail EINTR, Ret (wire_frame ''PING'')], io_sends = [Ret 0], io_clks = (\<lambda>_. demo_clk)\<rparr>"

lemma demo_opts: "opts_ok NetworkOptions_default"
  by (simp add: opts_ok_def NetworkOptions_default_def)

lemma demo_store: "n < 2 ^ 64 \<Longrightarrow> store_ready n (x_store demo_ctx)"
  by (simp add: store_ready_def store_fits_init kv_good_init demo_ctx_def)

lemma demo_inv: "conn_inv NetworkOptions_default (x_conn demo_ctx)"
  using conn_inv_init [of NetworkOptions_default 7] by (simp add: demo_ctx_def conn_inv_def)

lemma init_fd [simp]: "conn_fd (Connection_init fd) = fd"
  by (simp add: Connection_init_def)

lemma demo_ok: "n < 2 ^ 64 \<Longrightarrow> conn_ok NetworkOptions_default n demo_ctx"
  using demo_inv demo_store [of n]
  by (auto simp: conn_ok_def demo_ctx_def registered_def pp_good_def pp_registry_def um_ok_def um_find_def
      valid_interest_def HasIoEvent_def IoEvent_defs split: if_splits)

lemma demo_recv: "recv_ok NetworkOptions_default (x_conn demo_ctx) (io_recvs demo_io)"
  by (simp add: recv_ok_def demo_io_def read_size_def RECV_SIZE_def NetworkOptions_default_def demo_ctx_def
      Connection_init_def)

section \<open>Safety of every event\<close>

text \<open>Claim C7: whatever events a connection is ready for, and whatever \<open>recv\<close>, \<open>send\<close> and
  \<open>epoll_ctl\<close> return within their contracts, the handlers end in a connection that holds at most the
  hard limit of output and the read limit of input; no exception leaves them but a failure of the
  poller; and a connection that stays open is registered for exactly the events it needs, at least
  one.\<close>

theorem event_safe:
  assumes "opts_ok opts" and "conn_ok opts (n + maxReadBufferBytes opts) x" and "io_ok h opts state events io x"
  shows "\<exists>r x'. HandleReadyEvent h ctl opts state events io x = (r, x') \<and>
    OutputBuffer_Size (writeBuffer (x_conn x')) \<le> writeHardLimitBytes opts \<and>
    length (readBuffer (x_conn x')) \<le> maxReadBufferBytes opts \<and>
    (case r of
       Inr _ \<Rightarrow> conn_ok opts n x' \<and>
         (\<not> conn_closed (x_conn x') \<longrightarrow> registeredEvents (x_conn x') = DesiredEvents (x_conn x') \<and>
            DesiredEvents (x_conn x') \<noteq> IoEvent_None)
     | Inl e \<Rightarrow> \<exists>ev. fst (Poller_Modity ctl (x_poller x) (conn_fd (x_conn x)) ev) = Some e)"
proof -
  from HandleReadyEvent_ok [OF assms, of ctl] obtain r x' where
    "HandleReadyEvent h ctl opts state events io x = (r, x')" "conn_inv opts (x_conn x')"
    "case r of Inr _ \<Rightarrow> conn_ok opts n x' \<and> conn_fd (x_conn x') = conn_fd (x_conn x) \<and>
         (\<forall>fd. fd \<noteq> conn_fd (x_conn x) \<longrightarrow> poller_registry (x_poller x') fd = poller_registry (x_poller x) fd) \<and>
         (\<not> conn_closed (x_conn x') \<longrightarrow> registeredEvents (x_conn x') = DesiredEvents (x_conn x') \<and>
            DesiredEvents (x_conn x') \<noteq> IoEvent_None)
     | Inl e \<Rightarrow> \<exists>ev. fst (Poller_Modity ctl (x_poller x) (conn_fd (x_conn x)) ev) = Some e" by blast
  then show ?thesis by (intro exI [of _ r] exI [of _ x']) (auto simp: conn_inv_def split: sum.splits)
qed

theorem event_safe_witness:
  "\<exists>r x'. HandleReadyEvent LittleEndian (\<lambda>_ _ _ _. None) NetworkOptions_default Running IoEvent_Read demo_io demo_ctx = (r, x') \<and>
    OutputBuffer_Size (writeBuffer (x_conn x')) \<le> writeHardLimitBytes NetworkOptions_default"
proof -
  have ok: "conn_ok NetworkOptions_default (0 + maxReadBufferBytes NetworkOptions_default) demo_ctx"
    by (rule demo_ok) (simp add: NetworkOptions_default_def)
  have "io_ok LittleEndian NetworkOptions_default Running IoEvent_Read demo_io demo_ctx"
    using demo_recv by (simp add: io_ok_def demo_io_def send_ok_def)
  from event_safe [OF demo_opts ok this] show ?thesis by blast
qed

section \<open>Responses\<close>



section \<open>Back pressure\<close>

text \<open>Claim C33: reading is paused when the output reaches the high watermark and resumed when it has
  fallen to the low one, and between them the flag keeps its value; each change is counted once, and
  asking again changes nothing.\<close>

theorem back_pressure_hysteresis:
  assumes "writeLowWatermarkBytes opts < writeHighWatermarkBytes opts"
    and "\<not> conn_closed (x_conn x)" "\<not> closeAfterWrite (x_conn x)"
  shows "let size = OutputBuffer_Size (writeBuffer (x_conn x)); x' = UpdateReadBackPressure opts x in
    (writeHighWatermarkBytes opts \<le> size \<longrightarrow> readPaused (x_conn x')) \<and>
    (size \<le> writeLowWatermarkBytes opts \<longrightarrow> \<not> readPaused (x_conn x')) \<and>
    (writeLowWatermarkBytes opts < size \<and> size < writeHighWatermarkBytes opts \<longrightarrow>
       readPaused (x_conn x') = readPaused (x_conn x)) \<and>
    x_metrics x' = (if readPaused (x_conn x') = readPaused (x_conn x) then x_metrics x
      else if readPaused (x_conn x') then OnReadPaused (x_metrics x) else OnReadResumed (x_metrics x)) \<and>
    UpdateReadBackPressure opts x' = x'"
  using assms by (auto simp: UpdateReadBackPressure_def Let_def)

theorem back_pressure_hysteresis_witness:
  "UpdateReadBackPressure NetworkOptions_default (UpdateReadBackPressure NetworkOptions_default demo_ctx) =
     UpdateReadBackPressure NetworkOptions_default demo_ctx"
  using back_pressure_hysteresis [of NetworkOptions_default demo_ctx]
  by (simp add: NetworkOptions_default_def demo_ctx_def Connection_init_def Let_def)

section \<open>Draining the output\<close>

text \<open>Write events in which the kernel takes \<open>n\<close> bytes, or as many as it was offered: the bytes that
  left, in order, and the connection afterwards.\<close>

fun write_run :: "NetworkOptions \<Rightarrow> nat list \<Rightarrow> ConnCtx \<Rightarrow> string \<times> ConnCtx" where
  "write_run opts [] x = ([], x)"
| "write_run opts (n # ns) x =
     (let k = min n (bytes_to_write opts (x_conn x));
          x' = snd (HandleClientWrite opts [Ret k] x);
          (sent, x'') = write_run opts ns x'
      in (take k (OutputBuffer_Data (writeBuffer (x_conn x))) @ sent, x''))"

lemma write_run_closed:
  "conn_inv opts (x_conn x) \<Longrightarrow> conn_closed (x_conn x) \<Longrightarrow> write_run opts ns x = ([], x)"
proof (induction ns)
  case (Cons n ns)
  then have "pending_data (x_conn x) = []"
    by (auto simp: conn_inv_def Size_Data)
  then show ?case using Cons by (simp add: HandleClientWrite_def Let_def)
qed simp

lemma write_run_drains:
  assumes "opts_ok opts" "conn_inv opts (x_conn x)" "\<not> conn_closed (x_conn x)" "closeAfterWrite (x_conn x)"
    and "\<forall>n \<in> set ns. 0 < n" "pending (x_conn x) \<le> length ns"
  shows "\<exists>x'. write_run opts ns x = (pending_data (x_conn x), x') \<and> conn_closed (x_conn x')"
  using assms(2-)
proof (induction ns arbitrary: x)
  case Nil
  then show ?case by (simp add: conn_inv_def)
next
  case (Cons n ns)
  let ?k = "min n (bytes_to_write opts (x_conn x))"
  have k: "0 < ?k" "?k \<le> bytes_to_write opts (x_conn x)"
    using Cons.prems assms(1) by (auto simp: bytes_to_write_def conn_inv_def opts_ok_def)
  have "send_ok opts (x_conn x) [Ret ?k]" using k(2) by (simp add: send_ok_def)
  with assms(1) Cons.prems(1) show ?case
  proof (cases rule: HandleClientWrite_cases)
    case (Sent x1 m)
    then have m: "m = ?k" by simp
    have size: "pending c = length (pending_data c)" if "conn_inv opts c" for c using that by (simp add: conn_inv_def Size_Data)
    have split: "take ?k (pending_data (x_conn x)) @ pending_data (x_conn x1) = pending_data (x_conn x)"
      using Sent(6) m by simp
    show ?thesis
    proof (cases "conn_closed (x_conn x1)")
      case True
      then have "pending_data (x_conn x1) = []" using Sent(7) size [OF Sent(7)] by (simp add: conn_inv_def)
      then have "take ?k (pending_data (x_conn x)) = pending_data (x_conn x)" using split by simp
      then show ?thesis using Sent(1) m write_run_closed [OF Sent(7) True] True by (simp add: Let_def)
    next
      case False
      then have "m < pending (x_conn x)" using Sent(5,10) Cons.prems(3) by auto
      moreover have "pending (x_conn x1) < pending (x_conn x)"
        using size [OF Sent(7)] size [OF Cons.prems(1)] Sent(4,6) calculation by simp
      ultimately obtain x2 where "write_run opts ns x1 = (pending_data (x_conn x1), x2)" "conn_closed (x_conn x2)"
        using Cons.IH [OF Sent(7) False] Sent(11) Cons.prems(3-5) by auto
      then show ?thesis using Sent(1) m split by (simp add: Let_def)
    qed
  qed (use Cons.prems k in \<open>auto simp: conn_inv_def\<close>)
qed

text \<open>Claim C16: a connection that is to be closed after its output is: if the kernel takes at least one
  byte at each write event, then after as many events as there are pending bytes it is closed, and the
  bytes that left are exactly the pending output, in order.\<close>

theorem output_drains:
  assumes "opts_ok opts" "conn_inv opts (x_conn x)" "\<not> conn_closed (x_conn x)" "closeAfterWrite (x_conn x)"
    and "\<forall>n \<in> set ns. 0 < n" "OutputBuffer_Size (writeBuffer (x_conn x)) \<le> length ns"
  shows "\<exists>x'. write_run opts ns x = (OutputBuffer_Data (writeBuffer (x_conn x)), x') \<and> conn_closed (x_conn x')"
  by (rule write_run_drains [OF assms])

theorem output_drains_witness:
  "\<exists>x'. write_run NetworkOptions_default [1, 5]
      (upd_conn (\<lambda>c. c\<lparr>writeBuffer := \<lparr>m_storage = ''abc'', m_readPos = 1\<rparr>, closeAfterWrite := True\<rparr>) demo_ctx) =
    (''bc'', x') \<and> conn_closed (x_conn x')"
  using output_drains [OF demo_opts, of
    "upd_conn (\<lambda>c. c\<lparr>writeBuffer := \<lparr>m_storage = ''abc'', m_readPos = 1\<rparr>, closeAfterWrite := True\<rparr>) demo_ctx" "[1, 5]"]
  by (simp add: demo_ctx_def Connection_init_def conn_inv_def ob_defs NetworkOptions_default_def)

section \<open>Output that is dropped, and connections closed too early\<close>

text \<open>Claim C40: when the peer half-closes its side, the responses it has not received yet are dropped:
  \<open>HandleClientRead\<close> marks the connection closed before it looks at the output, so that the case of
  output still to be flushed is never seen.\<close>

theorem half_close_drops_output:
  assumes "\<not> conn_closed (x_conn x)" "\<not> readPaused (x_conn x)" "\<not> closeAfterWrite (x_conn x)"
    and "length (readBuffer (x_conn x)) < maxReadBufferBytes opts"
  shows "\<exists>x'. HandleClientRead h opts (Ret [] # returns) clks x = (Inr (), x') \<and> conn_closed (x_conn x') \<and>
    OutputBuffer_Data (writeBuffer (x_conn x')) = []"
  using assms by (simp add: HandleClientRead_def Let_def)

theorem half_close_drops_output_witness:
  "\<exists>x'. HandleClientRead LittleEndian NetworkOptions_default [Ret []] (\<lambda>_. demo_clk)
      (upd_conn (\<lambda>c. c\<lparr>writeBuffer := \<lparr>m_storage = ''+PONG'', m_readPos = 0\<rparr>\<rparr>) demo_ctx) = (Inr (), x') \<and>
    conn_closed (x_conn x') \<and> OutputBuffer_Data (writeBuffer (x_conn x')) = []"
  by (rule half_close_drops_output)
    (simp_all add: demo_ctx_def Connection_init_def NetworkOptions_default_def)

text \<open>With a high watermark of zero, which the configuration accepts, a connection that has
  sent all its output is closed by the next refresh of its interests: reading is paused on an empty
  output, no event is left to wait for.\<close>

theorem zero_watermark_closes:
  assumes "writeHighWatermarkBytes opts = 0" "\<not> conn_closed (x_conn x)" "\<not> closeAfterWrite (x_conn x)"
    and "\<not> readPaused (x_conn x)" "OutputBuffer_Size (writeBuffer (x_conn x)) = 0"
  shows "\<exists>x'. RefreshConnectionInterest ctl opts x = (Inr (), x') \<and> conn_closed (x_conn x')"
  using assms by (auto simp: RefreshConnectionInterest_def UpdateReadBackPressure_def DesiredEvents_def Let_def
      Empty_iff IoEvent_defs)

theorem zero_watermark_closes_witness:
  "\<exists>x'. RefreshConnectionInterest (\<lambda>_ _ _ _. None)
      (NetworkOptions_default\<lparr>writeHighWatermarkBytes := 0, writeLowWatermarkBytes := 0\<rparr>) demo_ctx = (Inr (), x') \<and>
    conn_closed (x_conn x')"
  by (rule zero_watermark_closes)
    (simp_all add: demo_ctx_def Connection_init_def OutputBuffer_Size_def OutputBuffer_init_def)

text \<open>With the default read limit, the rejection of a full read buffer never happens: what an
  open connection that reads has buffered is an incomplete frame, which is shorter than the limit.\<close>

theorem read_buffer_never_full:
  assumes "conn_inv opts (x_conn x)" "DesiredEvents (x_conn x) AND IoEvent_Read \<noteq> 0"
    and "1024 * 1024 + 4 \<le> maxReadBufferBytes opts"
  shows "length (readBuffer (x_conn x)) < maxReadBufferBytes opts"
proof -
  have "incomplete (readBuffer (x_conn x))"
    using assms(1,2) by (auto simp: conn_inv_def DesiredEvents_def Let_def IoEvent_defs split: if_splits)
  from incomplete_bound [OF this] show ?thesis using assms(3) by (simp add: frame_limit_def)
qed

theorem read_buffer_never_full_witness:
  "length (readBuffer (x_conn demo_ctx)) < maxReadBufferBytes NetworkOptions_default"
  by (rule read_buffer_never_full [OF demo_inv])
    (simp_all add: DesiredEvents_def demo_ctx_def Connection_init_def Let_def IoEvent_defs OutputBuffer_Empty_def
      OutputBuffer_Size_def OutputBuffer_init_def NetworkOptions_default_def)

end

