(* ===== verification/Scoped_Fd.thy ===== *)
theory Scoped_Fd
  imports Prelude
begin

text \<open>
  Ownership of file descriptors (\<^verbatim>\<open>src/net/scoped_fd.cpp\<close>).  A \<open>ScopedFd\<close> is its member \<open>m_fd\<close>; a method
  that may close a descriptor also takes and returns the log of the \<open>close\<close> calls.  Programs over any
  number of \<open>ScopedFd\<close> objects are sequences of constructor, assignment, method and destructor calls;
  the ledger shows that each descriptor handed to an object is closed exactly once, or given back by
  \<open>Release\<close>, or still held.
\<close>

section \<open>The methods\<close>

definition INVALID_FD :: int where "INVALID_FD = - 1"

definition ScopedFd_Valid :: "int \<Rightarrow> bool" where
  "ScopedFd_Valid m_fd \<longleftrightarrow> m_fd \<ge> 0"

text \<open>The value returned and the member afterwards.\<close>

definition ScopedFd_Release :: "int \<Rightarrow> int \<times> int" where
  "ScopedFd_Release m_fd = (let oldFd = m_fd; m_fd = INVALID_FD in (oldFd, m_fd))"

definition ScopedFd_Reset :: "int \<Rightarrow> int \<Rightarrow> int list \<Rightarrow> int \<times> int list" where
  "ScopedFd_Reset newFd m_fd closed =
     (if m_fd = newFd then (m_fd, closed)
      else
        let closed = (if m_fd \<ge> 0 then closed @ [m_fd] else closed)
        in (newFd, closed))"

definition ScopedFd_destroy :: "int \<Rightarrow> int list \<Rightarrow> int \<times> int list" where
  "ScopedFd_destroy m_fd closed = ScopedFd_Reset INVALID_FD m_fd closed"

lemmas ScopedFd_defs = INVALID_FD_def ScopedFd_Valid_def ScopedFd_Release_def ScopedFd_Reset_def ScopedFd_destroy_def

section \<open>Programs over several objects\<close>

text \<open>The members of the objects constructed so far, the descriptors closed, those given back to the
  caller by \<open>Release\<close>, and those handed to the objects.\<close>

record FdWorld =
  fw_objects :: "int list"
  fw_closed :: "int list"
  fw_released :: "int list"
  fw_handed :: "int list"

definition FdWorld_init :: FdWorld where
  "FdWorld_init = \<lparr>fw_objects = [], fw_closed = [], fw_released = [], fw_handed = []\<rparr>"

datatype fd_op =
    Construct int
  | MoveConstruct nat
  | MoveAssign nat nat
  | Release nat
  | Reset nat int
  | Destroy nat

definition handing :: "int \<Rightarrow> int list \<Rightarrow> int list" where
  "handing fd fds = (if fd \<ge> 0 then fds @ [fd] else fds)"

fun fd_step :: "fd_op \<Rightarrow> FdWorld \<Rightarrow> FdWorld" where
  "fd_step (Construct fd) w =
     w\<lparr>fw_objects := fw_objects w @ [fd], fw_handed := handing fd (fw_handed w)\<rparr>"
| "fd_step (MoveConstruct other) w =
     (let (oldFd, m_fd) = ScopedFd_Release (fw_objects w ! other)
      in w\<lparr>fw_objects := (fw_objects w)[other := m_fd] @ [oldFd]\<rparr>)"
| "fd_step (MoveAssign this other) w =
     (if this \<noteq> other then
        let (oldFd, other_fd) = ScopedFd_Release (fw_objects w ! other);
            objects = (fw_objects w)[other := other_fd];
            (m_fd, closed) = ScopedFd_Reset oldFd (objects ! this) (fw_closed w)
        in w\<lparr>fw_objects := objects[this := m_fd], fw_closed := closed\<rparr>
      else w)"
| "fd_step (Release this) w =
     (let (oldFd, m_fd) = ScopedFd_Release (fw_objects w ! this)
      in w\<lparr>fw_objects := (fw_objects w)[this := m_fd], fw_released := handing oldFd (fw_released w)\<rparr>)"
| "fd_step (Reset this newFd) w =
     (let (m_fd, closed) = ScopedFd_Reset newFd (fw_objects w ! this) (fw_closed w)
      in w\<lparr>fw_objects := (fw_objects w)[this := m_fd], fw_closed := closed,
           fw_handed := (if newFd = fw_objects w ! this then fw_handed w else handing newFd (fw_handed w))\<rparr>)"
| "fd_step (Destroy this) w =
     (let (m_fd, closed) = ScopedFd_destroy (fw_objects w ! this) (fw_closed w)
      in w\<lparr>fw_objects := (fw_objects w)[this := m_fd], fw_closed := closed\<rparr>)"

fun fd_run :: "fd_op list \<Rightarrow> FdWorld \<Rightarrow> FdWorld" where
  "fd_run [] w = w"
| "fd_run (op # ops) w = fd_run ops (fd_step op w)"

text \<open>The contract of the callers: an operation names objects that have been constructed, and a
  descriptor handed to an object is not owned by another one, as the kernel does not give out a
  descriptor that is open.\<close>

definition unowned :: "int \<Rightarrow> int list \<Rightarrow> bool" where
  "unowned fd fds \<longleftrightarrow> fd < 0 \<or> fd \<notin> set fds"

fun fd_op_ok :: "FdWorld \<Rightarrow> fd_op \<Rightarrow> bool" where
  "fd_op_ok w (Construct fd) \<longleftrightarrow> unowned fd (fw_objects w)"
| "fd_op_ok w (MoveConstruct other) \<longleftrightarrow> other < length (fw_objects w)"
| "fd_op_ok w (MoveAssign this other) \<longleftrightarrow> this < length (fw_objects w) \<and> other < length (fw_objects w)"
| "fd_op_ok w (Release this) \<longleftrightarrow> this < length (fw_objects w)"
| "fd_op_ok w (Reset this newFd) \<longleftrightarrow> this < length (fw_objects w) \<and>
     (newFd = fw_objects w ! this \<or> unowned newFd (fw_objects w))"
| "fd_op_ok w (Destroy this) \<longleftrightarrow> this < length (fw_objects w)"

fun fd_program_ok :: "FdWorld \<Rightarrow> fd_op list \<Rightarrow> bool" where
  "fd_program_ok w [] \<longleftrightarrow> True"
| "fd_program_ok w (op # ops) \<longleftrightarrow> fd_op_ok w op \<and> fd_program_ok (fd_step op w) ops"

section \<open>The ledger\<close>

definition real_fds :: "int list \<Rightarrow> int multiset" where
  "real_fds fds = filter_mset (\<lambda>fd. 0 \<le> fd) (mset fds)"

definition balanced :: "FdWorld \<Rightarrow> bool" where
  "balanced w \<longleftrightarrow> mset (fw_handed w) =
     real_fds (fw_objects w) + mset (fw_closed w) + mset (fw_released w)"

lemma real_fds_simps [simp]:
  "real_fds [] = {#}" "real_fds (xs @ ys) = real_fds xs + real_fds ys"
  "real_fds (fd # xs) = (if 0 \<le> fd then {#fd#} else {#}) + real_fds xs"
  by (simp_all add: real_fds_def)

lemma mset_handing [simp]: "mset (handing fd fds) = real_fds [fd] + mset fds"
  by (simp add: handing_def)

text \<open>Storing a descriptor into an object replaces the one it held.\<close>

lemma real_fds_update:
  assumes "i < length fds"
  shows "real_fds (fds[i := fd]) + real_fds [fds ! i] = real_fds fds + real_fds [fd]"
proof -
  have "fds = take i fds @ fds ! i # drop (Suc i) fds" using assms by (simp add: id_take_nth_drop)
  then have "real_fds fds = real_fds (take i fds) + real_fds [fds ! i] + real_fds (drop (Suc i) fds)"
    by (metis append.assoc append_Cons append_Nil real_fds_simps(2))
  moreover have "real_fds (fds[i := fd]) = real_fds (take i fds) + real_fds [fd] + real_fds (drop (Suc i) fds)"
    using assms by (simp add: upd_conv_take_nth_drop)
  ultimately show ?thesis by (simp add: ac_simps)
qed

lemma mset_Reset:
  "ScopedFd_Reset newFd m_fd closed = (m, c) \<Longrightarrow>
   m = newFd \<and> (if m_fd = newFd then c = closed else mset c = mset closed + real_fds [m_fd])"
  by (auto simp: ScopedFd_Reset_def Let_def split: if_splits)

lemma count_real_fds: "0 \<le> fd \<Longrightarrow> count (real_fds fds) fd = count_list fds fd"
  by (simp add: real_fds_def count_mset)

text \<open>No two objects hold the same descriptor.\<close>

definition sole_owners :: "int list \<Rightarrow> bool" where
  "sole_owners fds \<longleftrightarrow> (\<forall>i < length fds. \<forall>j < length fds. fds ! i = fds ! j \<and> 0 \<le> fds ! i \<longrightarrow> i = j)"

lemma sole_owners_append: "sole_owners fds \<Longrightarrow> unowned fd fds \<Longrightarrow> sole_owners (fds @ [fd])"
  by (auto simp: sole_owners_def unowned_def nth_append less_Suc_eq)

lemma sole_owners_update:
  assumes "sole_owners fds" "unowned fd fds"
  shows "sole_owners (fds[i := fd])"
proof (unfold sole_owners_def, intro allI impI, elim conjE)
  fix a b
  assume ab: "a < length (fds[i := fd])" "b < length (fds[i := fd])" "fds[i := fd] ! a = fds[i := fd] ! b"
    "0 \<le> fds[i := fd] ! a"
  then have "a = i \<Longrightarrow> fd \<notin> set fds" "b = i \<Longrightarrow> fd \<notin> set fds" using assms(2) by (auto simp: unowned_def)
  then show "a = b" using ab assms(1) by (cases "a = i"; cases "b = i") (auto simp: sole_owners_def)
qed

lemma unowned_taken:
  "sole_owners fds \<Longrightarrow> i < length fds \<Longrightarrow> unowned (fds ! i) (fds[i := INVALID_FD])"
  by (auto simp: sole_owners_def unowned_def in_set_conv_nth nth_list_update INVALID_FD_def split: if_splits)

lemma unowned_invalid [simp]: "unowned INVALID_FD fds"
  by (simp add: unowned_def INVALID_FD_def)

lemma taken_step:
  assumes "sole_owners fds" "i < length fds"
  shows "real_fds (fds[i := INVALID_FD]) + real_fds [fds ! i] = real_fds fds" "sole_owners (fds[i := INVALID_FD])"
  using real_fds_update [OF assms(2), of INVALID_FD] assms sole_owners_update [of fds INVALID_FD i]
  by (simp_all add: INVALID_FD_def unowned_def)

lemma Reset_step:
  assumes "sole_owners fds" "i < length fds" "fd = fds ! i \<or> unowned fd fds"
    and "ScopedFd_Reset fd (fds ! i) closed = (m, c)"
  shows "m = fd" "sole_owners (fds[i := fd])"
    "real_fds (fds[i := fd]) + mset c = real_fds fds + mset closed + (if fd = fds ! i then {#} else real_fds [fd])"
  using real_fds_update [OF assms(2), of fd] mset_Reset [OF assms(4)] assms(1,3) sole_owners_update [of fds fd i]
  by (auto split: if_splits)

definition fd_world_ok :: "FdWorld \<Rightarrow> bool" where
  "fd_world_ok w \<longleftrightarrow> balanced w \<and> sole_owners (fw_objects w)"

lemma fd_step_ok:
  assumes "fd_world_ok w" "fd_op_ok w op"
  shows "fd_world_ok (fd_step op w)"
proof -
  have bal: "mset (fw_handed w) = real_fds (fw_objects w) + mset (fw_closed w) + mset (fw_released w)"
    and sole: "sole_owners (fw_objects w)" using assms(1) by (simp_all add: fd_world_ok_def balanced_def)
  show ?thesis
  proof (cases op)
    case (Construct fd)
    then show ?thesis using bal sole assms(2) sole_owners_append [OF sole] by (simp add: fd_world_ok_def balanced_def)
  next
    case (MoveConstruct other)
    then have len: "other < length (fw_objects w)" using assms(2) by simp
    from MoveConstruct show ?thesis
      using bal taken_step [OF sole len] sole_owners_append [OF taken_step(2) unowned_taken, OF sole len sole len]
      by (auto simp: fd_world_ok_def balanced_def ScopedFd_Release_def Let_def)
  next
    case (MoveAssign this other)
    show ?thesis
    proof (cases "this = other")
      case True
      then show ?thesis using MoveAssign assms(1) by simp
    next
      case False
      have len: "other < length (fw_objects w)" "this < length ((fw_objects w)[other := INVALID_FD])"
        using MoveAssign assms(2) by simp_all
      let ?fd = "fw_objects w ! other" and ?objs = "(fw_objects w)[other := INVALID_FD]"
      obtain m c where r: "ScopedFd_Reset ?fd (?objs ! this) (fw_closed w) = (m, c)" by fastforce
      note reset = Reset_step [OF taken_step(2) [OF sole len(1)] len(2) _ r]
      have free: "?fd = ?objs ! this \<or> unowned ?fd ?objs" using unowned_taken [OF sole len(1)] by simp
      have "?fd = ?objs ! this \<Longrightarrow> real_fds [?fd] = {#}"
        using unowned_taken [OF sole len(1)] nth_mem [OF len(2)] by (auto simp: unowned_def)
      then show ?thesis
        using MoveAssign False bal r reset [OF free] taken_step(1) [OF sole len(1)]
        by (auto simp: fd_world_ok_def balanced_def ScopedFd_Release_def Let_def ac_simps split: if_splits)
    qed
  next
    case (Release this)
    then have len: "this < length (fw_objects w)" using assms(2) by simp
    from Release show ?thesis using bal taken_step [OF sole len]
      by (auto simp: fd_world_ok_def balanced_def ScopedFd_Release_def Let_def)
  next
    case (Reset this newFd)
    obtain m c where r: "ScopedFd_Reset newFd (fw_objects w ! this) (fw_closed w) = (m, c)" by fastforce
    from Reset show ?thesis using bal r Reset_step [OF sole _ _ r] assms(2)
      by (auto simp: fd_world_ok_def balanced_def ac_simps split: if_splits)
  next
    case (Destroy this)
    then have len: "this < length (fw_objects w)" using assms(2) by simp
    obtain m c where r: "ScopedFd_Reset INVALID_FD (fw_objects w ! this) (fw_closed w) = (m, c)" by fastforce
    have "real_fds [INVALID_FD] = {#}" by (simp add: INVALID_FD_def)
    then show ?thesis using Destroy bal r Reset_step [OF sole len disjI2 [OF unowned_invalid] r]
      by (simp add: fd_world_ok_def balanced_def ScopedFd_destroy_def ac_simps)
  qed
qed

lemma fd_run_ok: "fd_world_ok w \<Longrightarrow> fd_program_ok w ops \<Longrightarrow> fd_world_ok (fd_run ops w)"
  by (induction ops arbitrary: w) (simp_all add: fd_step_ok)

lemma fd_world_init: "fd_world_ok FdWorld_init"
  by (simp add: fd_world_ok_def balanced_def sole_owners_def FdWorld_init_def)

text \<open>Claim C28: after any sequence of constructions, moves, assignments (to itself too), \<open>Release\<close>,
  \<open>Reset\<close> and destructions, every descriptor that was handed to an object has been closed exactly once,
  or given back exactly once, or is held by exactly one object.\<close>

theorem scoped_fd_ledger:
  assumes "fd_program_ok FdWorld_init ops" and "w = fd_run ops FdWorld_init"
  shows "mset (fw_handed w) =
    filter_mset (\<lambda>fd. 0 \<le> fd) (mset (fw_objects w)) + mset (fw_closed w) + mset (fw_released w) \<and>
    (\<forall>i < length (fw_objects w). \<forall>j < length (fw_objects w).
       fw_objects w ! i = fw_objects w ! j \<and> 0 \<le> fw_objects w ! i \<longrightarrow> i = j)"
  using fd_run_ok [OF fd_world_init assms(1)] assms(2)
  by (simp add: fd_world_ok_def balanced_def real_fds_def sole_owners_def)

theorem scoped_fd_ledger_witness:
  "let w = fd_run [Construct 3, Construct 4, MoveAssign 0 1, MoveAssign 0 0, Reset 0 4, Release 0, Construct 5, Destroy 2]
      FdWorld_init
   in mset (fw_handed w) =
    filter_mset (\<lambda>fd. 0 \<le> fd) (mset (fw_objects w)) + mset (fw_closed w) + mset (fw_released w)"
proof -
  have "fd_program_ok FdWorld_init
    [Construct 3, Construct 4, MoveAssign 0 1, MoveAssign 0 0, Reset 0 4, Release 0, Construct 5, Destroy 2]"
    by (simp add: FdWorld_init_def unowned_def ScopedFd_defs Let_def handing_def)
  from scoped_fd_ledger [OF this refl] show ?thesis by (simp only: Let_def)
qed

end
