(* ===== verification/Socket_Util.thy ===== *)
theory Socket_Util
  imports Scoped_Fd Io_Poller
begin

text \<open>
  Socket helpers (\<^verbatim>\<open>src/net/socket_util.cpp\<close>).  The flags of the open descriptors are a state of the
  kernel, the errors of the system calls are arguments, and a function that creates a socket returns
  the log of the \<open>close\<close> calls made by the \<open>ScopedFd\<close> that owns it.  \<open>inet_pton\<close> is a parameter: the
  address of a text, if it is one.
\<close>

section \<open>Descriptor flags\<close>

record FdFlags =
  status_flags :: "int \<Rightarrow> u32"
  descriptor_flags :: "int \<Rightarrow> u32"

datatype fcntl_cmd = F_GETFL | F_SETFL | F_GETFD | F_SETFD

text \<open>The error of an \<open>fcntl\<close> call, if it fails.\<close>

type_synonym fcntl_oracle = "fcntl_cmd \<Rightarrow> int \<Rightarrow> int option"

definition O_NONBLOCK :: u32 where "O_NONBLOCK = push_bit 11 1"
definition FD_CLOEXEC :: u32 where "FD_CLOEXEC = 1"

definition SetNonBlocking :: "fcntl_oracle \<Rightarrow> int \<Rightarrow> FdFlags \<Rightarrow> FdFlags result" where
  "SetNonBlocking fcntl fd k =
     (case fcntl F_GETFL fd of
        Some errno \<Rightarrow> Inl (SystemError ''fcntl(F_GETFL) failed'' errno)
      | None \<Rightarrow>
          let flags = status_flags k fd
          in case fcntl F_SETFL fd of
               Some errno \<Rightarrow> Inl (SystemError ''fcntl(F_SETFL) failed'' errno)
             | None \<Rightarrow> Inr (k\<lparr>status_flags := (status_flags k)(fd := flags OR O_NONBLOCK)\<rparr>))"

definition SetCloseOnExec :: "fcntl_oracle \<Rightarrow> int \<Rightarrow> FdFlags \<Rightarrow> FdFlags result" where
  "SetCloseOnExec fcntl fd k =
     (case fcntl F_GETFD fd of
        Some errno \<Rightarrow> Inl (SystemError ''fcntl(F_GETFL) failed'' errno)
      | None \<Rightarrow>
          let flags = descriptor_flags k fd
          in case fcntl F_SETFD fd of
               Some errno \<Rightarrow> Inl (SystemError ''fcntl(F_SETFL) failed'' errno)
             | None \<Rightarrow> Inr (k\<lparr>descriptor_flags := (descriptor_flags k)(fd := flags OR FD_CLOEXEC)\<rparr>))"

text \<open>What the server asks of every socket it serves.\<close>

definition nonblocking :: "FdFlags \<Rightarrow> int \<Rightarrow> bool" where
  "nonblocking k fd \<longleftrightarrow> status_flags k fd AND O_NONBLOCK = O_NONBLOCK"

definition close_on_exec :: "FdFlags \<Rightarrow> int \<Rightarrow> bool" where
  "close_on_exec k fd \<longleftrightarrow> descriptor_flags k fd AND FD_CLOEXEC = FD_CLOEXEC"

lemma or_and_self: "((w :: u32) OR v) AND v = v"
  by (rule bit_word_eqI) (auto simp: bit_simps)

lemma SetNonBlocking_sets:
  "SetNonBlocking fcntl fd k = Inr k' \<Longrightarrow> nonblocking k' fd \<and> (\<forall>fd'. nonblocking k fd' \<longrightarrow> nonblocking k' fd') \<and>
    descriptor_flags k' = descriptor_flags k"
  by (auto simp: SetNonBlocking_def nonblocking_def or_and_self Let_def split: option.splits)

lemma SetCloseOnExec_sets:
  "SetCloseOnExec fcntl fd k = Inr k' \<Longrightarrow> close_on_exec k' fd \<and> (\<forall>fd'. close_on_exec k fd' \<longrightarrow> close_on_exec k' fd') \<and>
    status_flags k' = status_flags k"
  by (auto simp: SetCloseOnExec_def close_on_exec_def or_and_self Let_def split: option.splits)

section \<open>Creating sockets\<close>

text \<open>The outcomes of the system calls of one attempt.\<close>

record socket_calls =
  sc_socket :: "int sysret"
  sc_setsockopt :: "int option"
  sc_pton_errno :: int
  sc_bind :: "int option"
  sc_listen :: "int option"
  sc_connect :: "int option"

text \<open>What the kernel has been told about a socket.\<close>

record SocketState =
  sock_fd :: int
  sock_reuse :: bool
  sock_local :: "(u32 \<times> 16 word) option"
  sock_backlog :: "int option"
  sock_peer :: "(u32 \<times> 16 word) option"

definition fresh_socket :: "int \<Rightarrow> SocketState" where
  "fresh_socket fd = \<lparr>sock_fd = fd, sock_reuse = False, sock_local = None, sock_backlog = None, sock_peer = None\<rparr>"

text \<open>A failing step throws; the \<open>ScopedFd\<close> of the socket closes it.\<close>

definition throw_closing :: "int \<Rightarrow> string \<Rightarrow> int \<Rightarrow> SocketState result \<times> int list" where
  "throw_closing socketFd message errno =
     (Inl (SystemError message errno), snd (ScopedFd_destroy socketFd []))"

definition CreateListenSocket ::
  "(string \<Rightarrow> u32 option) \<Rightarrow> socket_calls \<Rightarrow> string \<Rightarrow> int \<Rightarrow> int \<Rightarrow> SocketState result \<times> int list" where
  "CreateListenSocket inet_pton calls host port backlog =
     (case sc_socket calls of
        Fail errno \<Rightarrow> (Inl (SystemError ''socket() failed'' errno), [])
      | Ret fd \<Rightarrow>
          let s = fresh_socket fd
          in case sc_setsockopt calls of
               Some errno \<Rightarrow> throw_closing fd ''setsockopt(SO_REUSEADDR) failed'' errno
             | None \<Rightarrow>
                 let s = s\<lparr>sock_reuse := True\<rparr>
                 in case inet_pton host of
                      None \<Rightarrow> throw_closing fd ''inet_pton() failed'' (sc_pton_errno calls)
                    | Some addr \<Rightarrow>
                        case sc_bind calls of
                          Some errno \<Rightarrow> throw_closing fd ''bind() failed'' errno
                        | None \<Rightarrow>
                            let s = s\<lparr>sock_local := Some (addr, of_int port)\<rparr>
                            in case sc_listen calls of
                                 Some errno \<Rightarrow> throw_closing fd ''listen() failed'' errno
                               | None \<Rightarrow> (Inr (s\<lparr>sock_backlog := Some backlog\<rparr>), []))"

definition ConnectToServer ::
  "(string \<Rightarrow> u32 option) \<Rightarrow> socket_calls \<Rightarrow> string \<Rightarrow> int \<Rightarrow> SocketState result \<times> int list" where
  "ConnectToServer inet_pton calls host port =
     (case sc_socket calls of
        Fail errno \<Rightarrow> (Inl (SystemError ''socket() failed'' errno), [])
      | Ret fd \<Rightarrow>
          case inet_pton host of
            None \<Rightarrow> throw_closing fd ''inet_pton() failed'' (sc_pton_errno calls)
          | Some addr \<Rightarrow>
              case sc_connect calls of
                Some errno \<Rightarrow> throw_closing fd ''connect() failed'' errno
              | None \<Rightarrow> (Inr ((fresh_socket fd)\<lparr>sock_peer := Some (addr, of_int port)\<rparr>), []))"

text \<open>A socket is returned and left open, or an exception is thrown and what was opened is closed.\<close>

lemma listen_socket_cases:
  assumes "CreateListenSocket inet_pton calls host port backlog = (r, closed)"
    and "\<And>fd. sc_socket calls = Ret fd \<Longrightarrow> 0 \<le> fd"
  shows "case r of
      Inr s \<Rightarrow> closed = [] \<and> sc_socket calls = Ret (sock_fd s) \<and> sock_reuse s \<and> sock_backlog s = Some backlog \<and>
        (\<exists>addr. inet_pton host = Some addr \<and> sock_local s = Some (addr, of_int port))
    | Inl e \<Rightarrow> is_std_exception e \<and> closed = (case sc_socket calls of Fail errno \<Rightarrow> [] | Ret fd \<Rightarrow> [fd])"
  using assms
  by (auto simp: CreateListenSocket_def throw_closing_def fresh_socket_def Let_def ScopedFd_defs
      split: sysret.splits option.splits)

end
