(* ===== verification/Wakeup_Channel.thy ===== *)
theory Wakeup_Channel
  imports Socket_Util
begin

text \<open>
  Waking an event loop (\<^verbatim>\<open>src/net/wakeup\<close>): the channel, whose read end is registered with a poller, and
  the handler that turns SIGINT and SIGTERM into a byte on it.  The bytes waiting in the channel are a
  count; the returns of \<open>write\<close> and \<open>read\<close> are arguments, with the kernel's contract as a predicate.
\<close>

section \<open>The channel\<close>

record WakeupChannel =
  wk_readFd :: int
  wk_writeFd :: int
  wk_queue :: nat

text \<open>The constructor: the pair of sockets, closed again when one of them cannot be set up.\<close>

definition WakeupChannel_init ::
  "(int \<times> int) sysret \<Rightarrow> fcntl_oracle \<Rightarrow> FdFlags \<Rightarrow> (WakeupChannel \<times> FdFlags) result \<times> int list" where
  "WakeupChannel_init pair fcntl k =
     (case pair of
        Fail errno \<Rightarrow> (Inl (SystemError ''socketpair failed'' errno), [])
      | Ret (readFd, writeFd) \<Rightarrow>
          case bind_result (SetNonBlocking fcntl readFd k) (\<lambda>k.
               bind_result (SetNonBlocking fcntl writeFd k) (\<lambda>k.
               bind_result (SetCloseOnExec fcntl readFd k) (\<lambda>k.
               SetCloseOnExec fcntl writeFd k))) of
            Inl e \<Rightarrow> (Inl e, snd (ScopedFd_destroy readFd (snd (ScopedFd_destroy writeFd []))))
          | Inr k \<Rightarrow> (Inr (\<lparr>wk_readFd = readFd, wk_writeFd = writeFd, wk_queue = 0\<rparr>, k), []))"

text \<open>\<open>write\<close> of one byte is retried when interrupted; every other outcome ends the loop.  \<open>None\<close> when
  the listed returns are used up.\<close>

fun Notify :: "nat sysret list \<Rightarrow> WakeupChannel \<Rightarrow> WakeupChannel option" where
  "Notify [] w = None"
| "Notify (Ret written # rs) w =
     (if written = 1 then Some (w\<lparr>wk_queue := wk_queue w + 1\<rparr>) else Some w)"
| "Notify (Fail errno # rs) w =
     (if errno = EINTR then Notify rs w
      else if errno = EAGAIN \<or> errno = EWOULDBLOCK then Some w
      else Some w)"

definition DRAIN_SIZE :: nat where "DRAIN_SIZE = 256"

text \<open>\<open>read\<close> takes bytes until it reports that none are left.\<close>

fun Drain :: "nat sysret list \<Rightarrow> WakeupChannel \<Rightarrow> (unit result \<times> WakeupChannel) option" where
  "Drain [] w = None"
| "Drain (Ret received # rs) w =
     (if received > 0 then Drain rs (w\<lparr>wk_queue := wk_queue w - received\<rparr>) else Some (Inr (), w))"
| "Drain (Fail errno # rs) w =
     (if errno = EINTR then Drain rs w
      else if errno = EAGAIN \<or> errno = EWOULDBLOCK then Some (Inr (), w)
      else Some (Inl (SystemError ''wakeup channel read failed'' errno), w))"

text \<open>The kernel's contract, for a channel with room for \<open>cap\<close> bytes whose other end is open: a
  non-blocking \<open>write\<close> fails with \<open>EAGAIN\<close> only when the channel is full, and a non-blocking \<open>read\<close>
  takes what is there up to the size asked for and fails with \<open>EAGAIN\<close> only when there is nothing.\<close>

fun write_returns_ok :: "nat \<Rightarrow> nat sysret list \<Rightarrow> nat \<Rightarrow> bool" where
  "write_returns_ok cap [] q \<longleftrightarrow> False"
| "write_returns_ok cap (Ret n # rs) q \<longleftrightarrow> n = 1 \<and> q < cap"
| "write_returns_ok cap (Fail e # rs) q \<longleftrightarrow>
     (if e = EINTR then write_returns_ok cap rs q else e = EAGAIN \<and> cap \<le> q)"

fun read_returns_ok :: "nat sysret list \<Rightarrow> nat \<Rightarrow> bool" where
  "read_returns_ok [] q \<longleftrightarrow> False"
| "read_returns_ok (Ret n # rs) q \<longleftrightarrow> 0 < n \<and> n = min DRAIN_SIZE q \<and> read_returns_ok rs (q - n)"
| "read_returns_ok (Fail e # rs) q \<longleftrightarrow>
     (if e = EINTR then read_returns_ok rs q else e = EAGAIN \<and> q = 0)"

text \<open>The end of the channel: its members are destroyed in the reverse order of their declaration.\<close>

definition WakeupChannel_destroy :: "WakeupChannel \<Rightarrow> int list \<Rightarrow> int list" where
  "WakeupChannel_destroy w closed =
     snd (ScopedFd_destroy (wk_readFd w) (snd (ScopedFd_destroy (wk_writeFd w) closed)))"

section \<open>The contract of a wakeup\<close>

text \<open>A sequence of calls of an operation that wakes, and the sequences whose calls all meet a condition.\<close>

fun wake_all :: "('r \<Rightarrow> 'w \<Rightarrow> 'w option) \<Rightarrow> 'r list \<Rightarrow> 'w \<Rightarrow> 'w option" where
  "wake_all wake [] w = Some w"
| "wake_all wake (r # rs) w = Option.bind (wake r w) (wake_all wake rs)"

fun wake_ok :: "('r \<Rightarrow> 'w \<Rightarrow> 'w option) \<Rightarrow> ('r \<Rightarrow> 'w \<Rightarrow> bool) \<Rightarrow> 'r list \<Rightarrow> 'w \<Rightarrow> bool" where
  "wake_ok wake ok [] w \<longleftrightarrow> True"
| "wake_ok wake ok (r # rs) w \<longleftrightarrow> ok r w \<and> pred_option (wake_ok wake ok rs) (wake r w)"

text \<open>What the event loops rely on: a call returns, and after it something is pending, whatever was
  pending before; \<open>same\<close> says what no call changes.\<close>

locale wake_contract =
  fixes wake :: "'r \<Rightarrow> 'w \<Rightarrow> 'w option"
    and ok :: "'r \<Rightarrow> 'w \<Rightarrow> bool"
    and pending :: "'w \<Rightarrow> nat"
    and same :: "'w \<Rightarrow> 'w \<Rightarrow> bool"
  assumes wake_law: "ok r w \<Longrightarrow> \<exists>w'. wake r w = Some w' \<and> 0 < pending w' \<and> same w w'"
    and same_refl: "same w w"
    and same_trans: "same w w' \<Longrightarrow> same w' w'' \<Longrightarrow> same w w''"
begin

lemma woken:
  "wake_ok wake ok rs w \<Longrightarrow> \<exists>w'. wake_all wake rs w = Some w' \<and> (rs \<noteq> [] \<longrightarrow> 0 < pending w') \<and> same w w'"
proof (induction rs arbitrary: w)
  case (Cons r rs)
  from Cons.prems have "ok r w" by simp
  from wake_law [OF this] obtain w1 where w1: "wake r w = Some w1" "0 < pending w1" "same w w1" by blast
  with Cons.prems have "wake_ok wake ok rs w1" by simp
  from Cons.IH [OF this] obtain w' where
    "wake_all wake rs w1 = Some w'" "rs \<noteq> [] \<longrightarrow> 0 < pending w'" "same w1 w'" by blast
  with w1 show ?case by (cases rs) (auto intro: same_trans)
qed (simp add: same_refl)

end

text \<open>A channel can also be drained.\<close>

locale drain_contract = wake_contract wake ok pending same
  for wake :: "'r \<Rightarrow> 'w \<Rightarrow> 'w option" and ok pending same +
  fixes drain :: "'d \<Rightarrow> 'w \<Rightarrow> (unit result \<times> 'w) option"
    and drain_ok :: "'d \<Rightarrow> 'w \<Rightarrow> bool"
  assumes drain_law: "drain_ok d w \<Longrightarrow> \<exists>w'. drain d w = Some (Inr (), w') \<and> pending w' = 0 \<and> same w w'"

text \<open>A notified channel is readable, and a drained one is empty.\<close>

lemma Notify_wakes:
  "0 < cap \<Longrightarrow> wk_queue w \<le> cap \<Longrightarrow> write_returns_ok cap rs (wk_queue w) \<Longrightarrow>
   \<exists>w'. Notify rs w = Some w' \<and> 0 < wk_queue w' \<and> wk_queue w' \<le> cap \<and> wk_queue w \<le> wk_queue w' \<and>
     wk_readFd w' = wk_readFd w"
proof (induction rs)
  case (Cons r rs)
  then show ?case by (cases r) (auto split: if_splits)
qed simp

lemma Drain_empties:
  "read_returns_ok rs (wk_queue w) \<Longrightarrow> \<exists>w'. Drain rs w = Some (Inr (), w') \<and> wk_queue w' = 0 \<and>
     wk_readFd w' = wk_readFd w"
proof (induction rs arbitrary: w)
  case (Cons r rs)
  then show ?case
  proof (cases r)
    case (Ret n)
    let ?w = "w\<lparr>wk_queue := wk_queue w - n\<rparr>"
    have "wk_queue ?w = wk_queue w - n" by simp
    moreover have n: "0 < n \<and> read_returns_ok rs (wk_queue w - n)"
      using Cons.prems unfolding Ret read_returns_ok.simps by blast
    ultimately show ?thesis using Cons.IH [of ?w] Ret by simp
  qed (auto split: if_splits simp: EAGAIN_def)
qed simp

text \<open>The channel keeps its ends.\<close>

abbreviation same_ends :: "WakeupChannel \<Rightarrow> WakeupChannel \<Rightarrow> bool" where
  "same_ends w w' \<equiv> wk_readFd w' = wk_readFd w \<and> wk_writeFd w' = wk_writeFd w"

lemma Notify_ends:
  "Notify rs w = Some w' \<Longrightarrow> same_ends w w'"
  by (induction rs w rule: Notify.induct) (auto split: if_splits)

lemma Drain_ends:
  "Drain rs w = Some (r, w') \<Longrightarrow> same_ends w w'"
  by (induction rs w rule: Drain.induct) (auto split: if_splits)

definition notify_ok :: "nat \<Rightarrow> nat sysret list \<Rightarrow> WakeupChannel \<Rightarrow> bool" where
  "notify_ok cap rs w \<longleftrightarrow> 0 < cap \<and> wk_queue w \<le> cap \<and> write_returns_ok cap rs (wk_queue w)"

interpretation wc: drain_contract Notify "notify_ok cap" wk_queue same_ends Drain "\<lambda>rs w. read_returns_ok rs (wk_queue w)"
  for cap
proof unfold_locales
  fix rs w assume "notify_ok cap rs w"
  then show "\<exists>w'. Notify rs w = Some w' \<and> 0 < wk_queue w' \<and> same_ends w w'"
    using Notify_wakes [of cap w rs] Notify_ends [of rs w] by (auto simp: notify_ok_def)
next
  fix d and w :: WakeupChannel assume "read_returns_ok d (wk_queue w)"
  from Drain_empties [OF this] show "\<exists>w'. Drain d w = Some (Inr (), w') \<and> wk_queue w' = 0 \<and> same_ends w w'"
    using Drain_ends [of d w] by auto
qed auto

section \<open>Termination signals\<close>

datatype signal = SIGINT | SIGTERM | SIGPIPE

text \<open>What a signal does: the handler of the program, \<^verbatim>\<open>SIG_IGN\<close>, or an action set by someone else.\<close>

datatype sigaction = HandleTerminationAction | IgnoreAction | OtherAction nat

record SignalWorld =
  G_NOTIFY_FD :: int
  dispositions :: "signal \<Rightarrow> sigaction"

record TerminationSignalHandler =
  m_previousSigint :: sigaction
  m_previousSigterm :: sigaction
  m_previousSigpipe :: sigaction
  m_installed :: bool

abbreviation set_action :: "signal \<Rightarrow> sigaction \<Rightarrow> SignalWorld \<Rightarrow> SignalWorld" where
  "set_action sig act w \<equiv> w\<lparr>dispositions := (dispositions w)(sig := act)\<rparr>"

text \<open>The constructor.  \<open>fails\<close> gives the error of a call of \<open>sigaction\<close> that installs; a call that puts
  back an action that was there, and \<open>sigemptyset\<close>, succeed.\<close>

definition TerminationSignalHandler_init ::
  "(signal \<Rightarrow> int option) \<Rightarrow> int \<Rightarrow> SignalWorld \<Rightarrow> TerminationSignalHandler result \<times> SignalWorld" where
  "TerminationSignalHandler_init fails notifyFd w =
     (if notifyFd < 0 then (Inl (InvalidArgument ''termination notify fd must be valid''), w)
      else if G_NOTIFY_FD w > 0 then (Inl (LogicError ''termination signal handler already installed''), w)
      else
        let w = w\<lparr>G_NOTIFY_FD := notifyFd\<rparr>
        in case fails SIGINT of
             Some errno \<Rightarrow> (Inl (SystemError ''sigaction SIGINT failed'' errno), w\<lparr>G_NOTIFY_FD := - 1\<rparr>)
           | None \<Rightarrow>
               let previousSigint = dispositions w SIGINT;
                   w = set_action SIGINT HandleTerminationAction w
               in case fails SIGTERM of
                    Some errno \<Rightarrow>
                      (Inl (SystemError ''sigaction SIGTERM failed'' errno),
                       (set_action SIGINT previousSigint w)\<lparr>G_NOTIFY_FD := - 1\<rparr>)
                  | None \<Rightarrow>
                      let previousSigterm = dispositions w SIGTERM;
                          w = set_action SIGTERM HandleTerminationAction w
                      in case fails SIGPIPE of
                           Some errno \<Rightarrow>
                             (Inl (SystemError ''sigaction SIGTERM failed'' errno),
                              (set_action SIGTERM previousSigterm (set_action SIGINT previousSigint w))
                                \<lparr>G_NOTIFY_FD := - 1\<rparr>)
                         | None \<Rightarrow>
                             let previousSigpipe = dispositions w SIGPIPE;
                                 w = set_action SIGPIPE IgnoreAction w
                             in (Inr \<lparr>m_previousSigint = previousSigint, m_previousSigterm = previousSigterm,
                                   m_previousSigpipe = previousSigpipe, m_installed = True\<rparr>, w))"

definition TerminationSignalHandler_destroy :: "TerminationSignalHandler \<Rightarrow> SignalWorld \<Rightarrow> SignalWorld" where
  "TerminationSignalHandler_destroy handler w =
     (if \<not> m_installed handler then w
      else
        let w = set_action SIGINT (m_previousSigint handler) w;
            w = set_action SIGTERM (m_previousSigterm handler) w;
            w = set_action SIGPIPE (m_previousSigpipe handler) w
        in w\<lparr>G_NOTIFY_FD := - 1\<rparr>)"

text \<open>The handler writes one byte to the descriptor, once and without looking at the outcome.\<close>

definition HandleTerminationSignal :: "SignalWorld \<Rightarrow> nat sysret \<Rightarrow> WakeupChannel \<Rightarrow> WakeupChannel" where
  "HandleTerminationSignal world returned w =
     (let notifyFd = G_NOTIFY_FD world
      in if notifyFd \<ge> 0 \<and> notifyFd = wk_writeFd w
         then case returned of Ret written \<Rightarrow> w\<lparr>wk_queue := wk_queue w + written\<rparr> | Fail errno \<Rightarrow> w
         else w)"

text \<open>The handler object either installs all three actions and remembers the descriptor, or
  throws and leaves every action as it was; destroying it puts the actions back.  While it is
  installed on the write end of a channel, a termination signal makes the channel readable; after its
  destruction a signal that still reaches the handler touches no descriptor.\<close>

theorem termination_handler_restores:
  assumes "TerminationSignalHandler_init fails notifyFd w = (r, w')"
  shows "case r of
      Inl e \<Rightarrow> dispositions w' = dispositions w \<and> is_std_exception e
    | Inr handler \<Rightarrow>
        dispositions w' = (dispositions w)(SIGINT := HandleTerminationAction, SIGTERM := HandleTerminationAction,
          SIGPIPE := IgnoreAction) \<and>
        dispositions (TerminationSignalHandler_destroy handler w') = dispositions w \<and>
        (\<forall>c cap q. wk_writeFd c = notifyFd \<and> write_returns_ok cap [q] (wk_queue c) \<and> 0 < cap \<longrightarrow>
           0 < wk_queue (HandleTerminationSignal w' q c)) \<and>
        (\<forall>c q. HandleTerminationSignal (TerminationSignalHandler_destroy handler w') q c = c)"
proof (cases r)
  case (Inl e)
  then show ?thesis using assms
    by (auto simp: TerminationSignalHandler_init_def Let_def fun_eq_iff split: option.splits if_splits)
next
  case (Inr handler)
  have world: "G_NOTIFY_FD w' = notifyFd" "0 \<le> notifyFd" "m_installed handler"
    "dispositions w' = (dispositions w)(SIGINT := HandleTerminationAction, SIGTERM := HandleTerminationAction,
      SIGPIPE := IgnoreAction)"
    "dispositions (TerminationSignalHandler_destroy handler w') = dispositions w"
    using assms Inr by (auto simp: TerminationSignalHandler_init_def TerminationSignalHandler_destroy_def Let_def
        fun_eq_iff split: option.splits if_splits)
  have "0 < wk_queue (HandleTerminationSignal w' q c)"
    if "wk_writeFd c = notifyFd" "write_returns_ok cap [q] (wk_queue c)" "0 < cap" for c cap q
    using that world(1,2) by (cases q) (auto simp: HandleTerminationSignal_def split: if_splits)
  moreover have "HandleTerminationSignal (TerminationSignalHandler_destroy handler w') q c = c" for c q
    using world(3) by (simp add: HandleTerminationSignal_def TerminationSignalHandler_destroy_def Let_def)
  ultimately show ?thesis using Inr world by auto
qed

theorem termination_handler_restores_witness:
  "dispositions (snd (TerminationSignalHandler_init (\<lambda>sig. if sig = SIGPIPE then Some 22 else None) 5
      \<lparr>G_NOTIFY_FD = - 1, dispositions = (\<lambda>_. OtherAction 0)\<rparr>)) = (\<lambda>_. OtherAction 0)"
  using termination_handler_restores [of "\<lambda>sig. if sig = SIGPIPE then Some 22 else None" 5
    "\<lparr>G_NOTIFY_FD = - 1, dispositions = (\<lambda>_. OtherAction 0)\<rparr>"]
  by (simp add: TerminationSignalHandler_init_def Let_def)

end
