(* ===== verification/Sub_Reactor.thy ===== *)
theory Sub_Reactor
  imports Connection_Model Wakeup_Channel
begin

text \<open>
  A sub-reactor (\<^verbatim>\<open>src/net/sub_reactor.cpp\<close>, the part about the reactor itself; its connections are in
  \<open>Connection_Model\<close>).  The record holds the members of the class, the store and the metrics it refers
  to, and the log of the client descriptors closed by the destructors of their \<open>ScopedFd\<close>.  The
  critical sections of the control methods, which other threads call, are definitions of their own, so
  that \<open>Reactor_Loop\<close> can interleave them with the event loop.  An operation that may throw returns
  its exception and the reactor as it leaves it.
\<close>

section \<open>State\<close>

record SubReactor =
  r_id :: "16 word"
  r_state :: ServerState
  r_publishedState :: ServerState
  r_poller :: "Poller option"
  r_failed :: bool
  r_wakeup :: WakeupChannel
  r_pendingClients :: "int list"
  r_clients :: "(int, Connection) umap"
  r_stopRequested :: bool
  r_forceStopRequested :: bool
  r_requestedShutdownDeadline :: time_point
  r_shutdownDeadline :: time_point
  r_store :: KVStore
  r_metrics :: ServerMetrics
  r_closedFds :: "int list"

definition SubReactor_init :: "16 word \<Rightarrow> WakeupChannel \<Rightarrow> KVStore \<Rightarrow> ServerMetrics \<Rightarrow> SubReactor" where
  "SubReactor_init reactorId wakeup store metrics =
     \<lparr>r_id = reactorId, r_state = Created, r_publishedState = Created, r_poller = None, r_failed = False,
      r_wakeup = wakeup, r_pendingClients = [], r_clients = [], r_stopRequested = False,
      r_forceStopRequested = False, r_requestedShutdownDeadline = 0, r_shutdownDeadline = 0,
      r_store = store, r_metrics = metrics, r_closedFds = []\<rparr>"

type_synonym 'a reacted = "'a result \<times> SubReactor"

fun bind_reacted :: "'a reacted \<Rightarrow> ('a \<Rightarrow> SubReactor \<Rightarrow> 'b reacted) \<Rightarrow> 'b reacted" where
  "bind_reacted (Inl e, r) f = (Inl e, r)"
| "bind_reacted (Inr a, r) f = f a r"

text \<open>The descriptor registered for control events.\<close>

abbreviation control_fd :: "SubReactor \<Rightarrow> int" where
  "control_fd r \<equiv> wk_readFd (r_wakeup r)"

text \<open>The members a handler of a connection works on, and storing them back.\<close>

definition ctx_of :: "SubReactor \<Rightarrow> Connection \<Rightarrow> ConnCtx" where
  "ctx_of r conn = \<lparr>x_store = r_store r, x_metrics = r_metrics r, x_poller = the (r_poller r), x_conn = conn\<rparr>"

definition put_ctx :: "int \<Rightarrow> ConnCtx \<Rightarrow> SubReactor \<Rightarrow> SubReactor" where
  "put_ctx fd x r = r\<lparr>r_store := x_store x, r_metrics := x_metrics x, r_poller := Some (x_poller x),
     r_clients := um_put fd (x_conn x) (r_clients r)\<rparr>"

section \<open>Starting and publishing\<close>

definition PublishState :: "ServerState \<Rightarrow> SubReactor \<Rightarrow> SubReactor" where
  "PublishState state r = r\<lparr>r_state := state, r_publishedState := state\<rparr>"

text \<open>\<open>thread\<close> is the error of creating the thread, if it fails.\<close>

definition Start ::
  "bool \<Rightarrow> int sysret \<Rightarrow> ctl_oracle \<Rightarrow> cpp_exception option \<Rightarrow> PollerBackend \<Rightarrow> SubReactor \<Rightarrow> unit reacted" where
  "Start linux created ctl thread backend r =
     (if r_publishedState r \<noteq> Created then (Inl (LogicError ''Sub-reactor can only run once!''), r)
      else
        case CreatePoller linux created backend of
          Inl e \<Rightarrow> (Inl e, r)
        | Inr p \<Rightarrow>
            let (added, p) = Poller_Add ctl p (control_fd r) IoEvent_Read;
                r = r\<lparr>r_poller := Some p\<rparr>
            in case added of
                 Some e \<Rightarrow> (Inl e, r)
               | None \<Rightarrow>
                   let r = PublishState Running r
                   in case thread of
                        None \<Rightarrow> (Inr (), r)
                      | Some e \<Rightarrow>
                          let r = PublishState Created r;
                              (removed, p) = Poller_Remove ctl p (control_fd r)
                          in (Inl e, r\<lparr>r_poller := None\<rparr>))"

definition IsStopped :: "SubReactor \<Rightarrow> bool" where
  "IsStopped r \<longleftrightarrow> r_publishedState r = Stopped"

definition HasFailed :: "SubReactor \<Rightarrow> bool" where
  "HasFailed r \<longleftrightarrow> r_failed r"

section \<open>Control methods\<close>

text \<open>The critical section of \<open>EnqueClient\<close>: whether the client was taken.\<close>

definition EnqueClient_locked :: "int \<Rightarrow> SubReactor \<Rightarrow> bool \<times> SubReactor" where
  "EnqueClient_locked clientFd r =
     (if r_stopRequested r \<or> r_forceStopRequested r then (False, r)
      else (True, r\<lparr>r_pendingClients := r_pendingClients r @ [clientFd]\<rparr>))"

definition notify_control :: "nat sysret list \<Rightarrow> SubReactor \<Rightarrow> SubReactor option" where
  "notify_control writes r = map_option (\<lambda>w. r\<lparr>r_wakeup := w\<rparr>) (Notify writes (r_wakeup r))"

text \<open>A client that is not taken is closed by the destructor of the argument.\<close>

definition EnqueClient :: "nat sysret list \<Rightarrow> int \<Rightarrow> SubReactor \<Rightarrow> (bool \<times> SubReactor) option" where
  "EnqueClient writes clientFd r =
     (if \<not> ScopedFd_Valid clientFd then Some (False, r)
      else
        let (taken, r) = EnqueClient_locked clientFd r
        in if \<not> taken
           then Some (False, r\<lparr>r_closedFds := snd (ScopedFd_destroy clientFd (r_closedFds r))\<rparr>)
           else map_option (\<lambda>r. (True, r)) (notify_control writes r))"

definition Stop_locked :: "time_point \<Rightarrow> SubReactor \<Rightarrow> SubReactor" where
  "Stop_locked deadline r =
     (let r = (if \<not> r_stopRequested r \<or> deadline < r_requestedShutdownDeadline r
               then r\<lparr>r_requestedShutdownDeadline := deadline\<rparr> else r)
      in r\<lparr>r_stopRequested := True\<rparr>)"

definition Stop :: "nat sysret list \<Rightarrow> time_point \<Rightarrow> SubReactor \<Rightarrow> SubReactor option" where
  "Stop writes deadline r = notify_control writes (Stop_locked deadline r)"

definition ForceStop_locked :: "SubReactor \<Rightarrow> SubReactor" where
  "ForceStop_locked r = r\<lparr>r_forceStopRequested := True\<rparr>"

definition ForceStop :: "nat sysret list \<Rightarrow> SubReactor \<Rightarrow> SubReactor option" where
  "ForceStop writes r = notify_control writes (ForceStop_locked r)"

section \<open>Waiting\<close>

definition milliseconds :: "int \<Rightarrow> int" where "milliseconds ms = ms * 1000000"

text \<open>In milliseconds; \<open>duration_cast\<close> rounds towards zero.\<close>

definition ComputeWaitTimeout :: "time_point \<Rightarrow> SubReactor \<Rightarrow> int" where
  "ComputeWaitTimeout now r =
     (if r_state r = Running then 500
      else if r_state r \<noteq> Draining then 0
      else if now \<ge> r_shutdownDeadline r then 0
      else
        let remaining = (r_shutdownDeadline r - now) div milliseconds 1;
            remaining = (if remaining \<le> 0 then 1 else remaining)
        in min 100 remaining)"

section \<open>Clients\<close>

definition AddClientInLoop :: "ctl_oracle \<Rightarrow> int \<Rightarrow> SubReactor \<Rightarrow> unit reacted" where
  "AddClientInLoop ctl rawFd r =
     (if um_find (r_clients r) rawFd \<noteq> None
      then (Inl (LogicError ''client fd already exist''),
            r\<lparr>r_closedFds := snd (ScopedFd_destroy rawFd (r_closedFds r))\<rparr>)
      else
        let conn = Connection_init rawFd;
            interests = DesiredEvents conn;
            (added, p) = Poller_Add ctl (the (r_poller r)) rawFd interests;
            r = r\<lparr>r_poller := Some p\<rparr>
        in case added of
             Some e \<Rightarrow> (Inl e, r\<lparr>r_closedFds := snd (ScopedFd_destroy rawFd (r_closedFds r))\<rparr>)
           | None \<Rightarrow>
               (Inr (), r\<lparr>r_clients := um_put rawFd (conn\<lparr>registeredEvents := interests\<rparr>) (r_clients r),
                          r_metrics := OnConnectionAccepted (r_metrics r)\<rparr>))"

text \<open>The loop of \<open>CleanupClosedConnections\<close> over the entries of the map.  A failure to remove the
  descriptor from the poller is logged and ignored.\<close>

fun cleanup_loop :: "ctl_oracle \<Rightarrow> (int \<times> Connection) list \<Rightarrow> SubReactor \<Rightarrow> SubReactor" where
  "cleanup_loop ctl [] r = r"
| "cleanup_loop ctl ((fd, conn) # items) r =
     (if \<not> conn_closed conn then cleanup_loop ctl items r
      else
        let (removed, p) = Poller_Remove ctl (the (r_poller r)) fd;
            r = r\<lparr>r_poller := Some p\<rparr>;
            r = r\<lparr>r_metrics := OnConnectionClosed (r_metrics r)\<rparr>;
            r = r\<lparr>r_clients := um_erase fd (r_clients r),
                  r_closedFds := snd (ScopedFd_destroy (conn_fd conn) (r_closedFds r))\<rparr>
        in cleanup_loop ctl items r)"

definition CleanupClosedConnections :: "ctl_oracle \<Rightarrow> SubReactor \<Rightarrow> SubReactor" where
  "CleanupClosedConnections ctl r = cleanup_loop ctl (r_clients r) r"

definition ForceCloseAllConnections :: "ctl_oracle \<Rightarrow> SubReactor \<Rightarrow> SubReactor" where
  "ForceCloseAllConnections ctl r =
     (let connectionCount = length (r_clients r);
          r = r\<lparr>r_metrics := AddForcedShutdownConnections connectionCount (r_metrics r)\<rparr>;
          r = r\<lparr>r_clients := map (\<lambda>(fd, conn). (fd, MarkClosed conn)) (r_clients r)\<rparr>
      in CleanupClosedConnections ctl r)"

definition CheckShutdownProgress :: "ctl_oracle \<Rightarrow> time_point \<Rightarrow> SubReactor \<Rightarrow> SubReactor" where
  "CheckShutdownProgress ctl now r =
     (if r_state r \<noteq> Draining then r
      else if r_clients r = [] then PublishState Stopped r
      else if now \<ge> r_shutdownDeadline r then PublishState Stopped (ForceCloseAllConnections ctl r)
      else r)"

text \<open>The loop of \<open>BeginGracefulShutdown\<close> over the descriptors of the map; it ends early when the
  poller throws.\<close>

fun drain_loop :: "ctl_oracle \<Rightarrow> NetworkOptions \<Rightarrow> int list \<Rightarrow> SubReactor \<Rightarrow> unit reacted" where
  "drain_loop ctl opts [] r = (Inr (), r)"
| "drain_loop ctl opts (fd # fds) r =
     (case um_find (r_clients r) fd of
        None \<Rightarrow> drain_loop ctl opts fds r
      | Some conn \<Rightarrow>
          let conn = conn\<lparr>readPaused := True\<rparr>;
              conn = conn\<lparr>closeAfterWrite := True\<rparr>
          in if OutputBuffer_Empty (writeBuffer conn)
             then drain_loop ctl opts fds (r\<lparr>r_clients := um_put fd (MarkClosed conn) (r_clients r)\<rparr>)
             else
               let (res, x) = RefreshConnectionInterest ctl opts (ctx_of r conn)
               in bind_reacted (res, put_ctx fd x r) (\<lambda>_ r. drain_loop ctl opts fds r))"

definition BeginGracefulShutdown :: "ctl_oracle \<Rightarrow> NetworkOptions \<Rightarrow> time_point \<Rightarrow> SubReactor \<Rightarrow> unit reacted" where
  "BeginGracefulShutdown ctl opts deadline r =
     (if r_state r \<noteq> Running then (Inr (), r)
      else
        let r = r\<lparr>r_shutdownDeadline := deadline\<rparr>;
            r = PublishState Draining r
        in bind_reacted (drain_loop ctl opts (map fst (r_clients r)) r) (\<lambda>_ r.
             let r = CleanupClosedConnections ctl r
             in (Inr (), if r_clients r = [] then PublishState Stopped r else r)))"

section \<open>Control requests\<close>

text \<open>Adding the clients that were handed over; one that fails is logged and dropped (all that
  \<open>AddClientInLoop\<close> throws is a \<open>std::exception\<close>).\<close>

fun add_clients :: "ctl_oracle \<Rightarrow> int list \<Rightarrow> SubReactor \<Rightarrow> SubReactor" where
  "add_clients ctl [] r = r"
| "add_clients ctl (client # clients) r =
     (case AddClientInLoop ctl client r of
        (Inl error, r) \<Rightarrow> add_clients ctl clients r
      | (Inr u, r) \<Rightarrow> add_clients ctl clients r)"

definition ProcessControlRequests :: "ctl_oracle \<Rightarrow> NetworkOptions \<Rightarrow> SubReactor \<Rightarrow> unit reacted" where
  "ProcessControlRequests ctl opts r =
     (let pendingClients = r_pendingClients r;
          r = r\<lparr>r_pendingClients := []\<rparr>;
          stopRequested = r_stopRequested r;
          forceStopRequested = r_forceStopRequested r;
          deadline = r_requestedShutdownDeadline r
      in if forceStopRequested then
           let r = r\<lparr>r_closedFds := r_closedFds r @ pendingClients\<rparr>;
               r = ForceCloseAllConnections ctl r
           in (Inr (), PublishState Stopped r)
         else if stopRequested then
           let r = r\<lparr>r_closedFds := r_closedFds r @ pendingClients\<rparr>
           in BeginGracefulShutdown ctl opts deadline r
         else (Inr (), add_clients ctl pendingClients r))"

section \<open>The event loop\<close>

definition control_received :: "SubReactor \<Rightarrow> ReadyEvent list \<Rightarrow> bool" where
  "control_received r readyEvents \<longleftrightarrow> list_ex (\<lambda>rEvent. ready_fd rEvent = control_fd r) readyEvents"

text \<open>The loop over the ready clients; an entry of the map may be gone, or may be reported twice.\<close>

fun client_events ::
  "endianness \<Rightarrow> ctl_oracle \<Rightarrow> NetworkOptions \<Rightarrow> (ReadyEvent \<times> io_results) list \<Rightarrow> SubReactor \<Rightarrow> unit reacted" where
  "client_events h ctl opts [] r = (Inr (), r)"
| "client_events h ctl opts ((rEvent, io) # rest) r =
     (if ready_fd rEvent = control_fd r then client_events h ctl opts rest r
      else
        case um_find (r_clients r) (ready_fd rEvent) of
          None \<Rightarrow> client_events h ctl opts rest r
        | Some conn \<Rightarrow>
            let (res, x) = HandleReadyEvent h ctl opts (r_state r) (ready_events rEvent) io (ctx_of r conn)
            in bind_reacted (res, put_ctx (ready_fd rEvent) x r) (\<lambda>_ r. client_events h ctl opts rest r))"

text \<open>One round: waiting and draining the control channel, the control requests, and the clients.  The
  thread may be interrupted between the three by the control methods.\<close>

record loop_input =
  li_polls :: "(nat \<times> 16 word list) sysret list"
  li_epolls :: "(int \<times> u32) list sysret list"
  li_reads :: "nat sysret list"
  li_io :: "nat \<Rightarrow> io_results"
  li_now :: time_point

definition loop_wait :: "loop_input \<Rightarrow> SubReactor \<Rightarrow> ReadyEvent list reacted" where
  "loop_wait inp r =
     (case Poller_Wait (li_polls inp) (li_epolls inp) (the (r_poller r)) of
        None \<Rightarrow> (Inl StillBlocked, r)
      | Some (Inl e, p) \<Rightarrow> (Inl e, r\<lparr>r_poller := Some p\<rparr>)
      | Some (Inr readyEvents, p) \<Rightarrow>
          let r = r\<lparr>r_poller := Some p\<rparr>
          in if control_received r readyEvents
             then case Drain (li_reads inp) (r_wakeup r) of
                    None \<Rightarrow> (Inl StillBlocked, r)
                  | Some (Inl e, w) \<Rightarrow> (Inl e, r\<lparr>r_wakeup := w\<rparr>)
                  | Some (Inr _, w) \<Rightarrow> (Inr readyEvents, r\<lparr>r_wakeup := w\<rparr>)
             else (Inr readyEvents, r))"

definition loop_control :: "ctl_oracle \<Rightarrow> NetworkOptions \<Rightarrow> ReadyEvent list \<Rightarrow> SubReactor \<Rightarrow> unit reacted" where
  "loop_control ctl opts readyEvents r =
     (if control_received r readyEvents then ProcessControlRequests ctl opts r else (Inr (), r))"

definition loop_clients ::
  "endianness \<Rightarrow> ctl_oracle \<Rightarrow> NetworkOptions \<Rightarrow> loop_input \<Rightarrow> ReadyEvent list \<Rightarrow> SubReactor \<Rightarrow> unit reacted" where
  "loop_clients h ctl opts inp readyEvents r =
     (if r_state r = Stopped then (Inr (), r)
      else
        bind_reacted
          (client_events h ctl opts (zip readyEvents (map (li_io inp) [0..<length readyEvents])) r) (\<lambda>_ r.
        let r = CleanupClosedConnections ctl r
        in (Inr (), CheckShutdownProgress ctl (li_now inp) r)))"

text \<open>The handlers of \<open>EventLoop\<close>: clearing the map closes the descriptors of its connections.\<close>

definition loop_failed :: "SubReactor \<Rightarrow> SubReactor" where
  "loop_failed r =
     (let r = r\<lparr>r_failed := True\<rparr>;
          r = r\<lparr>r_clients := [],
                r_closedFds := r_closedFds r @ map (\<lambda>(fd, conn). conn_fd conn) (r_clients r)\<rparr>
      in PublishState Stopped r)"

definition loop_guard :: "'a reacted \<Rightarrow> 'a reacted" where
  "loop_guard m =
     (case m of
        (Inl e, r) \<Rightarrow> if is_std_exception e then (Inl e, loop_failed r) else (Inl e, r)
      | (Inr a, r) \<Rightarrow> (Inr a, r))"

definition loop_round :: "endianness \<Rightarrow> ctl_oracle \<Rightarrow> NetworkOptions \<Rightarrow> loop_input \<Rightarrow> SubReactor \<Rightarrow> unit reacted" where
  "loop_round h ctl opts inp r =
     loop_guard (bind_reacted (loop_wait inp r) (\<lambda>readyEvents r.
       bind_reacted (loop_control ctl opts readyEvents r) (\<lambda>_ r.
       loop_clients h ctl opts inp readyEvents r)))"

text \<open>The thread, for the rounds it is given inputs for and no other thread interfering.\<close>

fun EventLoop :: "endianness \<Rightarrow> ctl_oracle \<Rightarrow> NetworkOptions \<Rightarrow> loop_input list \<Rightarrow> SubReactor \<Rightarrow> SubReactor" where
  "EventLoop h ctl opts [] r = r"
| "EventLoop h ctl opts (inp # inps) r =
     (if r_state r = Stopped then r
      else case loop_round h ctl opts inp r of
             (Inl e, r) \<Rightarrow> r
           | (Inr _, r) \<Rightarrow> EventLoop h ctl opts inps r)"

end
