(* ===== verification/Reactor_Invariants.thy ===== *)
theory Reactor_Invariants
  imports Sub_Reactor
begin

text \<open>
  What the operations of a sub-reactor keep: the ownership of descriptors, whatever fails; the
  invariant of its connections and of the poller; and the states it goes through.
\<close>

section \<open>Descriptors\<close>

text \<open>The keys of the map are the descriptors of its connections.\<close>

definition reactor_wf :: "SubReactor \<Rightarrow> bool" where
  "reactor_wf r \<longleftrightarrow> um_ok (r_clients r) \<and> (\<forall>(fd, conn) \<in> set (r_clients r). conn_fd conn = fd \<and> 0 \<le> fd) \<and>
     (\<forall>fd \<in> set (r_pendingClients r). 0 \<le> fd)"

text \<open>Every descriptor the reactor was given: waiting, served, or closed.\<close>

definition owned_fds :: "SubReactor \<Rightarrow> int multiset" where
  "owned_fds r = mset (r_pendingClients r) + mset (map fst (r_clients r)) + mset (r_closedFds r)"

lemma map_fst_put: "um_find m k = Some v0 \<Longrightarrow> map fst (um_put k v m) = map fst m"
  using map_of_SomeD [of m k v0] by (force simp: um_put_def update_keys um_find_def)

lemma set_put: "um_ok m \<Longrightarrow> set (um_put k v m) \<subseteq> insert (k, v) (set m)"
proof
  fix x assume ok: "um_ok m" and x: "x \<in> set (um_put k v m)"
  obtain a b where ab: "x = (a, b)" by (cases x)
  have "um_find (um_put k v m) a = Some b"
    using x ab um_find_iff_mem [OF um.ok_put [OF ok, of k v], of a b] by simp
  then show "x \<in> insert (k, v) (set m)" using ab by (auto split: if_splits dest: um_find_SomeD)
qed

lemma put_ctx_wf:
  assumes "reactor_wf r" "um_find (r_clients r) fd = Some conn" "conn_fd (x_conn x) = conn_fd conn"
  shows "reactor_wf (put_ctx fd x r)" "owned_fds (put_ctx fd x r) = owned_fds r"
proof -
  have ok: "um_ok (r_clients r)" using assms(1) by (simp add: reactor_wf_def)
  have "conn_fd conn = fd" "0 \<le> fd" using assms(1) um_find_SomeD [OF assms(2)] by (auto simp: reactor_wf_def)
  then show "reactor_wf (put_ctx fd x r)"
    using assms(1,3) set_put [OF ok, of fd "x_conn x"] um.ok_put [OF ok, of fd "x_conn x"]
    by (auto simp: reactor_wf_def put_ctx_def)
  show "owned_fds (put_ctx fd x r) = owned_fds r"
    using map_fst_put [OF assms(2)] by (simp add: owned_fds_def put_ctx_def)
qed

text \<open>No handler changes the descriptor of its connection, nor what it believes registered but through
  \<open>RefreshConnectionInterest\<close>.\<close>

lemma bind_handled_snd:
  "\<lbrakk>P (snd m); \<And>a x. m = (Inr a, x) \<Longrightarrow> P (snd (f a x))\<rbrakk> \<Longrightarrow> P (snd (bind_handled m f))"
  by (cases m; cases "fst m") auto

lemma Queue_fd [simp]: "conn_fd (x_conn (snd (QueueResponse h opts response x))) = conn_fd (x_conn x)"
  by (simp add: QueueResponse_def Let_def split: sum.split)

lemma Payload_fd [simp]: "conn_fd (x_conn (snd (ProcessPayload h opts clk payload x))) = conn_fd (x_conn x)"
proof -
  have "conn_fd (x_conn (snd (bind_handled (QueueResponse h opts response y) (\<lambda>queued x.
      if \<not> queued then (Inr False, x) else if b then (Inr False, upd_conn (\<lambda>conn. conn\<lparr>closeAfterWrite := True\<rparr>) x)
      else (Inr True, x))))) = conn_fd (x_conn y)" for response b y
    using Queue_fd [of h opts response y] by (cases "QueueResponse h opts response y"; cases "fst (QueueResponse h opts response y)") auto
  then show ?thesis by (simp add: ProcessPayload_def Let_def split: sum.split)
qed

lemma payloads_fd [simp]: "conn_fd (x_conn (snd (process_payloads h opts ps x))) = conn_fd (x_conn x)"
proof (induction h opts ps x rule: process_payloads.induct)
  case (2 h opts clk payload rest x)
  show ?case
  proof (cases "ProcessPayload h opts clk payload x")
    case (Pair res y)
    then have "conn_fd (x_conn y) = conn_fd (x_conn x)" using Payload_fd [of h opts clk payload x] by simp
    then show ?thesis using Pair 2 by (cases res) auto
  qed
qed simp

lemma Reject_fd [simp]: "conn_fd (x_conn (snd (RejectOversizedReadBuffer h opts x))) = conn_fd (x_conn x)"
  using Queue_fd [of h opts "''-ERR request buffer too large''" x]
  by (cases "QueueResponse h opts ''-ERR request buffer too large'' x";
      cases "fst (QueueResponse h opts ''-ERR request buffer too large'' x)") (auto simp: RejectOversizedReadBuffer_def)

lemma Read_fd [simp]: "conn_fd (x_conn (snd (HandleClientRead h opts recvs clks x))) = conn_fd (x_conn x)"
proof -
  have "conn_fd (x_conn (snd (bind_handled (QueueResponse h opts ''-ERR protocol error'' y) (\<lambda>queued x.
      if queued then (Inr (), upd_conn (\<lambda>conn. conn\<lparr>closeAfterWrite := True\<rparr>) x) else (Inr (), x))))) = conn_fd (x_conn y)" for y
    using Queue_fd [of h opts "''-ERR protocol error''" y]
    by (cases "QueueResponse h opts ''-ERR protocol error'' y";
        cases "fst (QueueResponse h opts ''-ERR protocol error'' y)") auto
  then show ?thesis
    by (simp add: HandleClientRead_def Let_def split: option.split sysret.split prod.split sum.split)
qed

lemma Write_fd [simp]: "conn_fd (x_conn (snd (HandleClientWrite opts sends x))) = conn_fd (x_conn x)"
  by (simp add: HandleClientWrite_def Let_def split: option.split sysret.split sum.split)

lemma Refresh_fd [simp]: "conn_fd (x_conn (snd (RefreshConnectionInterest ctl opts x))) = conn_fd (x_conn x)"
  by (simp add: RefreshConnectionInterest_def Let_def split: option.split prod.split)

lemma begin_hangup_fd [simp]: "conn_fd (x_conn (begin_hangup x)) = conn_fd (x_conn x)"
  by (simp add: begin_hangup_def Let_def)

lemma ReadyEvent_fd:
  "HandleReadyEvent h ctl opts state events io x = (res, x') \<Longrightarrow> conn_fd (x_conn x') = conn_fd (x_conn x)"
proof -
  let ?rd = "if state = Running \<and> HasIoEvent events IoEvent_Read
    then HandleClientRead h opts (io_recvs io) (io_clks io) x else (Inr (), x)"
  assume eq: "HandleReadyEvent h ctl opts state events io x = (res, x')"
  obtain r1 x1 where 1: "?rd = (r1, x1)" "conn_fd (x_conn x1) = conn_fd (x_conn x)"
  proof -
    have "conn_fd (x_conn (snd ?rd)) = conn_fd (x_conn x)" by simp
    then show thesis by (rule that [OF prod.collapse [symmetric]])
  qed
  let ?wr = "if \<not> conn_closed (x_conn x1) \<and> HasIoEvent events IoEvent_Write
    then HandleClientWrite opts (io_sends io) x1 else (Inr (), x1)"
  obtain r2 x2 where 2: "?wr = (r2, x2)" "conn_fd (x_conn x2) = conn_fd (x_conn x1)"
  proof -
    have "conn_fd (x_conn (snd ?wr)) = conn_fd (x_conn x1)" by simp
    then show thesis by (rule that [OF prod.collapse [symmetric]])
  qed
  let ?x3 = "if \<not> conn_closed (x_conn x2) \<and> HasIoEvent events IoEvent_Hangup then begin_hangup x2 else x2"
  let ?last = "if \<not> conn_closed (x_conn ?x3) then RefreshConnectionInterest ctl opts ?x3 else (Inr (), ?x3)"
  obtain r3 x3 where 3: "?last = (r3, x3)" "conn_fd (x_conn x3) = conn_fd (x_conn x2)"
  proof -
    have "conn_fd (x_conn (snd ?last)) = conn_fd (x_conn x2)" by simp
    then show thesis by (rule that [OF prod.collapse [symmetric]])
  qed
  show ?thesis
  proof (cases "HasIoEvent events IoEvent_Error")
    case True
    then show ?thesis using eq by (auto simp: HandleReadyEvent_def)
  next
    case False
    then have "HandleReadyEvent h ctl opts state events io x =
      bind_handled (r1, x1) (\<lambda>_ x1.
        bind_handled (if \<not> conn_closed (x_conn x1) \<and> HasIoEvent events IoEvent_Write
            then HandleClientWrite opts (io_sends io) x1 else (Inr (), x1)) (\<lambda>_ x2.
          let x3 = if \<not> conn_closed (x_conn x2) \<and> HasIoEvent events IoEvent_Hangup then begin_hangup x2 else x2
          in if \<not> conn_closed (x_conn x3) then RefreshConnectionInterest ctl opts x3 else (Inr (), x3)))"
      unfolding HandleReadyEvent_def 1(1) by (simp only: if_False)
    then have "(res, x') = bind_handled (r1, x1) (\<lambda>_ _. bind_handled (r2, x2) (\<lambda>_ _. (r3, x3)))"
      using eq 2(1) 3(1) by (cases r1; cases r2) (simp_all only: bind_handled.simps Let_def)
    then show ?thesis using 1(2) 2(2) 3(2) by (cases r1; cases r2) simp_all
  qed
qed

section \<open>Cleaning up\<close>

text \<open>What a cleanup does to the descriptors: the closed connections leave the map and their
  descriptors are closed; everything else but the metrics and the poller is as before.\<close>

definition closed_items :: "(int \<times> Connection) list \<Rightarrow> (int \<times> Connection) list" where
  "closed_items items = filter (\<lambda>(fd, conn). conn_closed conn) items"

definition open_items :: "(int \<times> Connection) list \<Rightarrow> (int \<times> Connection) list" where
  "open_items items = filter (\<lambda>(fd, conn). \<not> conn_closed conn) items"

definition poller_of :: "SubReactor \<Rightarrow> Poller" where
  "poller_of r = the (r_poller r)"

definition same_control :: "SubReactor \<Rightarrow> SubReactor \<Rightarrow> bool" where
  "same_control r r' \<longleftrightarrow> r_wakeup r' = r_wakeup r \<and> r_stopRequested r' = r_stopRequested r \<and>
     r_forceStopRequested r' = r_forceStopRequested r \<and>
     r_requestedShutdownDeadline r' = r_requestedShutdownDeadline r"

lemma same_control_refl [simp]: "same_control r r" by (simp add: same_control_def)

lemma same_control_trans: "same_control r r1 \<Longrightarrow> same_control r1 r2 \<Longrightarrow> same_control r r2"
  by (simp add: same_control_def)

definition cleaned :: "(int \<times> Connection) list \<Rightarrow> SubReactor \<Rightarrow> SubReactor \<Rightarrow> bool" where
  "cleaned items r r' \<longleftrightarrow>
     r_closedFds r' = r_closedFds r @ map (conn_fd \<circ> snd) (closed_items items) \<and>
     r_pendingClients r' = r_pendingClients r \<and> r_state r' = r_state r \<and> r_publishedState r' = r_publishedState r \<and>
     r_failed r' = r_failed r \<and> r_shutdownDeadline r' = r_shutdownDeadline r \<and> r_store r' = r_store r \<and>
     same_control r r' \<and> (r_poller r \<noteq> None \<longrightarrow> r_poller r' \<noteq> None) \<and>
     m_activeConnections (r_metrics r') = m_activeConnections (r_metrics r) - of_nat (length (closed_items items)) \<and>
     (poller_good (poller_of r) \<longrightarrow> poller_good (poller_of r') \<and>
        (\<forall>fd. fd \<notin> fst ` set (closed_items items) \<longrightarrow>
           poller_registry (poller_of r') fd = poller_registry (poller_of r) fd))"

lemma um_erase_middle:
  "distinct (map fst (pre @ (fd, conn) # items)) \<Longrightarrow> um_erase fd (pre @ (fd, conn) # items) = pre @ items"
  by (simp add: um_erase_def AList.delete_eq) (force simp: filter_id_conv intro!: arg_cong2 [where f = append])

lemma cleanup_loop_cleaned:
  assumes "r_clients r = pre @ items" "distinct (map fst (pre @ items))" "\<forall>(fd, conn) \<in> set items. 0 \<le> conn_fd conn"
  shows "r_clients (cleanup_loop ctl items r) = pre @ open_items items \<and> cleaned items r (cleanup_loop ctl items r)"
  using assms
proof (induction items arbitrary: pre r)
  case Nil
  then show ?case by (simp add: open_items_def closed_items_def cleaned_def)
next
  case (Cons item items)
  obtain fd conn where item: "item = (fd, conn)" by (cases item)
  show ?case
  proof (cases "conn_closed conn")
    case False
    have "r_clients r = (pre @ [item]) @ items" using Cons.prems(1) by simp
    from Cons.IH [OF this] Cons.prems False item show ?thesis
      by (simp add: open_items_def closed_items_def cleaned_def)
  next
    case True
    obtain removed p where p: "Poller_Remove ctl (the (r_poller r)) fd = (removed, p)" by fastforce
    define r1 where "r1 = r\<lparr>r_poller := Some p, r_metrics := OnConnectionClosed (r_metrics r),
      r_clients := um_erase fd (r_clients r), r_closedFds := snd (ScopedFd_destroy (conn_fd conn) (r_closedFds r))\<rparr>"
    have fd: "0 \<le> conn_fd conn" using Cons.prems(3) item by simp
    have r1: "r_clients r1 = pre @ items"
      using um_erase_middle [of pre fd conn items] Cons.prems(1,2) item by (simp add: r1_def)
    have step: "cleanup_loop ctl (item # items) r = cleanup_loop ctl items r1"
      using True item p by (simp add: Let_def r1_def)
    have reg: "poller_good (poller_of r) \<Longrightarrow> poller_good (poller_of r1) \<and>
        (\<forall>fd'. fd' \<noteq> fd \<longrightarrow> poller_registry (poller_of r1) fd' = poller_registry (poller_of r) fd')"
      using pl.remove_law [of "poller_of r" ctl fd removed p] p
      by (auto simp: r1_def poller_of_def split: option.splits)
    have "cleaned (item # items) r r2" if "cleaned items r1 r2" for r2
      using that reg True item fd
      by (auto simp: cleaned_def closed_items_def r1_def ScopedFd_defs OnConnectionClosed_def same_control_def Let_def)
    then show ?thesis using Cons.IH [OF r1] Cons.prems(2,3) step True item by (simp add: open_items_def)
  qed
qed

lemma mset_open_closed:
  "mset (map fst (open_items items)) + mset (map fst (closed_items items)) = mset (map fst items)"
  by (induction items) (auto simp: open_items_def closed_items_def)

lemma Cleanup_cleaned:
  assumes "reactor_wf r"
  shows "r_clients (CleanupClosedConnections ctl r) = open_items (r_clients r)"
    "cleaned (r_clients r) r (CleanupClosedConnections ctl r)"
    "reactor_wf (CleanupClosedConnections ctl r)" "owned_fds (CleanupClosedConnections ctl r) = owned_fds r"
proof -
  have items: "\<forall>(fd, conn) \<in> set (r_clients r). conn_fd conn = fd \<and> 0 \<le> fd" "distinct (map fst (r_clients r))"
    using assms by (auto simp: reactor_wf_def um_ok_def)
  have all: "r_clients (CleanupClosedConnections ctl r) = open_items (r_clients r) \<and>
      cleaned (r_clients r) r (CleanupClosedConnections ctl r)"
    using cleanup_loop_cleaned [of r "[]" "r_clients r" ctl] items by (auto simp: CleanupClosedConnections_def)
  then show "r_clients (CleanupClosedConnections ctl r) = open_items (r_clients r)"
    "cleaned (r_clients r) r (CleanupClosedConnections ctl r)" by blast+
  then show "reactor_wf (CleanupClosedConnections ctl r)"
    using assms by (auto simp: reactor_wf_def cleaned_def open_items_def um_ok_def distinct_map_filter)
  have "map (conn_fd \<circ> snd) (closed_items (r_clients r)) = map fst (closed_items (r_clients r))"
    using items(1) by (auto simp: closed_items_def)
  then have "mset (r_closedFds (CleanupClosedConnections ctl r)) =
      mset (r_closedFds r) + mset (map fst (closed_items (r_clients r)))"
    using all by (simp only: cleaned_def mset_append)
  then show "owned_fds (CleanupClosedConnections ctl r) = owned_fds r"
    using all mset_open_closed [of "r_clients r"] by (simp only: owned_fds_def cleaned_def) (simp only: ac_simps)
qed

section \<open>Ownership is kept, whatever fails\<close>

definition closed_grows :: "SubReactor \<Rightarrow> SubReactor \<Rightarrow> bool" where
  "closed_grows r r' \<longleftrightarrow> (\<exists>fds. r_closedFds r' = r_closedFds r @ fds)"

lemma closed_grows_refl [simp]: "closed_grows r r" by (simp add: closed_grows_def)

lemma closed_grows_trans: "closed_grows r r1 \<Longrightarrow> closed_grows r1 r2 \<Longrightarrow> closed_grows r r2"
  by (auto simp: closed_grows_def)

definition keeps :: "SubReactor \<Rightarrow> SubReactor \<Rightarrow> bool" where
  "keeps r r' \<longleftrightarrow> reactor_wf r' \<and> owned_fds r' = owned_fds r \<and> same_control r r' \<and> closed_grows r r'"

lemma keeps_refl [simp]: "reactor_wf r \<Longrightarrow> keeps r r" by (simp add: keeps_def closed_grows_def)

lemma keeps_trans: "keeps r r1 \<Longrightarrow> keeps r1 r2 \<Longrightarrow> keeps r r2"
  by (auto simp: keeps_def intro: same_control_trans closed_grows_trans)

lemma keeps_wf: "keeps r r' \<Longrightarrow> reactor_wf r'" by (simp add: keeps_def closed_grows_def)

lemma put_ctx_keeps:
  "reactor_wf r \<Longrightarrow> um_find (r_clients r) fd = Some conn \<Longrightarrow> conn_fd (x_conn x) = conn_fd conn \<Longrightarrow> keeps r (put_ctx fd x r)"
  using put_ctx_wf [of r fd conn x] by (simp add: keeps_def same_control_def put_ctx_def closed_grows_def)

lemma put_closed_keeps:
  assumes "reactor_wf r" "um_find (r_clients r) fd = Some conn" "conn_fd c = conn_fd conn"
  shows "keeps r (r\<lparr>r_clients := um_put fd c (r_clients r)\<rparr>)"
  using put_ctx_keeps [OF assms(1,2), of "ctx_of r c"] assms(3)
  by (simp add: keeps_def reactor_wf_def owned_fds_def same_control_def put_ctx_def ctx_of_def closed_grows_def)

lemma Publish_keeps: "reactor_wf r \<Longrightarrow> keeps r (PublishState state r)"
  by (simp add: keeps_def reactor_wf_def owned_fds_def same_control_def PublishState_def closed_grows_def)

lemma Cleanup_keeps: "reactor_wf r \<Longrightarrow> keeps r (CleanupClosedConnections ctl r)"
  using Cleanup_cleaned [of r ctl] by (simp add: keeps_def cleaned_def closed_grows_def)

lemma map_closed_simps: "map fst (map (\<lambda>(fd, conn). (fd, MarkClosed conn)) items) = map fst items"
  "open_items (map (\<lambda>(fd, conn). (fd, MarkClosed conn)) items) = []"
  "closed_items (map (\<lambda>(fd, conn). (fd, MarkClosed conn)) items) = map (\<lambda>(fd, conn). (fd, MarkClosed conn)) items"
  by (induction items) (auto simp: open_items_def closed_items_def)

definition all_closed :: "SubReactor \<Rightarrow> SubReactor" where
  "all_closed r = r\<lparr>r_metrics := AddForcedShutdownConnections (length (r_clients r)) (r_metrics r),
     r_clients := map (\<lambda>(fd, conn). (fd, MarkClosed conn)) (r_clients r)\<rparr>"

lemma all_closed_keeps:
  assumes "reactor_wf r"
  shows "keeps r (all_closed r)"
proof -
  have keys: "map fst (r_clients (all_closed r)) = map fst (r_clients r)"
    using map_closed_simps(1) [of "r_clients r"] by (simp add: all_closed_def del: map_map)
  have "\<forall>(fd, conn) \<in> set (r_clients (all_closed r)). conn_fd conn = fd \<and> 0 \<le> fd"
    using assms by (auto simp: all_closed_def reactor_wf_def)
  moreover have "r_pendingClients (all_closed r) = r_pendingClients r" "r_closedFds (all_closed r) = r_closedFds r"
    "same_control r (all_closed r)" "closed_grows r (all_closed r)"
    by (simp_all add: all_closed_def same_control_def closed_grows_def)
  ultimately show ?thesis using assms keys by (simp only: keeps_def reactor_wf_def owned_fds_def um_ok_def) blast
qed

lemma ForceClose_eq: "ForceCloseAllConnections ctl r = CleanupClosedConnections ctl (all_closed r)"
  by (simp add: ForceCloseAllConnections_def all_closed_def Let_def)

lemma ForceClose_keeps: "reactor_wf r \<Longrightarrow> keeps r (ForceCloseAllConnections ctl r)"
  using all_closed_keeps [of r] Cleanup_keeps [of "all_closed r" ctl] keeps_trans [of r] keeps_wf [of r]
  by (simp add: ForceClose_eq)

text \<open>Force closing leaves no client, closes every descriptor, and counts them.\<close>

lemma ForceClose_clients:
  assumes "reactor_wf r"
  shows "r_clients (ForceCloseAllConnections ctl r) = []"
    "m_activeConnections (r_metrics (ForceCloseAllConnections ctl r)) =
       m_activeConnections (r_metrics r) - of_nat (length (r_clients r))"
    "r_pendingClients (ForceCloseAllConnections ctl r) = r_pendingClients r"
  using Cleanup_cleaned [OF keeps_wf [OF all_closed_keeps [OF assms]], of ctl]
  by (simp_all add: ForceClose_eq cleaned_def all_closed_def AddForcedShutdownConnections_def map_closed_simps)

lemma CheckShutdown_keeps:
  assumes "reactor_wf r"
  shows "keeps r (CheckShutdownProgress ctl now r)"
proof -
  note fc = ForceClose_keeps [OF assms, of ctl]
  show ?thesis using keeps_trans [OF fc Publish_keeps [OF keeps_wf [OF fc], of Stopped]] Publish_keeps [of r Stopped] assms
    by (simp add: CheckShutdownProgress_def)
qed

lemma um_put_new: "um_find m k = None \<Longrightarrow> um_put k v m = m @ [(k, v)]"
  by (induction m) (auto simp: um_put_def um_find_def split: if_splits)

lemma AddClient_keeps:
  assumes "reactor_wf r" "0 \<le> fd" "AddClientInLoop ctl fd r = (res, r')"
  shows "reactor_wf r' \<and> owned_fds r' = add_mset fd (owned_fds r) \<and> same_control r r' \<and> closed_grows r r' \<and>
    r_pendingClients r' = r_pendingClients r"
proof (cases "um_find (r_clients r) fd")
  case None
  have new: "fd \<notin> fst ` set (r_clients r)" using None by (simp add: um_find_def map_of_eq_None_iff)
  note put = um_put_new [OF None]
  from assms None new show ?thesis
    by (auto simp: AddClientInLoop_def Let_def put reactor_wf_def owned_fds_def same_control_def um_ok_def
        ScopedFd_defs Connection_init_def closed_grows_def split: prod.splits option.splits)
next
  case (Some c)
  then show ?thesis using assms
    by (auto simp: AddClientInLoop_def reactor_wf_def owned_fds_def same_control_def ScopedFd_defs closed_grows_def)
qed

lemma add_clients_keeps:
  "reactor_wf r \<Longrightarrow> \<forall>fd \<in> set fds. 0 \<le> fd \<Longrightarrow> reactor_wf (add_clients ctl fds r) \<and>
    owned_fds (add_clients ctl fds r) = mset fds + owned_fds r \<and> same_control r (add_clients ctl fds r) \<and>
    closed_grows r (add_clients ctl fds r) \<and> r_pendingClients (add_clients ctl fds r) = r_pendingClients r"
proof (induction fds arbitrary: r)
  case (Cons fd fds)
  obtain res r1 where r1: "AddClientInLoop ctl fd r = (res, r1)" by fastforce
  have "reactor_wf r1 \<and> owned_fds r1 = add_mset fd (owned_fds r) \<and> same_control r r1 \<and> closed_grows r r1 \<and>
      r_pendingClients r1 = r_pendingClients r"
    using AddClient_keeps [OF Cons.prems(1) _ r1] Cons.prems(2) by simp
  then show ?case using Cons.IH [of r1] Cons.prems(2) r1 by (cases res) (auto intro: same_control_trans closed_grows_trans)
qed simp

lemma drain_loop_keeps:
  "reactor_wf r \<Longrightarrow> drain_loop ctl opts fds r = (res, r') \<Longrightarrow> keeps r r'"
proof (induction fds arbitrary: r)
  case (Cons fd fds)
  show ?case
  proof (cases "um_find (r_clients r) fd")
    case None
    then show ?thesis using Cons by simp
  next
    case (Some conn)
    let ?conn = "conn\<lparr>readPaused := True, closeAfterWrite := True\<rparr>"
    let ?closed = "r\<lparr>r_clients := um_put fd (MarkClosed ?conn) (r_clients r)\<rparr>"
    obtain s x where x: "RefreshConnectionInterest ctl opts (ctx_of r ?conn) = (s, x)" by fastforce
    have k: "keeps r ?closed" using Some Cons.prems(1) by (intro put_closed_keeps) simp_all
    have "conn_fd (x_conn x) = conn_fd conn"
      using Refresh_fd [of ctl opts "ctx_of r ?conn"] unfolding x by (simp add: ctx_of_def)
    then have k': "keeps r (put_ctx fd x r)" using put_ctx_keeps Some Cons.prems(1) by blast
    show ?thesis
    proof (cases "OutputBuffer_Empty (writeBuffer conn)")
      case True
      then have "drain_loop ctl opts fds ?closed = (res, r')" using Cons.prems(2) Some by simp
      from Cons.IH [OF keeps_wf [OF k] this] show ?thesis using k keeps_trans by blast
    next
      case False
      then have "bind_reacted (s, put_ctx fd x r) (\<lambda>_ r. drain_loop ctl opts fds r) = (res, r')"
        using Cons.prems(2) Some x by simp
      then show ?thesis using Cons.IH [OF keeps_wf [OF k']] k' keeps_trans by (cases s) auto
    qed
  qed
qed simp

lemma BeginGraceful_keeps:
  assumes "reactor_wf r" "BeginGracefulShutdown ctl opts deadline r = (res, r')"
  shows "keeps r r'"
proof (cases "r_state r = Running")
  case True
  let ?r = "PublishState Draining (r\<lparr>r_shutdownDeadline := deadline\<rparr>)"
  have k: "keeps r ?r"
    using assms(1) by (simp add: keeps_def reactor_wf_def owned_fds_def same_control_def PublishState_def closed_grows_def)
  obtain s r1 where r1: "drain_loop ctl opts (map fst (r_clients r)) ?r = (s, r1)" by fastforce
  note k1 = keeps_trans [OF k drain_loop_keeps [OF keeps_wf [OF k] r1]]
  note k2 = keeps_trans [OF k1 Cleanup_keeps [OF keeps_wf [OF k1], of ctl]]
  note k3 = keeps_trans [OF k2 Publish_keeps [OF keeps_wf [OF k2], of Stopped]]
  from assms(2) show ?thesis using True r1 k1 k2 k3
    by (cases s) (auto simp: BeginGracefulShutdown_def PublishState_def Let_def split: if_splits)
qed (use assms in \<open>auto simp: BeginGracefulShutdown_def\<close>)

lemma Process_keeps:
  assumes "reactor_wf r" "ProcessControlRequests ctl opts r = (res, r')"
  shows "keeps r r'"
proof -
  let ?pending = "r_pendingClients r" and ?taken = "r\<lparr>r_pendingClients := []\<rparr>"
  let ?dropped = "?taken\<lparr>r_closedFds := r_closedFds r @ ?pending\<rparr>"
  have k: "keeps r ?dropped" using assms(1) by (simp add: keeps_def reactor_wf_def owned_fds_def same_control_def closed_grows_def)
  have add: "keeps r (add_clients ctl ?pending ?taken)"
  proof -
    have "reactor_wf ?taken" "\<forall>fd \<in> set ?pending. 0 \<le> fd" using assms(1) by (simp_all add: reactor_wf_def)
    moreover have "mset ?pending + owned_fds ?taken = owned_fds r" by (simp add: owned_fds_def ac_simps)
    ultimately show ?thesis using add_clients_keeps [of ?taken ?pending ctl] by (simp add: keeps_def same_control_def closed_grows_def)
  qed
  note fc = ForceClose_keeps [OF keeps_wf [OF k], of ctl]
  note force = keeps_trans [OF keeps_trans [OF k fc] Publish_keeps [OF keeps_wf [OF fc], of Stopped]]
  consider "r_forceStopRequested r" | "\<not> r_forceStopRequested r" "r_stopRequested r"
    | "\<not> r_forceStopRequested r" "\<not> r_stopRequested r" by blast
  then show ?thesis
  proof cases
    case 1
    with assms(2) have "r' = PublishState Stopped (ForceCloseAllConnections ctl ?dropped)"
      by (simp add: ProcessControlRequests_def)
    with force show ?thesis by simp
  next
    case 2
    with assms(2) have "BeginGracefulShutdown ctl opts (r_requestedShutdownDeadline r) ?dropped = (res, r')"
      by (simp add: ProcessControlRequests_def)
    from keeps_trans [OF k BeginGraceful_keeps [OF keeps_wf [OF k] this]] show ?thesis .
  next
    case 3
    with assms(2) have "r' = add_clients ctl ?pending ?taken" by (simp add: ProcessControlRequests_def)
    with add show ?thesis by simp
  qed
qed

lemma client_events_keeps:
  "reactor_wf r \<Longrightarrow> client_events h ctl opts evs r = (res, r') \<Longrightarrow> keeps r r'"
proof (induction evs arbitrary: r)
  case (Cons item evs)
  obtain ev io where item: "item = (ev, io)" by (cases item)
  show ?case
  proof (cases "ready_fd ev = control_fd r \<or> um_find (r_clients r) (ready_fd ev) = None")
    case True
    then show ?thesis using Cons item by (auto split: if_splits)
  next
    case False
    then obtain conn where conn: "um_find (r_clients r) (ready_fd ev) = Some conn" by blast
    obtain s x where x: "HandleReadyEvent h ctl opts (r_state r) (ready_events ev) io (ctx_of r conn) = (s, x)" by fastforce
    have k: "keeps r (put_ctx (ready_fd ev) x r)"
      using put_ctx_keeps [OF Cons.prems(1) conn] ReadyEvent_fd [OF x] by (simp add: ctx_of_def)
    have "bind_reacted (s, put_ctx (ready_fd ev) x r) (\<lambda>_ r. client_events h ctl opts evs r) = (res, r')"
      using Cons.prems(2) False conn x item by simp
    then show ?thesis using Cons.IH [OF keeps_wf [OF k]] k keeps_trans by (cases s) auto
  qed
qed simp

lemma loop_clients_keeps:
  assumes "reactor_wf r" "loop_clients h ctl opts inp evs r = (res, r')"
  shows "keeps r r'"
proof (cases "r_state r = Stopped")
  case False
  let ?evs = "zip evs (map (li_io inp) [0..<length evs])"
  obtain s r1 where r1: "client_events h ctl opts ?evs r = (s, r1)" by fastforce
  note k1 = client_events_keeps [OF assms(1) r1]
  note k2 = keeps_trans [OF k1 Cleanup_keeps [OF keeps_wf [OF k1], of ctl]]
  note k3 = keeps_trans [OF k2 CheckShutdown_keeps [OF keeps_wf [OF k2], of ctl "li_now inp"]]
  from assms(2) show ?thesis using False r1 k1 k3 by (cases s) (auto simp: loop_clients_def Let_def)
qed (use assms in \<open>auto simp: loop_clients_def\<close>)

lemma loop_failed_keeps: "reactor_wf r \<Longrightarrow> keeps r (loop_failed r)"
proof -
  assume wf: "reactor_wf r"
  then have "map (\<lambda>(fd, conn). conn_fd conn) (r_clients r) = map fst (r_clients r)"
    by (auto simp: reactor_wf_def)
  then have "mset (map (\<lambda>(fd, conn). conn_fd conn) (r_clients r)) = mset (map fst (r_clients r))" by (rule arg_cong)
  then show ?thesis using wf
    by (simp add: loop_failed_def keeps_def reactor_wf_def owned_fds_def same_control_def PublishState_def um_ok_def closed_grows_def
        Let_def ac_simps)
qed

end
