(* ===== verification/Reactor_Serving.thy ===== *)
theory Reactor_Serving
  imports Reactor_Invariants
begin

text \<open>
  The invariant of a serving reactor: its connections keep theirs, each is registered with the poller
  for what it believes, and between rounds all of them are open and registered for exactly the events
  they need.  Every phase of the loop keeps it or ends in an exception that the loop catches.
\<close>

section \<open>The invariant\<close>

definition registry_of :: "SubReactor \<Rightarrow> int \<rightharpoonup> IoEvent" where
  "registry_of r = poller_registry (poller_of r)"

definition reactor_ok :: "NetworkOptions \<Rightarrow> nat \<Rightarrow> SubReactor \<Rightarrow> bool" where
  "reactor_ok opts n r \<longleftrightarrow> reactor_wf r \<and> r_poller r \<noteq> None \<and> poller_good (poller_of r) \<and>
     store_ready n (r_store r) \<and>
     control_fd r \<notin> fst ` set (r_clients r) \<and> control_fd r \<notin> set (r_pendingClients r) \<and>
     registry_of r (control_fd r) = Some IoEvent_Read \<and>
     (\<forall>(fd, conn) \<in> set (r_clients r). conn_inv opts conn \<and> registry_of r fd = Some (registeredEvents conn))"

text \<open>A connection is settled when it waits for exactly what it needs; while the reactor drains, none
  reads.\<close>

definition conn_settled :: "ServerState \<Rightarrow> Connection \<Rightarrow> bool" where
  "conn_settled state conn \<longleftrightarrow> \<not> conn_closed conn \<longrightarrow>
     registeredEvents conn = DesiredEvents conn \<and> (state = Draining \<longrightarrow> closeAfterWrite conn)"

definition settled :: "SubReactor \<Rightarrow> bool" where
  "settled r \<longleftrightarrow> (\<forall>(fd, conn) \<in> set (r_clients r). conn_settled (r_state r) conn)"

definition all_open :: "SubReactor \<Rightarrow> bool" where
  "all_open r \<longleftrightarrow> (\<forall>(fd, conn) \<in> set (r_clients r). \<not> conn_closed conn)"

lemma reactor_ok_mono: "reactor_ok opts n r \<Longrightarrow> m \<le> n \<Longrightarrow> reactor_ok opts m r"
  by (auto simp: reactor_ok_def intro: store_ready_mono)

lemma reactor_ok_client:
  assumes "reactor_ok opts n r" "um_find (r_clients r) fd = Some conn"
  shows "conn_ok opts n (ctx_of r conn)" "conn_fd conn = fd" "(fd, conn) \<in> set (r_clients r)"
proof -
  show mem: "(fd, conn) \<in> set (r_clients r)" using assms(2) by (rule um_find_SomeD)
  with assms(1) show "conn_fd conn = fd" by (auto simp: reactor_ok_def reactor_wf_def)
  with assms(1) mem show "conn_ok opts n (ctx_of r conn)"
    by (auto simp: reactor_ok_def conn_ok_def ctx_of_def registered_def registry_of_def poller_of_def)
qed

lemma put_ctx_ok:
  assumes "reactor_ok opts m r" "um_find (r_clients r) fd = Some conn" "conn_ok opts n x" "conn_fd (x_conn x) = fd"
    and "\<And>fd'. fd' \<noteq> fd \<Longrightarrow> poller_registry (x_poller x) fd' = registry_of r fd'"
  shows "reactor_ok opts n (put_ctx fd x r)"
proof -
  note client = reactor_ok_client [OF assms(1,2)]
  have wf: "reactor_wf r" and ok: "um_ok (r_clients r)" using assms(1) by (simp_all add: reactor_ok_def reactor_wf_def)
  have keys: "fst ` set (r_clients (put_ctx fd x r)) = fst ` set (r_clients r)"
    using map_fst_put [OF assms(2), of "x_conn x"] by (simp add: put_ctx_def) (metis list.set_map)
  have items: "conn_inv opts c \<and> poller_registry (x_poller x) k = Some (registeredEvents c)"
    if "(k, c) \<in> set (um_put fd (x_conn x) (r_clients r))" for k c
  proof -
    have f: "um_find (um_put fd (x_conn x) (r_clients r)) k = Some c"
      using that um_find_iff_mem [OF um.ok_put [OF ok]] by blast
    show ?thesis
    proof (cases "k = fd")
      case True
      then show ?thesis using f assms(3,4) by (simp add: conn_ok_def registered_def)
    next
      case False
      then have "(k, c) \<in> set (r_clients r)" using f um_find_SomeD [of "r_clients r" k c] by simp
      then show ?thesis using assms(1) assms(5) [OF False] by (auto simp: reactor_ok_def)
    qed
  qed
  have "control_fd r \<noteq> fd" using assms(1) client(3) by (force simp: reactor_ok_def)
  then have "registry_of (put_ctx fd x r) (control_fd r) = Some IoEvent_Read"
    using assms(1) assms(5) [of "control_fd r"] by (simp add: reactor_ok_def registry_of_def poller_of_def put_ctx_def)
  moreover have "reactor_wf (put_ctx fd x r)" using put_ctx_wf(1) [OF wf assms(2)] assms(4) client(2) by simp
  moreover have "control_fd (put_ctx fd x r) = control_fd r" "r_pendingClients (put_ctx fd x r) = r_pendingClients r"
    "r_poller (put_ctx fd x r) = Some (x_poller x)" "r_store (put_ctx fd x r) = x_store x"
    "r_clients (put_ctx fd x r) = um_put fd (x_conn x) (r_clients r)" by (simp_all add: put_ctx_def)
  ultimately show ?thesis using assms(1,3) keys items
    by (auto simp: reactor_ok_def conn_ok_def registry_of_def poller_of_def)
qed

lemma put_settled:
  assumes "reactor_wf r" "settled r" "conn_settled (r_state r) (x_conn x)"
  shows "settled (put_ctx fd x r)"
  using assms set_put [of "r_clients r" fd "x_conn x"] by (auto simp: settled_def put_ctx_def reactor_wf_def)

text \<open>Once a connection is to be closed after its output, it stays so or is closed.\<close>

definition closing :: "ConnCtx \<Rightarrow> bool" where
  "closing x \<longleftrightarrow> conn_closed (x_conn x) \<or> closeAfterWrite (x_conn x)"

lemma Write_closing: "closing x \<Longrightarrow> closing (snd (HandleClientWrite opts sends x))"
  by (auto simp: HandleClientWrite_def closing_def Let_def split: option.split sysret.split sum.split)

lemma Refresh_closing: "closing x \<Longrightarrow> closing (snd (RefreshConnectionInterest ctl opts x))"
  by (auto simp: RefreshConnectionInterest_def closing_def Let_def split: option.split prod.split)

lemma hangup_closing: "closing (begin_hangup x)"
  by (auto simp: begin_hangup_def closing_def Let_def)

lemma ReadyEvent_closing:
  assumes "HandleReadyEvent h ctl opts Draining events io x = (Inr u, x')" "closing x"
  shows "closing x'"
proof (cases "HasIoEvent events IoEvent_Error")
  case True
  then show ?thesis using assms by (auto simp: HandleReadyEvent_def closing_def)
next
  case False
  obtain r2 x2 where wr: "(if \<not> conn_closed (x_conn x) \<and> HasIoEvent events IoEvent_Write
      then HandleClientWrite opts (io_sends io) x else (Inr (), x)) = (r2, x2)" by fastforce
  then have c2: "closing x2" using assms(2) Write_closing [of x opts "io_sends io"] by (auto split: if_splits)
  define x3 where "x3 = (if \<not> conn_closed (x_conn x2) \<and> HasIoEvent events IoEvent_Hangup then begin_hangup x2 else x2)"
  have c3: "closing x3" using c2 hangup_closing by (simp add: x3_def)
  have "HandleReadyEvent h ctl opts Draining events io x = bind_handled (r2, x2) (\<lambda>_ x2.
      let x3 = if \<not> conn_closed (x_conn x2) \<and> HasIoEvent events IoEvent_Hangup then begin_hangup x2 else x2
      in if \<not> conn_closed (x_conn x3) then RefreshConnectionInterest ctl opts x3 else (Inr (), x3))"
    using False wr by (simp add: HandleReadyEvent_def)
  then have "bind_handled (r2, x2) (\<lambda>_ _.
      if \<not> conn_closed (x_conn x3) then RefreshConnectionInterest ctl opts x3 else (Inr (), x3)) = (Inr u, x')"
    using assms(1) by (cases r2) (simp_all only: bind_handled.simps Let_def x3_def)
  then show ?thesis using c3 Refresh_closing [OF c3, of ctl opts] by (cases r2) (auto split: if_splits)
qed

lemma Poller_std:
  "fst (Poller_Modity ctl p fd ev) = Some e \<Longrightarrow> is_std_exception e"
  by (cases p) (auto simp: PollPoller_Modity_def EpollPoller_Modity_def ValidateInterests_def epoll_ctl_def Let_def
      split: option.splits if_splits)

section \<open>The phases\<close>

text \<open>The kernel keeps the contract of \<open>recv\<close> and \<open>send\<close> at every event of the loop over the clients.\<close>

fun events_io_ok ::
  "endianness \<Rightarrow> ctl_oracle \<Rightarrow> NetworkOptions \<Rightarrow> (ReadyEvent \<times> io_results) list \<Rightarrow> SubReactor \<Rightarrow> bool" where
  "events_io_ok h ctl opts [] r \<longleftrightarrow> True"
| "events_io_ok h ctl opts ((rEvent, io) # rest) r \<longleftrightarrow>
     (if ready_fd rEvent = control_fd r then events_io_ok h ctl opts rest r
      else
        case um_find (r_clients r) (ready_fd rEvent) of
          None \<Rightarrow> events_io_ok h ctl opts rest r
        | Some conn \<Rightarrow>
            io_ok h opts (r_state r) (ready_events rEvent) io (ctx_of r conn) \<and>
            (case HandleReadyEvent h ctl opts (r_state r) (ready_events rEvent) io (ctx_of r conn) of
               (Inl e, x) \<Rightarrow> True
             | (Inr _, x) \<Rightarrow> events_io_ok h ctl opts rest (put_ctx (ready_fd rEvent) x r)))"

text \<open>How a phase ends: normally, keeping the state, or with an exception the loop catches.\<close>

definition phase_ok :: "NetworkOptions \<Rightarrow> nat \<Rightarrow> SubReactor \<Rightarrow> unit reacted \<Rightarrow> bool" where
  "phase_ok opts n r out \<longleftrightarrow>
     (case out of
        (Inl e, r') \<Rightarrow> is_std_exception e
      | (Inr _, r') \<Rightarrow> reactor_ok opts n r' \<and> settled r' \<and> r_state r' = r_state r \<and>
          r_publishedState r' = r_publishedState r \<and> r_failed r' = r_failed r \<and> same_control r r' \<and>
          r_pendingClients r' = r_pendingClients r \<and> r_shutdownDeadline r' = r_shutdownDeadline r)"

lemma put_ctx_frame [simp]:
  "r_state (put_ctx fd x r) = r_state r" "r_publishedState (put_ctx fd x r) = r_publishedState r"
  "r_failed (put_ctx fd x r) = r_failed r" "same_control r (put_ctx fd x r)"
  "r_pendingClients (put_ctx fd x r) = r_pendingClients r" "r_shutdownDeadline (put_ctx fd x r) = r_shutdownDeadline r"
  by (simp_all add: put_ctx_def same_control_def)

lemma phase_ok_trans:
  assumes "r_state r1 = r_state r" "r_publishedState r1 = r_publishedState r" "r_failed r1 = r_failed r"
    "same_control r r1" "r_pendingClients r1 = r_pendingClients r" "r_shutdownDeadline r1 = r_shutdownDeadline r"
    "phase_ok opts n r1 out"
  shows "phase_ok opts n r out"
  using assms by (auto simp: phase_ok_def split: prod.splits sum.splits intro: same_control_trans)

lemma client_event_step:
  assumes opts: "opts_ok opts" and ok: "reactor_ok opts (n + maxReadBufferBytes opts) r" and set: "settled r"
    and conn: "um_find (r_clients r) fd = Some conn"
    and io: "io_ok h opts (r_state r) events io (ctx_of r conn)"
    and run: "HandleReadyEvent h ctl opts (r_state r) events io (ctx_of r conn) = (res, x)"
  shows "case res of Inl e \<Rightarrow> is_std_exception e
    | Inr _ \<Rightarrow> reactor_ok opts n (put_ctx fd x r) \<and> settled (put_ctx fd x r)"
proof (cases res)
  case (Inl e)
  then show ?thesis
    using HandleReadyEvent_ok [OF opts reactor_ok_client(1) [OF ok conn] io, of ctl] run Poller_std by fastforce
next
  case (Inr u)
  have x: "conn_ok opts n x" "conn_fd (x_conn x) = fd"
    "\<And>fd'. fd' \<noteq> fd \<Longrightarrow> poller_registry (x_poller x) fd' = registry_of r fd'"
    "\<not> conn_closed (x_conn x) \<Longrightarrow> registeredEvents (x_conn x) = DesiredEvents (x_conn x)"
    using HandleReadyEvent_ok [OF opts reactor_ok_client(1) [OF ok conn] io, of ctl] run Inr reactor_ok_client(2) [OF ok conn]
    by (auto simp: ctx_of_def registry_of_def poller_of_def)
  have "closeAfterWrite (x_conn x)" if "r_state r = Draining" "\<not> conn_closed (x_conn x)"
  proof -
    have "closing (ctx_of r conn)"
      using set reactor_ok_client(3) [OF ok conn] that(1)
      by (auto simp: settled_def conn_settled_def closing_def ctx_of_def)
    moreover have "HandleReadyEvent h ctl opts Draining events io (ctx_of r conn) = (Inr u, x)" using run Inr that(1) by simp
    ultimately show ?thesis using ReadyEvent_closing that(2) by (fastforce simp: closing_def)
  qed
  then have "conn_settled (r_state r) (x_conn x)" using x(4) by (auto simp: conn_settled_def)
  moreover have "reactor_wf r" using ok by (simp add: reactor_ok_def)
  ultimately show ?thesis using put_ctx_ok [OF ok conn x(1,2) x(3)] put_settled [OF _ set] Inr by simp
qed

lemma client_events_ok:
  assumes "opts_ok opts"
  shows "reactor_ok opts (n + length evs * maxReadBufferBytes opts) r \<Longrightarrow> settled r \<Longrightarrow> events_io_ok h ctl opts evs r \<Longrightarrow>
    phase_ok opts n r (client_events h ctl opts evs r)"
proof (induction evs arbitrary: r)
  case (Cons item evs)
  obtain ev io where item: "item = (ev, io)" by (cases item)
  have less: "reactor_ok opts (n + length evs * maxReadBufferBytes opts) r"
    using Cons.prems(1) by (rule reactor_ok_mono) simp
  show ?case
  proof (cases "ready_fd ev = control_fd r \<or> um_find (r_clients r) (ready_fd ev) = None")
    case True
    then show ?thesis using Cons.IH [OF less Cons.prems(2)] Cons.prems(3) item by (auto split: if_splits)
  next
    case False
    then obtain conn where conn: "um_find (r_clients r) (ready_fd ev) = Some conn" by blast
    obtain s x where x: "HandleReadyEvent h ctl opts (r_state r) (ready_events ev) io (ctx_of r conn) = (s, x)" by fastforce
    let ?r = "put_ctx (ready_fd ev) x r"
    have eq: "client_events h ctl opts (item # evs) r = bind_reacted (s, ?r) (\<lambda>_ r. client_events h ctl opts evs r)"
      using False conn x item by simp
    have budget: "reactor_ok opts ((n + length evs * maxReadBufferBytes opts) + maxReadBufferBytes opts) r"
      using Cons.prems(1) by (simp add: ac_simps)
    have io: "io_ok h opts (r_state r) (ready_events ev) io (ctx_of r conn)" using Cons.prems(3) False conn item by simp
    note step = client_event_step [OF assms budget Cons.prems(2) conn io x]
    show ?thesis
    proof (cases s)
      case (Inl e)
      then show ?thesis using step eq by (simp add: phase_ok_def)
    next
      case (Inr u)
      then have "phase_ok opts n ?r (client_events h ctl opts evs ?r)"
        using Cons.IH [of ?r] step Cons.prems(3) False conn x item by simp
      from phase_ok_trans [OF _ _ _ _ _ _ this] show ?thesis using eq Inr by simp
    qed
  qed
qed (simp add: phase_ok_def)

text \<open>Cleaning up leaves open connections only.\<close>

lemma registry_cleaned:
  assumes "cleaned (r_clients r) r r'" "reactor_ok opts n r" "fd \<notin> fst ` set (closed_items (r_clients r))"
  shows "registry_of r' fd = registry_of r fd"
  using assms by (auto simp: cleaned_def reactor_ok_def registry_of_def)

lemma open_not_closed:
  "um_ok items \<Longrightarrow> (fd, conn) \<in> set (open_items items) \<Longrightarrow> fd \<notin> fst ` set (closed_items items)"
  by (auto simp: open_items_def closed_items_def um_ok_def) (metis map_of_is_SomeI option.inject)

lemma Cleanup_ok:
  assumes "reactor_ok opts n r" "settled r"
  shows "phase_ok opts n r (Inr (), CleanupClosedConnections ctl r)" "all_open (CleanupClosedConnections ctl r)"
proof -
  let ?r = "CleanupClosedConnections ctl r"
  have wf: "reactor_wf r" using assms(1) by (simp add: reactor_ok_def)
  note c = Cleanup_cleaned [OF wf, of ctl]
  show "all_open ?r" using c(1) by (auto simp: all_open_def open_items_def)
  have ok: "um_ok (r_clients r)" using wf by (simp add: reactor_wf_def)
  have sub: "set (open_items (r_clients r)) \<subseteq> set (r_clients r)" "set (closed_items (r_clients r)) \<subseteq> set (r_clients r)"
    by (auto simp: open_items_def closed_items_def)
  have frame: "control_fd ?r = control_fd r" "r_pendingClients ?r = r_pendingClients r" "r_store ?r = r_store r"
    "r_poller ?r \<noteq> None" "poller_good (poller_of ?r)" "r_state ?r = r_state r"
    using c(2) assms(1) by (auto simp: cleaned_def same_control_def reactor_ok_def)
  have "registry_of ?r (control_fd r) = Some IoEvent_Read"
    using registry_cleaned [OF c(2) assms(1), of "control_fd r"] assms(1) sub(2) by (auto simp: reactor_ok_def)
  moreover have "\<forall>(fd, conn) \<in> set (r_clients ?r). conn_inv opts conn \<and> registry_of ?r fd = Some (registeredEvents conn)"
  proof (intro ballI, clarify)
    fix fd conn assume "(fd, conn) \<in> set (r_clients ?r)"
    then have mem: "(fd, conn) \<in> set (open_items (r_clients r))" using c(1) by simp
    then have "(fd, conn) \<in> set (r_clients r)" using sub(1) by blast
    moreover have "registry_of ?r fd = registry_of r fd"
      using registry_cleaned [OF c(2) assms(1) open_not_closed [OF ok mem]] .
    ultimately show "conn_inv opts conn \<and> registry_of ?r fd = Some (registeredEvents conn)"
      using assms(1) by (auto simp: reactor_ok_def)
  qed
  ultimately have "reactor_ok opts n ?r" using assms(1) c(1,3) sub(1) frame by (auto simp: reactor_ok_def)
  moreover have "settled ?r" using assms(2) c(1) sub(1) frame(6) by (auto simp: settled_def)
  ultimately show "phase_ok opts n r (Inr (), ?r)" using c(2) by (simp add: phase_ok_def cleaned_def)
qed

section \<open>Control requests\<close>

definition serving :: "NetworkOptions \<Rightarrow> nat \<Rightarrow> SubReactor \<Rightarrow> bool" where
  "serving opts n r \<longleftrightarrow> reactor_ok opts n r \<and> settled r \<and> all_open r \<and> r_publishedState r = r_state r \<and>
     \<not> r_failed r \<and> (r_state r = Running \<or> r_state r = Draining \<and> r_stopRequested r)"

definition halted :: "SubReactor \<Rightarrow> bool" where
  "halted r \<longleftrightarrow> r_state r = Stopped \<and> r_publishedState r = Stopped \<and> r_clients r = []"

definition goes_on :: "NetworkOptions \<Rightarrow> nat \<Rightarrow> unit reacted \<Rightarrow> bool" where
  "goes_on opts n out \<longleftrightarrow>
     (case out of (Inl e, r) \<Rightarrow> is_std_exception e | (Inr _, r) \<Rightarrow> serving opts n r \<or> halted r)"

lemma put_cases:
  assumes "um_ok m" "(k, c) \<in> set (um_put fd v m)"
  shows "k = fd \<and> c = v \<or> k \<noteq> fd \<and> (k, c) \<in> set m"
proof -
  have "um_find (um_put fd v m) k = Some c" using assms um_find_iff_mem [OF um.ok_put [OF assms(1)]] by blast
  then show ?thesis by (auto split: if_splits dest: um_find_SomeD)
qed

lemma put_ctx_self: "r_poller r \<noteq> None \<Longrightarrow> put_ctx fd (ctx_of r conn) r = r\<lparr>r_clients := um_put fd conn (r_clients r)\<rparr>"
  by (auto simp: put_ctx_def ctx_of_def)

lemma Stopped_halted: "r_clients r = [] \<Longrightarrow> halted (PublishState Stopped r)"
  by (simp add: halted_def PublishState_def)

lemma CheckShutdown_goes_on:
  assumes "serving opts n r"
  shows "goes_on opts n (Inr (), CheckShutdownProgress ctl now r)"
proof -
  have "reactor_wf r" using assms by (simp add: serving_def reactor_ok_def)
  then show ?thesis using assms ForceClose_clients(1) [of r ctl]
    by (simp add: goes_on_def CheckShutdownProgress_def Stopped_halted)
qed

lemma init_settled: "conn_settled Running ((Connection_init fd)\<lparr>registeredEvents := DesiredEvents (Connection_init fd)\<rparr>)"
  by (simp add: conn_settled_def DesiredEvents_def)

lemma AddClient_ok:
  assumes ok: "reactor_ok opts n r" and set: "settled r" and opn: "all_open r" and run: "r_state r = Running"
    and fd: "0 \<le> fd" "fd \<noteq> control_fd r" and add: "AddClientInLoop ctl fd r = (res, r')"
  shows "phase_ok opts n r (Inr (), r') \<and> all_open r'"
proof -
  have wf: "reactor_wf r" using ok by (simp add: reactor_ok_def)
  note own = AddClient_keeps [OF wf fd(1) add]
  show ?thesis
  proof (cases "um_find (r_clients r) fd")
    case Some
    then have r': "r' = r\<lparr>r_closedFds := snd (ScopedFd_destroy fd (r_closedFds r))\<rparr>"
      using add by (simp add: AddClientInLoop_def)
    show ?thesis using assms own
      by (simp add: r' phase_ok_def reactor_ok_def settled_def all_open_def registry_of_def poller_of_def)
  next
    case None
    let ?c = "(Connection_init fd)\<lparr>registeredEvents := DesiredEvents (Connection_init fd)\<rparr>"
    obtain a p where a: "Poller_Add ctl (the (r_poller r)) fd (DesiredEvents (Connection_init fd)) = (a, p)" by fastforce
    have good: "poller_good (the (r_poller r))" using ok by (simp add: reactor_ok_def poller_of_def)
    note law = pl.add_law [OF good a]
    show ?thesis
    proof (cases a)
      case (Some e)
      then have r': "r' = r\<lparr>r_poller := Some p, r_closedFds := snd (ScopedFd_destroy fd (r_closedFds r))\<rparr>"
        using add None a by (simp add: AddClientInLoop_def)
      show ?thesis using assms own law Some
        by (simp add: r' phase_ok_def reactor_ok_def settled_def all_open_def registry_of_def poller_of_def)
    next
      case added: None
      then have r': "r' = r\<lparr>r_poller := Some p, r_clients := r_clients r @ [(fd, ?c)],
          r_metrics := OnConnectionAccepted (r_metrics r)\<rparr>"
        using add None a um_put_new [OF None] by (simp add: AddClientInLoop_def Let_def)
      have new: "fd \<notin> fst ` set (r_clients r)" using None by (simp add: um_find_def map_of_eq_None_iff)
      have "conn_inv opts ?c" using conn_inv_init [of opts fd] by (simp add: conn_inv_def)
      moreover have "\<not> conn_closed ?c" by (simp add: Connection_init_def)
      moreover have reg: "registry_of r' = (registry_of r)(fd \<mapsto> registeredEvents ?c)" "poller_good (poller_of r')"
        using law added by (simp_all add: r' registry_of_def poller_of_def)
      have "conn_inv opts c \<and> registry_of r' k = Some (registeredEvents c)" if "(k, c) \<in> set (r_clients r)" for k c
      proof -
        have "k \<noteq> fd" using that new by force
        then show ?thesis using that ok reg(1) by (auto simp: reactor_ok_def)
      qed
      moreover have "registry_of r' (control_fd r) = Some IoEvent_Read" using ok reg(1) fd(2) by (simp add: reactor_ok_def)
      ultimately have "reactor_ok opts n r'"
        using ok own reg fd(2) unfolding reactor_ok_def by (auto simp: r')
      moreover have "settled r'" "all_open r'"
        using set opn run init_settled [of fd] by (auto simp: r' settled_def all_open_def Connection_init_def)
      ultimately show ?thesis using own by (simp add: phase_ok_def) (simp add: r')
    qed
  qed
qed

lemma add_clients_ok:
  "reactor_ok opts n r \<Longrightarrow> settled r \<Longrightarrow> all_open r \<Longrightarrow> r_state r = Running \<Longrightarrow>
   \<forall>fd \<in> set fds. 0 \<le> fd \<and> fd \<noteq> control_fd r \<Longrightarrow>
   phase_ok opts n r (Inr (), add_clients ctl fds r) \<and> all_open (add_clients ctl fds r)"
proof (induction fds arbitrary: r)
  case (Cons fd fds)
  obtain res r1 where r1: "AddClientInLoop ctl fd r = (res, r1)" by fastforce
  have "phase_ok opts n r (Inr (), r1)" "all_open r1"
    using AddClient_ok [OF Cons.prems(1-4) _ _ r1] Cons.prems(5) by simp_all
  then have p: "reactor_ok opts n r1" "settled r1" "r_state r1 = r_state r" "control_fd r1 = control_fd r"
    "r_publishedState r1 = r_publishedState r" "r_failed r1 = r_failed r" "same_control r r1"
    "r_pendingClients r1 = r_pendingClients r" "r_shutdownDeadline r1 = r_shutdownDeadline r" "all_open r1"
    by (simp_all add: phase_ok_def same_control_def)
  then have "phase_ok opts n r1 (Inr (), add_clients ctl fds r1)" "all_open (add_clients ctl fds r1)"
    using Cons.IH [of r1] Cons.prems(4,5) by simp_all
  then show ?case using phase_ok_trans [OF p(3,5,6,7,8,9)] r1 by (cases res) simp_all
qed (simp add: phase_ok_def)

lemma drain_step:
  assumes opts: "opts_ok opts" and ok: "reactor_ok opts n r" and state: "r_state r = Draining"
    and conn: "um_find (r_clients r) fd = Some conn" and some: "\<not> OutputBuffer_Empty (writeBuffer conn)"
    and x: "RefreshConnectionInterest ctl opts (ctx_of r (conn\<lparr>readPaused := True, closeAfterWrite := True\<rparr>)) = (s, x)"
  shows "case s of Inl e \<Rightarrow> is_std_exception e
    | Inr _ \<Rightarrow> reactor_ok opts n (put_ctx fd x r) \<and> conn_settled Draining (x_conn x)"
proof -
  let ?y = "ctx_of r (conn\<lparr>readPaused := True, closeAfterWrite := True\<rparr>)"
  have c: "conn_ok opts n (ctx_of r conn)" "conn_fd conn = fd" using reactor_ok_client [OF ok conn] by simp_all
  then have y: "conn_inv opts (x_conn ?y)" "poller_good (x_poller ?y)" "registered (x_conn ?y) (x_poller ?y)"
    "store_ready n (x_store ?y)"
    using some by (auto simp: conn_ok_def conn_inv_def registered_def ctx_of_def Empty_iff)
  have close: "closing ?y" by (simp add: closing_def ctx_of_def)
  from opts y(1-3) show ?thesis
  proof (cases rule: RefreshConnectionInterest_cases [where ctl = ctl])
    case (Ok x')
    then have [simp]: "x' = x" "s = Inr ()" using x by simp_all
    have "conn_ok opts n x" using Ok y(4) by (simp add: conn_ok_def)
    moreover have "conn_fd (x_conn x) = fd" "\<And>fd'. fd' \<noteq> fd \<Longrightarrow> poller_registry (x_poller x) fd' = registry_of r fd'"
      using Ok(7,9) c(2) by (simp_all add: ctx_of_def registry_of_def poller_of_def)
    moreover have "closing x" using Refresh_closing [OF close, of ctl opts] x by simp
    ultimately show ?thesis using put_ctx_ok [OF ok conn] Ok(5) by (auto simp: conn_settled_def closing_def)
  next
    case (Failed x' e)
    then show ?thesis using x Poller_std by fastforce
  qed
qed

lemma drain_loop_ok:
  assumes "opts_ok opts"
  shows "reactor_ok opts n r \<Longrightarrow> r_state r = Draining \<Longrightarrow>
    \<forall>(fd, conn) \<in> set (r_clients r). fd \<notin> set fds \<longrightarrow> conn_settled Draining conn \<Longrightarrow>
    phase_ok opts n r (drain_loop ctl opts fds r)"
proof (induction fds arbitrary: r)
  case Nil
  then show ?case by (auto simp: phase_ok_def settled_def)
next
  case (Cons fd fds)
  have umok: "um_ok (r_clients r)" using Cons.prems(1) by (simp add: reactor_ok_def reactor_wf_def)
  have rest: "\<forall>(k, c) \<in> set (r_clients (put_ctx fd x r)). k \<notin> set fds \<longrightarrow> conn_settled Draining c"
    if "conn_settled Draining (x_conn x)" for x
    using that Cons.prems(3) put_cases [OF umok] by (fastforce simp: put_ctx_def)
  show ?case
  proof (cases "um_find (r_clients r) fd")
    case None
    then have "\<forall>(k, c) \<in> set (r_clients r). k \<noteq> fd" by (force simp: um_find_def map_of_eq_None_iff)
    then have "\<forall>(k, c) \<in> set (r_clients r). k \<notin> set fds \<longrightarrow> conn_settled Draining c" using Cons.prems(3) by auto
    from Cons.IH [OF Cons.prems(1,2) this] show ?thesis using None by simp
  next
    case (Some conn)
    let ?flag = "conn\<lparr>readPaused := True, closeAfterWrite := True\<rparr>"
    show ?thesis
    proof (cases "OutputBuffer_Empty (writeBuffer conn)")
      case True
      let ?x = "ctx_of r (MarkClosed ?flag)"
      have "conn_ok opts n ?x" "conn_fd (x_conn ?x) = fd" "x_poller ?x = poller_of r"
        using reactor_ok_client [OF Cons.prems(1) Some] by (auto simp: conn_ok_def ctx_of_def registered_def poller_of_def)
      then have "reactor_ok opts n (put_ctx fd ?x r)"
        using put_ctx_ok [OF Cons.prems(1) Some] by (simp add: registry_of_def)
      moreover have "conn_settled Draining (x_conn ?x)" by (simp add: conn_settled_def ctx_of_def)
      ultimately have "phase_ok opts n (put_ctx fd ?x r) (drain_loop ctl opts fds (put_ctx fd ?x r))"
        using Cons.IH [of "put_ctx fd ?x r"] Cons.prems(2) rest by simp
      moreover have "drain_loop ctl opts (fd # fds) r = drain_loop ctl opts fds (put_ctx fd ?x r)"
        using Some True put_ctx_self [of r fd] Cons.prems(1) by (simp add: reactor_ok_def)
      ultimately show ?thesis using phase_ok_trans [of "put_ctx fd ?x r" r] by simp
    next
      case False
      obtain s x where x: "RefreshConnectionInterest ctl opts (ctx_of r ?flag) = (s, x)" by fastforce
      have eq: "drain_loop ctl opts (fd # fds) r = bind_reacted (s, put_ctx fd x r) (\<lambda>_ r. drain_loop ctl opts fds r)"
        using Some False x by simp
      note step = drain_step [OF assms Cons.prems(1,2) Some False x]
      show ?thesis
      proof (cases s)
        case (Inl e)
        then show ?thesis using step eq by (simp add: phase_ok_def)
      next
        case (Inr u)
        then have "reactor_ok opts n (put_ctx fd x r)" "conn_settled Draining (x_conn x)" using step by simp_all
        from Cons.IH [OF this(1) _ rest [OF this(2)]]
        have "phase_ok opts n (put_ctx fd x r) (drain_loop ctl opts fds (put_ctx fd x r))" using Cons.prems(2) by simp
        then show ?thesis using phase_ok_trans [of "put_ctx fd x r" r] eq Inr by simp
      qed
    qed
  qed
qed

lemma BeginGraceful_ok:
  assumes "opts_ok opts" "reactor_ok opts n r" "settled r" "all_open r" "r_state r = Running \<or> r_state r = Draining"
    "r_publishedState r = r_state r" "\<not> r_failed r" "r_stopRequested r"
  shows "goes_on opts n (BeginGracefulShutdown ctl opts deadline r)"
proof (cases "r_state r = Running")
  case True
  let ?r = "PublishState Draining (r\<lparr>r_shutdownDeadline := deadline\<rparr>)"
  have ok: "reactor_ok opts n ?r" "r_state ?r = Draining"
    using assms(2) by (simp_all add: reactor_ok_def reactor_wf_def PublishState_def registry_of_def poller_of_def)
  have unset: "\<forall>(fd, conn) \<in> set (r_clients ?r). fd \<notin> set (map fst (r_clients r)) \<longrightarrow> conn_settled Draining conn"
    by (auto simp: PublishState_def rev_image_eqI)
  obtain s r1 where r1: "drain_loop ctl opts (map fst (r_clients r)) ?r = (s, r1)" by fastforce
  have p: "phase_ok opts n ?r (s, r1)" using drain_loop_ok [OF assms(1) ok unset, of ctl] r1 by simp
  have eq: "BeginGracefulShutdown ctl opts deadline r = bind_reacted (s, r1) (\<lambda>_ r.
      let r = CleanupClosedConnections ctl r in (Inr (), if r_clients r = [] then PublishState Stopped r else r))"
    using True r1 by (simp add: BeginGracefulShutdown_def PublishState_def)
  show ?thesis
  proof (cases s)
    case (Inl e)
    then show ?thesis using eq p by (simp add: goes_on_def phase_ok_def)
  next
    case (Inr u)
    let ?r2 = "CleanupClosedConnections ctl r1"
    have r1': "reactor_ok opts n r1" "settled r1" "r_state r1 = Draining" "r_publishedState r1 = Draining"
      "\<not> r_failed r1" "r_stopRequested r1"
      using p Inr assms(7,8) by (simp_all add: phase_ok_def PublishState_def same_control_def)
    have "serving opts n ?r2"
      using Cleanup_ok [OF r1'(1,2), of ctl] r1' by (simp add: phase_ok_def serving_def same_control_def)
    then show ?thesis using eq Inr Stopped_halted [of ?r2] by (simp add: goes_on_def Let_def)
  qed
qed (use assms in \<open>simp add: BeginGracefulShutdown_def goes_on_def serving_def\<close>)

lemma Process_ok:
  assumes "opts_ok opts" "serving opts n r"
  shows "goes_on opts n (ProcessControlRequests ctl opts r)"
proof -
  let ?taken = "r\<lparr>r_pendingClients := []\<rparr>"
  let ?dropped = "?taken\<lparr>r_closedFds := r_closedFds r @ r_pendingClients r\<rparr>"
  have s: "reactor_ok opts n r" "settled r" "all_open r" "r_publishedState r = r_state r" "\<not> r_failed r"
    "r_state r = Running \<or> r_state r = Draining \<and> r_stopRequested r" using assms(2) by (simp_all add: serving_def)
  have t: "reactor_ok opts n ?taken" "settled ?taken" "all_open ?taken"
    and d: "reactor_ok opts n ?dropped" "settled ?dropped" "all_open ?dropped"
    using s by (simp_all add: reactor_ok_def reactor_wf_def registry_of_def poller_of_def settled_def all_open_def)
  consider "r_forceStopRequested r" | "\<not> r_forceStopRequested r" "r_stopRequested r"
    | "\<not> r_forceStopRequested r" "\<not> r_stopRequested r" by blast
  then show ?thesis
  proof cases
    case 1
    have "reactor_wf ?dropped" using d(1) by (simp add: reactor_ok_def)
    then show ?thesis using 1 ForceClose_clients(1) [of ?dropped ctl]
      by (simp add: ProcessControlRequests_def goes_on_def Stopped_halted)
  next
    case 2
    then show ?thesis using BeginGraceful_ok [OF assms(1) d, of ctl "r_requestedShutdownDeadline r"] s(4-6)
      by (auto simp: ProcessControlRequests_def)
  next
    case 3
    have "\<forall>fd \<in> set (r_pendingClients r). 0 \<le> fd \<and> fd \<noteq> control_fd ?taken" "r_state ?taken = Running"
      using s(1,6) 3 by (auto simp: reactor_ok_def reactor_wf_def)
    then show ?thesis using 3 add_clients_ok [OF t, of "r_pendingClients r" ctl] s
      by (auto simp: ProcessControlRequests_def goes_on_def phase_ok_def serving_def same_control_def)
  qed
qed

lemma loop_control_ok:
  "opts_ok opts \<Longrightarrow> serving opts n r \<Longrightarrow> goes_on opts n (loop_control ctl opts evs r)"
  using Process_ok [of opts n r ctl] by (simp add: loop_control_def goes_on_def)

lemma loop_clients_ok:
  assumes "opts_ok opts" "serving opts (n + length evs * maxReadBufferBytes opts) r"
    and "events_io_ok h ctl opts (zip evs (map (li_io inp) [0..<length evs])) r"
  shows "goes_on opts n (loop_clients h ctl opts inp evs r)"
proof -
  let ?evs = "zip evs (map (li_io inp) [0..<length evs])"
  have s: "reactor_ok opts (n + length ?evs * maxReadBufferBytes opts) r" "settled r" "r_publishedState r = r_state r"
    "\<not> r_failed r" "r_state r = Running \<or> r_state r = Draining \<and> r_stopRequested r" "r_state r \<noteq> Stopped"
    using assms(2) by (auto simp: serving_def)
  obtain q r1 where r1: "client_events h ctl opts ?evs r = (q, r1)" by fastforce
  have p: "phase_ok opts n r (q, r1)" using client_events_ok [OF assms(1) s(1,2) assms(3)] r1 by simp
  show ?thesis
  proof (cases q)
    case (Inl e)
    then show ?thesis using p r1 s(6) by (simp add: loop_clients_def goes_on_def phase_ok_def)
  next
    case (Inr u)
    let ?r2 = "CleanupClosedConnections ctl r1"
    have r1': "reactor_ok opts n r1" "settled r1" "r_state r1 = r_state r" "r_publishedState r1 = r_state r"
      "\<not> r_failed r1" "r_stopRequested r1 = r_stopRequested r"
      using p Inr s by (simp_all add: phase_ok_def same_control_def)
    have "serving opts n ?r2"
      using Cleanup_ok [OF r1'(1,2), of ctl] r1' s(5) by (simp add: phase_ok_def serving_def same_control_def)
    from CheckShutdown_goes_on [OF this] show ?thesis using Inr r1 s(6) by (simp add: loop_clients_def Let_def)
  qed
qed

end
