(* ===== verification/Reactor_Loop.thy ===== *)
theory Reactor_Loop
  imports Reactor_Serving
begin

text \<open>
  A running sub-reactor and the threads that control it, interleaved: the critical sections of
  \<open>EnqueClient\<close>, \<open>Stop\<close> and \<open>ForceStop\<close>, the notifications that follow them, and the three phases of
  every round of the event loop are the steps of a relation.  The other reactors may change the store
  and the metrics at any time.
\<close>

section \<open>Steps\<close>

text \<open>Where the thread of the loop is: at \<open>Wait\<close>, after it (and after draining the control channel),
  after the control requests, or gone.\<close>

datatype loop_pc = AtWait | AtControl loop_input "ReadyEvent list" | AtClients loop_input "ReadyEvent list" | Exited

text \<open>The reactor, the place of its thread, the number of control calls that have left their critical
  section and not yet written to the channel, the descriptors handed to \<open>EnqueClient\<close> so far, and a
  bound on the commands still to come, which keeps the counters of the store within 64 bits.\<close>

record reactor_config =
  c_reactor :: SubReactor
  c_pc :: loop_pc
  c_notifying :: nat
  c_handed :: "int list"
  c_budget :: nat

definition open_fds :: "SubReactor \<Rightarrow> int list" where
  "open_fds r = r_pendingClients r @ map fst (r_clients r)"

text \<open>After a round the loop tests its state.\<close>

definition next_pc :: "SubReactor \<Rightarrow> loop_pc" where
  "next_pc r = (if r_state r = Stopped then Exited else AtWait)"

inductive reactor_step ::
  "endianness \<Rightarrow> ctl_oracle \<Rightarrow> NetworkOptions \<Rightarrow> nat \<Rightarrow> reactor_config \<Rightarrow> reactor_config \<Rightarrow> bool"
  for h ctl opts cap where
  enqueue_taken:
    "\<lbrakk>ScopedFd_Valid fd; fd \<notin> set (open_fds (c_reactor c)); fd \<noteq> control_fd (c_reactor c);
      EnqueClient_locked fd (c_reactor c) = (True, r)\<rbrakk> \<Longrightarrow>
     reactor_step h ctl opts cap c
       (c\<lparr>c_reactor := r, c_notifying := c_notifying c + 1, c_handed := c_handed c @ [fd]\<rparr>)"
| enqueue_refused:
    "\<lbrakk>ScopedFd_Valid fd; EnqueClient_locked fd (c_reactor c) = (False, r)\<rbrakk> \<Longrightarrow>
     reactor_step h ctl opts cap c
       (c\<lparr>c_reactor := r\<lparr>r_closedFds := snd (ScopedFd_destroy fd (r_closedFds r))\<rparr>, c_handed := c_handed c @ [fd]\<rparr>)"
| stop:
    "reactor_step h ctl opts cap c
       (c\<lparr>c_reactor := Stop_locked deadline (c_reactor c), c_notifying := c_notifying c + 1\<rparr>)"
| force_stop:
    "reactor_step h ctl opts cap c
       (c\<lparr>c_reactor := ForceStop_locked (c_reactor c), c_notifying := c_notifying c + 1\<rparr>)"
| notify:
    "\<lbrakk>0 < c_notifying c; write_returns_ok cap writes (wk_queue (r_wakeup (c_reactor c)));
      notify_control writes (c_reactor c) = Some r\<rbrakk> \<Longrightarrow>
     reactor_step h ctl opts cap c (c\<lparr>c_reactor := r, c_notifying := c_notifying c - 1\<rparr>)"
| others:
    "\<lbrakk>b \<le> c_budget c; store_ready b s\<rbrakk> \<Longrightarrow>
     reactor_step h ctl opts cap c
       (c\<lparr>c_reactor := (c_reactor c)\<lparr>r_store := s, r_metrics := m\<rparr>, c_budget := b\<rparr>)"
| wait:
    "\<lbrakk>c_pc c = AtWait; read_returns_ok (li_reads inp) (wk_queue (r_wakeup (c_reactor c)));
      loop_wait inp (c_reactor c) = (Inr evs, r)\<rbrakk> \<Longrightarrow>
     reactor_step h ctl opts cap c (c\<lparr>c_reactor := r, c_pc := AtControl inp evs\<rparr>)"
| wait_fails:
    "\<lbrakk>c_pc c = AtWait; read_returns_ok (li_reads inp) (wk_queue (r_wakeup (c_reactor c)));
      loop_guard (loop_wait inp (c_reactor c)) = (Inl e, r); is_std_exception e\<rbrakk> \<Longrightarrow>
     reactor_step h ctl opts cap c (c\<lparr>c_reactor := r, c_pc := Exited\<rparr>)"
| control:
    "\<lbrakk>c_pc c = AtControl inp evs; loop_control ctl opts evs (c_reactor c) = (Inr u, r)\<rbrakk> \<Longrightarrow>
     reactor_step h ctl opts cap c (c\<lparr>c_reactor := r, c_pc := AtClients inp evs\<rparr>)"
| control_fails:
    "\<lbrakk>c_pc c = AtControl inp evs; loop_guard (loop_control ctl opts evs (c_reactor c)) = (Inl e, r)\<rbrakk> \<Longrightarrow>
     reactor_step h ctl opts cap c (c\<lparr>c_reactor := r, c_pc := Exited\<rparr>)"
| clients:
    "\<lbrakk>c_pc c = AtClients inp evs; b + length evs * maxReadBufferBytes opts \<le> c_budget c;
      events_io_ok h ctl opts (zip evs (map (li_io inp) [0..<length evs])) (c_reactor c);
      loop_clients h ctl opts inp evs (c_reactor c) = (Inr u, r)\<rbrakk> \<Longrightarrow>
     reactor_step h ctl opts cap c (c\<lparr>c_reactor := r, c_pc := next_pc r, c_budget := b\<rparr>)"
| clients_fail:
    "\<lbrakk>c_pc c = AtClients inp evs; b + length evs * maxReadBufferBytes opts \<le> c_budget c;
      events_io_ok h ctl opts (zip evs (map (li_io inp) [0..<length evs])) (c_reactor c);
      loop_guard (loop_clients h ctl opts inp evs (c_reactor c)) = (Inl e, r)\<rbrakk> \<Longrightarrow>
     reactor_step h ctl opts cap c (c\<lparr>c_reactor := r, c_pc := Exited, c_budget := b\<rparr>)"

definition started :: "SubReactor \<Rightarrow> nat \<Rightarrow> reactor_config" where
  "started r budget = \<lparr>c_reactor = r, c_pc = AtWait, c_notifying = 0, c_handed = [], c_budget = budget\<rparr>"

section \<open>What the phases leave alone\<close>

lemma client_events_frame:
  "client_events h ctl opts evs r = (res, r') \<Longrightarrow>
   r_state r' = r_state r \<and> r_pendingClients r' = r_pendingClients r \<and> r_shutdownDeadline r' = r_shutdownDeadline r"
proof (induction evs arbitrary: r)
  case (Cons item evs)
  obtain ev io where item: "item = (ev, io)" by (cases item)
  show ?case
  proof (cases "ready_fd ev = control_fd r \<or> um_find (r_clients r) (ready_fd ev) = None")
    case True
    then show ?thesis using Cons item by (auto split: if_splits)
  next
    case False
    then obtain conn where conn: "um_find (r_clients r) (ready_fd ev) = Some conn" by blast
    obtain s x where x: "HandleReadyEvent h ctl opts (r_state r) (ready_events ev) io (ctx_of r conn) = (s, x)" by fastforce
    have "bind_reacted (s, put_ctx (ready_fd ev) x r) (\<lambda>_ r. client_events h ctl opts evs r) = (res, r')"
      using Cons.prems False conn x item by simp
    then show ?thesis using Cons.IH [of "put_ctx (ready_fd ev) x r"] by (cases s) auto
  qed
qed simp

lemma loop_clients_frame:
  assumes "reactor_wf r" "loop_clients h ctl opts inp evs r = (res, r')"
  shows "(r_state r' = r_state r \<or> r_state r' = Stopped) \<and> r_pendingClients r' = r_pendingClients r"
proof (cases "r_state r = Stopped")
  case False
  let ?evs = "zip evs (map (li_io inp) [0..<length evs])"
  obtain s r1 where r1: "client_events h ctl opts ?evs r = (s, r1)" by fastforce
  note f1 = client_events_frame [OF r1] and wf1 = keeps_wf [OF client_events_keeps [OF assms(1) r1]]
  note c = Cleanup_cleaned [OF wf1, of ctl]
  have "r_state (CleanupClosedConnections ctl r1) = r_state r"
    "r_pendingClients (CleanupClosedConnections ctl r1) = r_pendingClients r"
    using c(2) f1 by (simp_all add: cleaned_def)
  then show ?thesis using assms(2) False r1 f1 ForceClose_clients(3) [OF c(3), of ctl]
    by (cases s) (auto simp: loop_clients_def CheckShutdownProgress_def PublishState_def Let_def split: if_splits)
qed (use assms in \<open>auto simp: loop_clients_def\<close>)

text \<open>What other threads have asked for and the loop has not acted on.\<close>

definition unheard :: "SubReactor \<Rightarrow> bool" where
  "unheard r \<longleftrightarrow> r_pendingClients r \<noteq> [] \<or> r_stopRequested r \<and> r_state r = Running \<or>
     r_forceStopRequested r \<and> r_state r \<noteq> Stopped"

lemma Process_hears:
  assumes "opts_ok opts" "serving opts n r" "ProcessControlRequests ctl opts r = (Inr u, r')"
  shows "\<not> unheard r' \<and> (r_state r = Draining \<longrightarrow> r_state r' \<noteq> Running)"
proof -
  let ?taken = "r\<lparr>r_pendingClients := []\<rparr>"
  let ?dropped = "?taken\<lparr>r_closedFds := r_closedFds r @ r_pendingClients r\<rparr>"
  have wf: "reactor_wf r" using assms(2) by (simp add: serving_def reactor_ok_def)
  then have wfs: "reactor_wf ?taken" "reactor_wf ?dropped" by (simp_all add: reactor_wf_def)
  have s: "reactor_ok opts n r" "settled r" "all_open r" "r_publishedState r = r_state r" "\<not> r_failed r"
    "r_state r = Running \<or> r_state r = Draining \<and> r_stopRequested r" using assms(2) by (simp_all add: serving_def)
  have d: "reactor_ok opts n ?dropped" "settled ?dropped" "all_open ?dropped"
    and t: "reactor_ok opts n ?taken" "settled ?taken" "all_open ?taken"
    using s by (simp_all add: reactor_ok_def reactor_wf_def registry_of_def poller_of_def settled_def all_open_def)
  consider (force) "r_forceStopRequested r" | (stop) "\<not> r_forceStopRequested r" "r_stopRequested r"
    | (add) "\<not> r_forceStopRequested r" "\<not> r_stopRequested r" by blast
  then show ?thesis
  proof cases
    case force
    then have "r' = PublishState Stopped (ForceCloseAllConnections ctl ?dropped)"
      using assms(3) by (simp add: ProcessControlRequests_def)
    then show ?thesis using ForceClose_clients(3) [OF wfs(2), of ctl] by (simp add: unheard_def PublishState_def)
  next
    case stop
    then have b: "BeginGracefulShutdown ctl opts (r_requestedShutdownDeadline r) ?dropped = (Inr u, r')"
      using assms(3) by (simp add: ProcessControlRequests_def)
    have control: "same_control r r'" using Process_keeps [OF wf assms(3)] by (simp add: keeps_def)
    show ?thesis
    proof (cases "r_state r = Running")
      case True
      let ?r = "PublishState Draining (?dropped\<lparr>r_shutdownDeadline := r_requestedShutdownDeadline r\<rparr>)"
      have ok: "reactor_ok opts n ?r" "r_state ?r = Draining"
        using d(1) by (simp_all add: reactor_ok_def reactor_wf_def PublishState_def registry_of_def poller_of_def)
      have unset: "\<forall>(fd, conn) \<in> set (r_clients ?r). fd \<notin> set (map fst (r_clients r)) \<longrightarrow> conn_settled Draining conn"
        by (auto simp: PublishState_def rev_image_eqI)
      obtain q r1 where r1: "drain_loop ctl opts (map fst (r_clients r)) ?r = (q, r1)" by fastforce
      have p: "phase_ok opts n ?r (q, r1)" using drain_loop_ok [OF assms(1) ok unset, of ctl] r1 by simp
      have q: "q = Inr ()" "(Inr u, r') = (Inr (), let r = CleanupClosedConnections ctl r1
          in if r_clients r = [] then PublishState Stopped r else r)"
        using b True r1 by (cases q; simp add: BeginGracefulShutdown_def PublishState_def Let_def)+
      have r1': "reactor_wf r1" "r_state r1 = Draining" "r_pendingClients r1 = []"
        using p q(1) by (simp_all add: phase_ok_def reactor_ok_def PublishState_def)
      have "r_state (CleanupClosedConnections ctl r1) = Draining"
        "r_pendingClients (CleanupClosedConnections ctl r1) = []"
        using Cleanup_cleaned(2) [OF r1'(1), of ctl] r1' by (simp_all add: cleaned_def)
      then show ?thesis using q(2) control stop True by (auto simp: unheard_def same_control_def PublishState_def Let_def)
    next
      case False
      then have "r' = ?dropped" using b by (simp add: BeginGracefulShutdown_def)
      then show ?thesis using False stop by (simp add: unheard_def)
    qed
  next
    case add
    then have r': "r' = add_clients ctl (r_pendingClients r) ?taken" "r_state r = Running"
      using assms(3) s(6) by (simp_all add: ProcessControlRequests_def)
    have "\<forall>fd \<in> set (r_pendingClients r). 0 \<le> fd \<and> fd \<noteq> control_fd ?taken"
      using s(1) by (auto simp: reactor_ok_def reactor_wf_def)
    from add_clients_ok [OF t _ this, of ctl] show ?thesis using r' add
      by (simp add: phase_ok_def unheard_def same_control_def)
  qed
qed

section \<open>The invariant\<close>

definition fds_ok :: "reactor_config \<Rightarrow> bool" where
  "fds_ok c \<longleftrightarrow> reactor_wf (c_reactor c) \<and> mset (c_handed c) = owned_fds (c_reactor c) \<and>
     distinct (open_fds (c_reactor c))"

fun place_ok :: "NetworkOptions \<Rightarrow> nat \<Rightarrow> loop_pc \<Rightarrow> SubReactor \<Rightarrow> bool" where
  "place_ok opts n Exited r \<longleftrightarrow> halted r"
| "place_ok opts n (AtClients inp evs) r \<longleftrightarrow> serving opts n r \<or> halted r"
| "place_ok opts n pc r \<longleftrightarrow> serving opts n r"

text \<open>A request the loop has not acted on is announced: by a byte in the channel, by a notification to
  come, or because the loop has just drained the channel and is about to look.\<close>

definition announced :: "reactor_config \<Rightarrow> bool" where
  "announced c \<longleftrightarrow> 0 < wk_queue (r_wakeup (c_reactor c)) \<or> 0 < c_notifying c \<or>
     (\<exists>inp evs. c_pc c = AtControl inp evs \<and> control_received (c_reactor c) evs)"

definition loop_inv :: "NetworkOptions \<Rightarrow> nat \<Rightarrow> reactor_config \<Rightarrow> bool" where
  "loop_inv opts cap c \<longleftrightarrow> fds_ok c \<and> place_ok opts (c_budget c) (c_pc c) (c_reactor c) \<and>
     wk_queue (r_wakeup (c_reactor c)) \<le> cap \<and>
     (r_state (c_reactor c) \<noteq> Stopped \<and> unheard (c_reactor c) \<longrightarrow> announced c)"

lemma place_ok_cases:
  "place_ok opts n pc r \<Longrightarrow> serving opts n r \<and> pc \<noteq> Exited \<or> halted r \<and> (pc = Exited \<or> (\<exists>inp evs. pc = AtClients inp evs))"
  by (cases pc) auto

lemma place_ok_map:
  "place_ok opts n pc r \<Longrightarrow> (serving opts n r \<Longrightarrow> serving opts m r') \<Longrightarrow> (halted r \<Longrightarrow> halted r') \<Longrightarrow> place_ok opts m pc r'"
  by (cases pc) auto

text \<open>Descriptors only leave the open ones by being closed.\<close>

lemma keeps_open:
  assumes "keeps r r'" "distinct (open_fds r)"
  shows "distinct (open_fds r')"
proof -
  obtain fds where fds: "r_closedFds r' = r_closedFds r @ fds" using assms(1) by (auto simp: keeps_def closed_grows_def)
  have "owned_fds r' = owned_fds r" using assms(1) by (simp add: keeps_def)
  then have "mset (open_fds r' @ fds) = mset (open_fds r)"
    using fds by (simp add: owned_fds_def open_fds_def ac_simps)
  then have "distinct (open_fds r' @ fds)" using assms(2) by (metis mset_eq_imp_distinct_iff)
  then show ?thesis by simp
qed

lemma keeps_fds:
  "fds_ok c \<Longrightarrow> keeps (c_reactor c) r \<Longrightarrow> fds_ok (c\<lparr>c_reactor := r, c_pc := pc, c_budget := b\<rparr>)"
  using keeps_open [of "c_reactor c" r] by (auto simp: fds_ok_def keeps_def)

lemma keeps_queue: "keeps r r' \<Longrightarrow> r_wakeup r' = r_wakeup r" by (simp add: keeps_def same_control_def)

lemma failed_halted: "halted (loop_failed r)" by (simp add: loop_failed_def halted_def PublishState_def)

lemma not_halted: "serving opts n r \<Longrightarrow> r_state r \<noteq> Stopped" by (auto simp: serving_def)

text \<open>The control methods.\<close>

lemma enqueue_inv:
  assumes "loop_inv opts cap c" "ScopedFd_Valid fd" "EnqueClient_locked fd (c_reactor c) = (b, r)"
  shows "b \<Longrightarrow> fd \<notin> set (open_fds (c_reactor c)) \<Longrightarrow> fd \<noteq> control_fd (c_reactor c) \<Longrightarrow>
      loop_inv opts cap (c\<lparr>c_reactor := r, c_notifying := c_notifying c + 1, c_handed := c_handed c @ [fd]\<rparr>)"
    "\<not> b \<Longrightarrow> loop_inv opts cap
      (c\<lparr>c_reactor := r\<lparr>r_closedFds := snd (ScopedFd_destroy fd (r_closedFds r))\<rparr>, c_handed := c_handed c @ [fd]\<rparr>)"
proof -
  let ?r = "c_reactor c"
  have inv: "fds_ok c" "place_ok opts (c_budget c) (c_pc c) ?r" "wk_queue (r_wakeup ?r) \<le> cap"
    "r_state ?r \<noteq> Stopped \<and> unheard ?r \<longrightarrow> announced c" using assms(1) by (simp_all add: loop_inv_def)
  show "loop_inv opts cap (c\<lparr>c_reactor := r, c_notifying := c_notifying c + 1, c_handed := c_handed c @ [fd]\<rparr>)"
    if b: "b" and new: "fd \<notin> set (open_fds ?r)" "fd \<noteq> control_fd ?r"
  proof -
    have r: "r = ?r\<lparr>r_pendingClients := r_pendingClients ?r @ [fd]\<rparr>"
      using assms(3) b by (auto simp: EnqueClient_locked_def split: if_splits)
    have "place_ok opts (c_budget c) (c_pc c) r"
      by (rule place_ok_map [OF inv(2)]) (use assms(2) new(2) in \<open>auto simp: r serving_def reactor_ok_def reactor_wf_def
        settled_def all_open_def registry_of_def poller_of_def halted_def ScopedFd_Valid_def\<close>)
    moreover have "fds_ok (c\<lparr>c_reactor := r, c_notifying := c_notifying c + 1, c_handed := c_handed c @ [fd]\<rparr>)"
      using inv(1) new(1) assms(2) by (auto simp: r fds_ok_def reactor_wf_def owned_fds_def open_fds_def ScopedFd_Valid_def)
    ultimately show ?thesis using inv(3) by (simp add: loop_inv_def announced_def r)
  qed
  show "loop_inv opts cap
      (c\<lparr>c_reactor := r\<lparr>r_closedFds := snd (ScopedFd_destroy fd (r_closedFds r))\<rparr>, c_handed := c_handed c @ [fd]\<rparr>)"
    if "\<not> b"
  proof -
    have r: "r = ?r" using assms(3) that by (auto simp: EnqueClient_locked_def split: if_splits)
    let ?r' = "?r\<lparr>r_closedFds := snd (ScopedFd_destroy fd (r_closedFds ?r))\<rparr>"
    have "place_ok opts (c_budget c) (c_pc c) ?r'"
      by (rule place_ok_map [OF inv(2)]) (simp_all add: serving_def reactor_ok_def reactor_wf_def settled_def all_open_def
        registry_of_def poller_of_def halted_def)
    moreover have "unheard ?r' = unheard ?r" by (simp add: unheard_def)
    ultimately show ?thesis using inv assms(2)
      by (simp add: r loop_inv_def fds_ok_def reactor_wf_def owned_fds_def open_fds_def announced_def control_received_def
          ScopedFd_defs)
  qed
qed

lemma stop_inv:
  assumes "loop_inv opts cap c"
  shows "loop_inv opts cap (c\<lparr>c_reactor := Stop_locked deadline (c_reactor c), c_notifying := c_notifying c + 1\<rparr>)"
    "loop_inv opts cap (c\<lparr>c_reactor := ForceStop_locked (c_reactor c), c_notifying := c_notifying c + 1\<rparr>)"
proof -
  let ?s = "Stop_locked deadline (c_reactor c)" and ?f = "ForceStop_locked (c_reactor c)"
  have inv: "fds_ok c" "place_ok opts (c_budget c) (c_pc c) (c_reactor c)" "wk_queue (r_wakeup (c_reactor c)) \<le> cap"
    using assms by (simp_all add: loop_inv_def)
  note defs = serving_def reactor_ok_def reactor_wf_def settled_def all_open_def registry_of_def poller_of_def halted_def
  have "place_ok opts (c_budget c) (c_pc c) ?s" "place_ok opts (c_budget c) (c_pc c) ?f"
    by (rule place_ok_map [OF inv(2)]; auto simp: defs Stop_locked_def ForceStop_locked_def Let_def)+
  then show "loop_inv opts cap (c\<lparr>c_reactor := ?s, c_notifying := c_notifying c + 1\<rparr>)"
    "loop_inv opts cap (c\<lparr>c_reactor := ?f, c_notifying := c_notifying c + 1\<rparr>)"
    using inv by (simp_all add: loop_inv_def announced_def fds_ok_def reactor_wf_def owned_fds_def open_fds_def
        Stop_locked_def ForceStop_locked_def Let_def)
qed

lemma notify_inv:
  assumes "loop_inv opts cap c" "0 < cap" "write_returns_ok cap writes (wk_queue (r_wakeup (c_reactor c)))"
    and "notify_control writes (c_reactor c) = Some r"
  shows "loop_inv opts cap (c\<lparr>c_reactor := r, c_notifying := c_notifying c - 1\<rparr>)"
proof -
  have inv: "fds_ok c" "place_ok opts (c_budget c) (c_pc c) (c_reactor c)" "wk_queue (r_wakeup (c_reactor c)) \<le> cap"
    using assms(1) by (simp_all add: loop_inv_def)
  obtain w where w: "r = (c_reactor c)\<lparr>r_wakeup := w\<rparr>" "0 < wk_queue w" "wk_queue w \<le> cap"
    "wk_readFd w = control_fd (c_reactor c)"
    using Notify_wakes [OF assms(2) inv(3) assms(3)] assms(4) by (auto simp: notify_control_def)
  have "place_ok opts (c_budget c) (c_pc c) r"
    by (rule place_ok_map [OF inv(2)]) (simp_all add: w serving_def reactor_ok_def reactor_wf_def settled_def all_open_def
        registry_of_def poller_of_def halted_def)
  then show ?thesis using inv(1) w
    by (simp add: loop_inv_def announced_def fds_ok_def reactor_wf_def owned_fds_def open_fds_def)
qed

lemma others_inv:
  assumes "loop_inv opts cap c" "b \<le> c_budget c" "store_ready b s"
  shows "loop_inv opts cap (c\<lparr>c_reactor := (c_reactor c)\<lparr>r_store := s, r_metrics := m\<rparr>, c_budget := b\<rparr>)"
proof -
  let ?r = "(c_reactor c)\<lparr>r_store := s, r_metrics := m\<rparr>"
  have inv: "place_ok opts (c_budget c) (c_pc c) (c_reactor c)" using assms(1) by (simp add: loop_inv_def)
  have "place_ok opts b (c_pc c) ?r"
    by (rule place_ok_map [OF inv]) (use assms(3) in \<open>simp_all add: serving_def reactor_ok_def reactor_wf_def settled_def
        all_open_def registry_of_def poller_of_def halted_def\<close>)
  moreover have "unheard ?r = unheard (c_reactor c)" "announced (c\<lparr>c_reactor := ?r, c_budget := b\<rparr>) = announced c"
    by (simp_all add: unheard_def announced_def control_received_def)
  moreover have "fds_ok (c\<lparr>c_reactor := ?r, c_budget := b\<rparr>) = fds_ok c"
    by (simp add: fds_ok_def reactor_wf_def owned_fds_def open_fds_def)
  ultimately show ?thesis using assms(1) by (simp add: loop_inv_def)
qed

text \<open>The phases of the loop.\<close>

lemma loop_wait_keeps:
  assumes "serving opts n r" "read_returns_ok (li_reads inp) (wk_queue (r_wakeup r))" "loop_wait inp r = (res, r')"
  shows "reactor_wf r' \<and> owned_fds r' = owned_fds r \<and> open_fds r' = open_fds r \<and>
    wk_queue (r_wakeup r') \<le> wk_queue (r_wakeup r) \<and>
    (case res of Inl e \<Rightarrow> True
     | Inr evs \<Rightarrow> serving opts n r' \<and> unheard r' = unheard r \<and> (control_received r' evs \<or> r_wakeup r' = r_wakeup r))"
proof -
  let ?p = "the (r_poller r)"
  have s: "poller_good ?p" "reactor_wf r" using assms(1) by (simp_all add: serving_def reactor_ok_def poller_of_def)
  obtain w where w: "Drain (li_reads inp) (r_wakeup r) = Some (Inr (), w)" "wk_queue w = 0" "wk_readFd w = control_fd r"
    using Drain_empties [OF assms(2)] by blast
  have poll: "serving opts n (r\<lparr>r_poller := Some p, r_wakeup := v\<rparr>)"
    if "poller_good p \<and> poller_registry p = poller_registry ?p" "wk_readFd v = control_fd r" for p v
    using that assms(1) by (simp add: serving_def reactor_ok_def reactor_wf_def settled_def all_open_def registry_of_def
        poller_of_def)
  have same: "r\<lparr>r_poller := p\<rparr> = r\<lparr>r_poller := p, r_wakeup := r_wakeup r\<rparr>" for p by simp
  show ?thesis
  proof (cases "Poller_Wait (li_polls inp) (li_epolls inp) ?p")
    case None
    then show ?thesis using assms(3) s(2) by (auto simp: loop_wait_def)
  next
    case (Some out)
    obtain q p where out: "out = (q, p)" by (cases out)
    note k = Poller_Wait_keeps [OF Some [unfolded out] s(1)]
    show ?thesis
    proof (cases q)
      case (Inl e)
      then show ?thesis using assms(3) s(2) Some out
        by (auto simp: loop_wait_def reactor_wf_def owned_fds_def open_fds_def)
    next
      case (Inr evs)
      show ?thesis
      proof (cases "control_received (r\<lparr>r_poller := Some p\<rparr>) evs")
        case True
        then have "res = Inr evs" "r' = r\<lparr>r_poller := Some p, r_wakeup := w\<rparr>"
          using assms(3) Some out Inr w(1) by (simp_all add: loop_wait_def)
        then show ?thesis using True poll [OF k w(3)] w s(2)
          by (simp add: reactor_wf_def owned_fds_def open_fds_def unheard_def control_received_def)
      next
        case False
        then have "res = Inr evs" "r' = r\<lparr>r_poller := Some p, r_wakeup := r_wakeup r\<rparr>"
          using assms(3) Some out Inr same [of "Some p"] by (auto simp: loop_wait_def)
        then show ?thesis using poll [OF k refl] s(2)
          by (simp add: reactor_wf_def owned_fds_def open_fds_def unheard_def)
      qed
    qed
  qed
qed

lemma wait_inv:
  assumes "loop_inv opts cap c" "c_pc c = AtWait" "read_returns_ok (li_reads inp) (wk_queue (r_wakeup (c_reactor c)))"
  shows "loop_wait inp (c_reactor c) = (Inr evs, r) \<Longrightarrow> loop_inv opts cap (c\<lparr>c_reactor := r, c_pc := AtControl inp evs\<rparr>)"
    "loop_guard (loop_wait inp (c_reactor c)) = (Inl e, r) \<Longrightarrow> is_std_exception e \<Longrightarrow>
       loop_inv opts cap (c\<lparr>c_reactor := r, c_pc := Exited\<rparr>)"
proof -
  have s: "serving opts (c_budget c) (c_reactor c)" and inv: "fds_ok c" "wk_queue (r_wakeup (c_reactor c)) \<le> cap"
    "r_state (c_reactor c) \<noteq> Stopped \<and> unheard (c_reactor c) \<longrightarrow> announced c"
    using assms(1,2) by (simp_all add: loop_inv_def)
  show "loop_inv opts cap (c\<lparr>c_reactor := r, c_pc := AtControl inp evs\<rparr>)" if w: "loop_wait inp (c_reactor c) = (Inr evs, r)"
  proof -
    note k = loop_wait_keeps [OF s assms(3) w]
    have "announced (c\<lparr>c_reactor := r, c_pc := AtControl inp evs\<rparr>)" if "unheard r"
    proof -
      have "announced c" using inv(3) not_halted [OF s] that k by simp
      then show ?thesis using k assms(2) by (auto simp: announced_def)
    qed
    then show ?thesis using k inv(1,2) by (simp add: loop_inv_def fds_ok_def)
  qed
  show "loop_inv opts cap (c\<lparr>c_reactor := r, c_pc := Exited\<rparr>)"
    if g: "loop_guard (loop_wait inp (c_reactor c)) = (Inl e, r)" "is_std_exception e"
  proof -
    obtain r1 where r1: "loop_wait inp (c_reactor c) = (Inl e, r1)" "r = loop_failed r1"
      using g by (cases "loop_wait inp (c_reactor c)") (auto simp: loop_guard_def split: sum.splits if_splits)
    note k = loop_wait_keeps [OF s assms(3) r1(1)]
    have f: "keeps r1 r" using loop_failed_keeps k r1(2) by blast
    have "halted r" using failed_halted r1(2) by simp
    moreover have "fds_ok (c\<lparr>c_reactor := r, c_pc := Exited\<rparr>)"
      using keeps_open [OF f] f k inv(1) by (simp add: fds_ok_def keeps_def)
    moreover have "wk_queue (r_wakeup r) \<le> cap" using keeps_queue [OF f] k inv(2) by simp
    ultimately show ?thesis by (simp add: loop_inv_def halted_def)
  qed
qed

lemma guard_fails:
  assumes "loop_guard m = (Inl e, r)" "goes_on opts n m"
  obtains r1 where "m = (Inl e, r1)" "r = loop_failed r1"
  using assms by (cases m) (auto simp: loop_guard_def goes_on_def split: sum.splits if_splits)

text \<open>A phase that fails ends the thread.\<close>

lemma failed_inv:
  assumes "loop_inv opts cap c" "keeps (c_reactor c) r1" "r = loop_failed r1"
  shows "loop_inv opts cap (c\<lparr>c_reactor := r, c_pc := Exited, c_budget := b\<rparr>)"
proof -
  have f: "keeps (c_reactor c) r" using keeps_trans [OF assms(2) loop_failed_keeps [OF keeps_wf [OF assms(2)]]] assms(3) by simp
  have "fds_ok (c\<lparr>c_reactor := r, c_pc := Exited, c_budget := b\<rparr>)"
    using keeps_fds f assms(1) by (simp add: loop_inv_def)
  then show ?thesis using failed_halted [of r1] keeps_queue [OF f] assms(1,3) by (simp add: loop_inv_def halted_def)
qed

lemma control_inv:
  assumes "opts_ok opts" "loop_inv opts cap c" "c_pc c = AtControl inp evs"
  shows "loop_control ctl opts evs (c_reactor c) = (Inr u, r) \<Longrightarrow> loop_inv opts cap (c\<lparr>c_reactor := r, c_pc := AtClients inp evs\<rparr>)"
    "loop_guard (loop_control ctl opts evs (c_reactor c)) = (Inl e, r) \<Longrightarrow> loop_inv opts cap (c\<lparr>c_reactor := r, c_pc := Exited\<rparr>)"
proof -
  let ?r = "c_reactor c"
  have s: "serving opts (c_budget c) ?r" and fds: "fds_ok c" using assms(2,3) by (simp_all add: loop_inv_def)
  have wf: "reactor_wf ?r" using fds by (simp add: fds_ok_def)
  note goes = loop_control_ok [OF assms(1) s, of ctl evs]
  have keeps: "keeps ?r r1" if "loop_control ctl opts evs ?r = (q, r1)" for q r1
    using that Process_keeps [OF wf] wf by (auto simp: loop_control_def split: if_splits)
  show "loop_inv opts cap (c\<lparr>c_reactor := r, c_pc := AtClients inp evs\<rparr>)" if run: "loop_control ctl opts evs ?r = (Inr u, r)"
  proof -
    have "serving opts (c_budget c) r \<or> halted r" using goes run by (simp add: goes_on_def)
    moreover have "announced (c\<lparr>c_reactor := r, c_pc := AtClients inp evs\<rparr>)" if "r_state r \<noteq> Stopped" "unheard r"
    proof (cases "control_received ?r evs")
      case True
      then have "\<not> unheard r" using run Process_hears [OF assms(1) s] by (auto simp: loop_control_def)
      then show ?thesis using that by simp
    next
      case False
      then have "r = ?r" using run by (simp add: loop_control_def)
      then have "announced c" using that assms(2) by (simp add: loop_inv_def)
      then show ?thesis using False \<open>r = ?r\<close> assms(3) by (auto simp: announced_def)
    qed
    ultimately show ?thesis
      using keeps_fds [OF fds keeps [OF run], where pc = "AtClients inp evs" and b = "c_budget c"] keeps_queue [OF keeps [OF run]] assms(2)
      by (simp add: loop_inv_def)
  qed
  show "loop_inv opts cap (c\<lparr>c_reactor := r, c_pc := Exited\<rparr>)" if g: "loop_guard (loop_control ctl opts evs ?r) = (Inl e, r)"
  proof -
    obtain r1 where r1: "loop_control ctl opts evs ?r = (Inl e, r1)" "r = loop_failed r1" using guard_fails [OF g goes] .
    show ?thesis using failed_inv [OF assms(2) keeps [OF r1(1)] r1(2), of "c_budget c"] by simp
  qed
qed

lemma clients_inv:
  assumes "opts_ok opts" "loop_inv opts cap c" "c_pc c = AtClients inp evs"
    and budget: "b + length evs * maxReadBufferBytes opts \<le> c_budget c"
    and io: "events_io_ok h ctl opts (zip evs (map (li_io inp) [0..<length evs])) (c_reactor c)"
  shows "loop_clients h ctl opts inp evs (c_reactor c) = (Inr u, r) \<Longrightarrow>
      loop_inv opts cap (c\<lparr>c_reactor := r, c_pc := next_pc r, c_budget := b\<rparr>)"
    "loop_guard (loop_clients h ctl opts inp evs (c_reactor c)) = (Inl e, r) \<Longrightarrow>
      loop_inv opts cap (c\<lparr>c_reactor := r, c_pc := Exited, c_budget := b\<rparr>)"
proof -
  let ?r = "c_reactor c" and ?n = "b + length evs * maxReadBufferBytes opts"
  have fds: "fds_ok c" and place: "serving opts (c_budget c) ?r \<or> halted ?r" using assms(2,3) by (simp_all add: loop_inv_def)
  have wf: "reactor_wf ?r" using fds by (simp add: fds_ok_def)
  have serving: "serving opts ?n ?r" if "serving opts (c_budget c) ?r"
    using that reactor_ok_mono [OF _ budget] by (simp add: serving_def)
  have goes: "goes_on opts b (loop_clients h ctl opts inp evs ?r)"
  proof (cases "serving opts (c_budget c) ?r")
    case True
    then show ?thesis using loop_clients_ok [OF assms(1) serving io] by simp
  next
    case False
    then show ?thesis using place by (simp add: loop_clients_def halted_def goes_on_def)
  qed
  show "loop_inv opts cap (c\<lparr>c_reactor := r, c_pc := next_pc r, c_budget := b\<rparr>)"
    if run: "loop_clients h ctl opts inp evs ?r = (Inr u, r)"
  proof -
    note k = loop_clients_keeps [OF wf run] and f = loop_clients_frame [OF wf run]
    have "place_ok opts b (next_pc r) r" using goes run not_halted [of opts b r] by (auto simp: goes_on_def next_pc_def halted_def)
    moreover have "announced (c\<lparr>c_reactor := r, c_pc := next_pc r, c_budget := b\<rparr>)" if "r_state r \<noteq> Stopped" "unheard r"
    proof -
      have "unheard ?r" "r_state ?r \<noteq> Stopped" using that f k by (auto simp: unheard_def keeps_def same_control_def)
      then have "announced c" using assms(2) by (simp add: loop_inv_def)
      then show ?thesis using assms(3) keeps_queue [OF k] by (auto simp: announced_def)
    qed
    ultimately show ?thesis using keeps_fds [OF fds k] keeps_queue [OF k] assms(2) by (simp add: loop_inv_def)
  qed
  show "loop_inv opts cap (c\<lparr>c_reactor := r, c_pc := Exited, c_budget := b\<rparr>)"
    if g: "loop_guard (loop_clients h ctl opts inp evs ?r) = (Inl e, r)"
  proof -
    obtain r1 where r1: "loop_clients h ctl opts inp evs ?r = (Inl e, r1)" "r = loop_failed r1"
      using guard_fails [OF g goes] .
    show ?thesis by (rule failed_inv [OF assms(2) loop_clients_keeps [OF wf r1(1)] r1(2)])
  qed
qed

lemma reactor_step_inv:
  assumes "reactor_step h ctl opts cap c c'" "opts_ok opts" "0 < cap" "loop_inv opts cap c"
  shows "loop_inv opts cap c'"
  using assms(1)
proof cases
  case (enqueue_taken fd r)
  then show ?thesis using enqueue_inv(1) [OF assms(4) enqueue_taken(2,5)] by simp
next
  case (enqueue_refused fd r)
  then show ?thesis using enqueue_inv(2) [OF assms(4) enqueue_refused(2,3)] by simp
next
  case (notify writes r)
  then show ?thesis using notify_inv [OF assms(4,3)] by simp
qed (use assms stop_inv others_inv wait_inv control_inv clients_inv in simp_all)

lemma reactor_reachable_inv:
  "(reactor_step h ctl opts cap)\<^sup>*\<^sup>* c c' \<Longrightarrow> opts_ok opts \<Longrightarrow> 0 < cap \<Longrightarrow> loop_inv opts cap c \<Longrightarrow> loop_inv opts cap c'"
  by (induction rule: rtranclp_induct) (auto intro: reactor_step_inv)

end
