(* ===== verification/Reactor_Properties.thy ===== *)
theory Reactor_Properties
  imports Reactor_Loop
begin

text \<open>
  Properties of a running sub-reactor under every interleaving with the threads that control it: the
  ledger of descriptors, wake-ups that are not lost, what the reactor waits for, and how it stops.
\<close>

section \<open>Starting\<close>

lemma Start_ok:
  assumes "Start linux created ctl None backend (SubReactor_init reactorId wakeup store metrics) = (Inr (), r)"
    and "store_ready budget store" "wk_queue wakeup \<le> cap"
  shows "loop_inv opts cap (started r budget)"
proof -
  let ?r0 = "SubReactor_init reactorId wakeup store metrics"
  obtain p where p: "CreatePoller linux created backend = Inr p"
    using assms(1) by (cases "CreatePoller linux created backend") (auto simp: Start_def SubReactor_init_def)
  obtain a q where a: "Poller_Add ctl p (wk_readFd wakeup) IoEvent_Read = (a, q)" by fastforce
  have "a = None" using assms(1) p a
    by (cases a) (auto simp: Start_def SubReactor_init_def Let_def)
  then have r: "r = PublishState Running (?r0\<lparr>r_poller := Some q\<rparr>)"
    using assms(1) p a by (simp add: Start_def SubReactor_init_def Let_def)
  have "poller_good q \<and> poller_registry q (wk_readFd wakeup) = Some IoEvent_Read"
    using CreatePoller_good [OF p] pl.add_law [of p ctl "wk_readFd wakeup" IoEvent_Read a q] a \<open>a = None\<close> by simp
  then show ?thesis using assms(2,3)
    by (simp add: r loop_inv_def started_def fds_ok_def serving_def reactor_ok_def reactor_wf_def owned_fds_def open_fds_def
        settled_def all_open_def registry_of_def poller_of_def PublishState_def SubReactor_init_def unheard_def um_ok_def)
qed

text \<open>The configurations a started reactor can get into.\<close>

definition reactor_reaches ::
  "endianness \<Rightarrow> ctl_oracle \<Rightarrow> NetworkOptions \<Rightarrow> nat \<Rightarrow> reactor_config \<Rightarrow> bool" where
  "reactor_reaches h ctl opts cap c \<longleftrightarrow>
     (\<exists>linux created backend reactorId wakeup store metrics r budget.
        Start linux created ctl None backend (SubReactor_init reactorId wakeup store metrics) = (Inr (), r) \<and>
        store_ready budget store \<and> wk_queue wakeup = 0 \<and>
        (reactor_step h ctl opts cap)\<^sup>*\<^sup>* (started r budget) c)"

lemma reaches_inv:
  assumes "opts_ok opts" "0 < cap" "reactor_reaches h ctl opts cap c"
  shows "loop_inv opts cap c"
proof -
  obtain linux created backend reactorId wakeup store metrics r budget where
    start: "Start linux created ctl None backend (SubReactor_init reactorId wakeup store metrics) = (Inr (), r)"
    and store: "store_ready budget store" and queue: "wk_queue wakeup = 0"
    and run: "(reactor_step h ctl opts cap)\<^sup>*\<^sup>* (started r budget) c"
    using assms(3) by (auto simp: reactor_reaches_def)
  have "wk_queue wakeup \<le> cap" by (simp add: queue)
  from reactor_reachable_inv [OF run assms(1,2) Start_ok [OF start store this]] show ?thesis .
qed

section \<open>A concrete run for the witnesses\<close>

text \<open>A reactor on \<open>poll\<close> is given the client 7, woken up, and takes it.\<close>

definition demo_reactor :: SubReactor where
  "demo_reactor = (SubReactor_init 0 \<lparr>wk_readFd = 3, wk_writeFd = 4, wk_queue = 0\<rparr> KVStore_init ServerMetrics_init)
     \<lparr>r_state := Running, r_publishedState := Running, r_poller := Some (PollBackend \<lparr>pp_interests = [(3, 1)]\<rparr>)\<rparr>"

definition demo_input :: loop_input where
  "demo_input = \<lparr>li_polls = [Fail EINTR, Ret (1, [1])], li_epolls = [], li_reads = [Ret 1, Fail EAGAIN],
     li_io = (\<lambda>_. \<lparr>io_recvs = [], io_sends = [], io_clks = (\<lambda>_. \<lparr>clk_begin = 0, clk_store = 0, clk_end = 0\<rparr>)\<rparr>),
     li_now = 0\<rparr>"

definition no_errors :: ctl_oracle where "no_errors = (\<lambda>_ _ _ _. None)"

definition demo_served :: reactor_config where
  "demo_served = \<lparr>c_reactor = demo_reactor\<lparr>r_poller := Some (PollBackend \<lparr>pp_interests = [(3, 1), (7, 1)]\<rparr>),
      r_clients := [(7, (Connection_init 7)\<lparr>registeredEvents := 1\<rparr>)],
      r_metrics := OnConnectionAccepted ServerMetrics_init\<rparr>,
    c_pc = AtWait, c_notifying = 0, c_handed = [7], c_budget = 0\<rparr>"

lemma demo_start:
  "Start False (Ret 5) no_errors None Poll
     (SubReactor_init 0 \<lparr>wk_readFd = 3, wk_writeFd = 4, wk_queue = 0\<rparr> KVStore_init ServerMetrics_init) =
   (Inr (), demo_reactor)"
  by (simp add: Start_def SubReactor_init_def CreatePoller_def PollPoller_Add_def ValidateInterests_def PollPoller_init_def
      HasIoEvent_def IoEvent_defs um_put_def PublishState_def demo_reactor_def Let_def)

lemma demo_run:
  "(reactor_step LittleEndian no_errors NetworkOptions_default 1)\<^sup>*\<^sup>*
     (started demo_reactor (maxReadBufferBytes NetworkOptions_default)) demo_served"
  (is "?step\<^sup>*\<^sup>* ?c0 _")
proof -
  let ?budget = "maxReadBufferBytes NetworkOptions_default"
  let ?r1 = "demo_reactor\<lparr>r_pendingClients := [7]\<rparr>"
  let ?r2 = "?r1\<lparr>r_wakeup := \<lparr>wk_readFd = 3, wk_writeFd = 4, wk_queue = 1\<rparr>\<rparr>"
  let ?evs = "[\<lparr>ready_fd = 3, ready_events = 1\<rparr>]"
  let ?r4 = "c_reactor demo_served"
  let ?c1 = "?c0\<lparr>c_reactor := ?r1, c_notifying := 1, c_handed := [7]\<rparr>"
  let ?c2 = "?c1\<lparr>c_reactor := ?r2, c_notifying := 0\<rparr>"
  let ?c3 = "?c2\<lparr>c_reactor := ?r1, c_pc := AtControl demo_input ?evs\<rparr>"
  let ?c4 = "?c3\<lparr>c_reactor := ?r4, c_pc := AtClients demo_input ?evs\<rparr>"
  have "?step ?c0 ?c1"
    using enqueue_taken [of 7 ?c0 ?r1]
    by (simp add: started_def demo_reactor_def SubReactor_init_def open_fds_def EnqueClient_locked_def ScopedFd_Valid_def)
  moreover have "?step ?c1 ?c2"
    using notify [of ?c1 1 "[Ret 1]" ?r2]
    by (simp add: started_def demo_reactor_def SubReactor_init_def notify_control_def)
  moreover have "?step ?c2 ?c3"
    using wait [of ?c2 demo_input ?evs ?r1]
    by (simp add: started_def demo_reactor_def SubReactor_init_def demo_input_def DRAIN_SIZE_def EAGAIN_def EINTR_def
        loop_wait_def PollPoller_Wait_def poll_fds_def control_received_def PollPoller_FromNativeEvents_def IoEvent_defs
        POLLIN_def POLLPRI_def POLLOUT_def POLLERR_def POLLHUP_def POLLNVAL_def Let_def)
  moreover have "?step ?c3 ?c4"
    using control [of ?c3 demo_input ?evs no_errors NetworkOptions_default "()" ?r4]
    by (simp add: started_def demo_reactor_def demo_served_def SubReactor_init_def loop_control_def control_received_def
        ProcessControlRequests_def AddClientInLoop_def PollPoller_Add_def ValidateInterests_def DesiredEvents_def
        Connection_init_def HasIoEvent_def IoEvent_defs um_put_def um_find_def OutputBuffer_Empty_def OutputBuffer_Size_def
        OutputBuffer_init_def Let_def)
  moreover have "?step ?c4 demo_served"
    using clients [of ?c4 demo_input ?evs 0 NetworkOptions_default LittleEndian no_errors "()" ?r4]
    by (simp add: started_def demo_reactor_def demo_served_def SubReactor_init_def loop_clients_def next_pc_def
        CleanupClosedConnections_def CheckShutdownProgress_def Connection_init_def Let_def)
  ultimately show ?thesis by (meson rtranclp.rtrancl_refl rtranclp.rtrancl_into_rtrancl)
qed

lemma demo_reaches: "reactor_reaches LittleEndian no_errors NetworkOptions_default 1 demo_served"
proof -
  have "store_ready (maxReadBufferBytes NetworkOptions_default) KVStore_init"
    by (simp add: store_ready_def store_fits_init kv_good_init NetworkOptions_default_def)
  then show ?thesis unfolding reactor_reaches_def
    using demo_start demo_run
    by (intro exI [of _ False] exI [of _ "Ret 5"] exI [of _ Poll] exI [of _ 0]
        exI [of _ "\<lparr>wk_readFd = 3, wk_writeFd = 4, wk_queue = 0\<rparr>"] exI [of _ KVStore_init]
        exI [of _ ServerMetrics_init] exI [of _ demo_reactor] exI [of _ "maxReadBufferBytes NetworkOptions_default"]) simp
qed

lemma default_opts_ok: "opts_ok NetworkOptions_default"
  by (simp add: opts_ok_def NetworkOptions_default_def)

text \<open>A thread that is gone stays gone, and takes no client out of the queue.\<close>

lemma exited_step:
  assumes "reactor_step h ctl opts cap c c'" "c_pc c = Exited" "fd \<in> set (r_pendingClients (c_reactor c))"
  shows "c_pc c' = Exited \<and> fd \<in> set (r_pendingClients (c_reactor c'))"
  using assms
  by cases (auto simp: EnqueClient_locked_def Stop_locked_def ForceStop_locked_def notify_control_def Let_def
      split: if_splits)

section \<open>Descriptors\<close>

text \<open>Claim C6: whatever the interleaving, and whichever system calls fail, every client descriptor handed
  to the reactor is waiting, is served, or has been closed, exactly one of the three and exactly once;
  no two open ones are the same; and when the thread of the loop is gone, by a stop or by an
  exception, none is served any more and the published state says so.\<close>

theorem reactor_fds_ledger:
  assumes "opts_ok opts" "0 < cap" "reactor_reaches h ctl opts cap c"
  shows "let r = c_reactor c in
    mset (c_handed c) = mset (r_pendingClients r) + mset (map fst (r_clients r)) + mset (r_closedFds r) \<and>
    distinct (r_pendingClients r @ map fst (r_clients r)) \<and>
    (c_pc c = Exited \<longrightarrow> r_clients r = [] \<and> IsStopped r)"
proof -
  have inv: "fds_ok c" "place_ok opts (c_budget c) (c_pc c) (c_reactor c)"
    using reaches_inv [OF assms] by (simp_all add: loop_inv_def)
  then have "c_pc c = Exited \<Longrightarrow> halted (c_reactor c)" by simp
  then show ?thesis using inv(1) by (auto simp: fds_ok_def owned_fds_def open_fds_def halted_def IsStopped_def Let_def)
qed

theorem reactor_fds_ledger_witness:
  "mset (c_handed demo_served) = mset (r_pendingClients (c_reactor demo_served)) +
     mset (map fst (r_clients (c_reactor demo_served))) + mset (r_closedFds (c_reactor demo_served))"
  using reactor_fds_ledger [OF default_opts_ok _ demo_reaches] by (simp add: Let_def)

section \<open>Wake-ups\<close>

text \<open>Claim C4: no wake-up is lost: when the loop is about to wait with an empty control channel and no
  control call is still to write to it, then every client handed over has been taken, no forced stop
  is outstanding, and a requested stop has been acted on.\<close>

theorem no_lost_wakeup:
  assumes "opts_ok opts" "0 < cap" "reactor_reaches h ctl opts cap c"
    and "c_pc c = AtWait" "wk_queue (r_wakeup (c_reactor c)) = 0" "c_notifying c = 0"
  shows "r_pendingClients (c_reactor c) = [] \<and> \<not> r_forceStopRequested (c_reactor c) \<and>
    (r_stopRequested (c_reactor c) \<longrightarrow> r_state (c_reactor c) = Draining)"
proof -
  have inv: "serving opts (c_budget c) (c_reactor c)"
    "r_state (c_reactor c) \<noteq> Stopped \<and> unheard (c_reactor c) \<longrightarrow> announced c"
    using reaches_inv [OF assms(1-3)] assms(4) by (simp_all add: loop_inv_def)
  have "\<not> announced c" using assms(4-6) by (simp add: announced_def)
  then have "\<not> unheard (c_reactor c)" using inv not_halted [OF inv(1)] by simp
  then show ?thesis using inv(1) by (auto simp: unheard_def serving_def)
qed

theorem no_lost_wakeup_witness:
  "r_pendingClients (c_reactor demo_served) = [] \<and> \<not> r_forceStopRequested (c_reactor demo_served)"
  using no_lost_wakeup [OF default_opts_ok _ demo_reaches]
  by (simp add: demo_served_def demo_reactor_def SubReactor_init_def)

section \<open>What the reactor waits for\<close>

text \<open>Claim C12: whenever the loop waits, the control channel is registered, and every connection of the
  map is open, within its limits, and registered with the poller for exactly the events it needs, at
  least one; while the reactor drains that is writing only, so that no new request is read.\<close>

theorem reactor_interests:
  assumes "opts_ok opts" "0 < cap" "reactor_reaches h ctl opts cap c" "c_pc c = AtWait"
  shows "let r = c_reactor c in
    poller_registry (the (r_poller r)) (wk_readFd (r_wakeup r)) = Some IoEvent_Read \<and>
    (\<forall>(fd, conn) \<in> set (r_clients r).
       \<not> conn_closed conn \<and> conn_fd conn = fd \<and>
       OutputBuffer_Size (writeBuffer conn) \<le> writeHardLimitBytes opts \<and>
       length (readBuffer conn) \<le> maxReadBufferBytes opts \<and>
       poller_registry (the (r_poller r)) fd = Some (DesiredEvents conn) \<and> DesiredEvents conn \<noteq> IoEvent_None \<and>
       (r_state r = Draining \<longrightarrow> DesiredEvents conn = IoEvent_Write))"
proof -
  let ?r = "c_reactor c"
  have s: "serving opts (c_budget c) ?r" using reaches_inv [OF assms(1-3)] assms(4) by (simp add: loop_inv_def)
  then have ok: "reactor_ok opts (c_budget c) ?r" "settled ?r" "all_open ?r" by (simp_all add: serving_def)
  have "\<not> conn_closed conn \<and> conn_fd conn = fd \<and> conn_inv opts conn \<and>
      poller_registry (the (r_poller ?r)) fd = Some (DesiredEvents conn) \<and> DesiredEvents conn \<noteq> IoEvent_None \<and>
      (r_state ?r = Draining \<longrightarrow> DesiredEvents conn = IoEvent_Write)"
    if "(fd, conn) \<in> set (r_clients ?r)" for fd conn
  proof -
    have c: "\<not> conn_closed conn" "conn_fd conn = fd" "conn_inv opts conn" "conn_settled (r_state ?r) conn"
      "poller_registry (the (r_poller ?r)) fd = Some (registeredEvents conn)"
      using that ok by (auto simp: reactor_ok_def reactor_wf_def settled_def all_open_def registry_of_def poller_of_def)
    moreover have "closeAfterWrite conn \<Longrightarrow> DesiredEvents conn = IoEvent_Write"
      using DesiredEvents_open [OF c(3,1)] c(1) by (auto simp: DesiredEvents_def IoEvent_None_def Let_def split: if_splits)
    ultimately show ?thesis using DesiredEvents_open [OF c(3,1)] by (auto simp: conn_settled_def)
  qed
  moreover have "poller_registry (the (r_poller ?r)) (control_fd ?r) = Some IoEvent_Read"
    using ok(1) by (simp add: reactor_ok_def registry_of_def poller_of_def)
  ultimately show ?thesis unfolding Let_def conn_inv_def by blast
qed

theorem reactor_interests_witness:
  "poller_registry (the (r_poller (c_reactor demo_served))) (wk_readFd (r_wakeup (c_reactor demo_served))) = Some IoEvent_Read"
  using reactor_interests [OF default_opts_ok _ demo_reaches] by (simp add: demo_served_def Let_def)

section \<open>Stopping\<close>

text \<open>Claim C19: a forced stop that the loop sees closes everything: no exception is thrown, the reactor
  is stopped, nothing waits or is served, and the descriptors closed are exactly those handed over.\<close>

theorem force_stop_closes_all:
  assumes "opts_ok opts" "0 < cap" "reactor_reaches h ctl opts cap c"
    and "c_pc c = AtControl inp evs" "control_received (c_reactor c) evs" "r_forceStopRequested (c_reactor c)"
  shows "\<exists>r. loop_control ctl opts evs (c_reactor c) = (Inr (), r) \<and> IsStopped r \<and> r_pendingClients r = [] \<and>
    r_clients r = [] \<and> mset (r_closedFds r) = mset (c_handed c)"
proof -
  let ?r = "c_reactor c"
  let ?dropped = "?r\<lparr>r_pendingClients := [], r_closedFds := r_closedFds ?r @ r_pendingClients ?r\<rparr>"
  let ?last = "PublishState Stopped (ForceCloseAllConnections ctl ?dropped)"
  have wf: "reactor_wf ?r" and own: "mset (c_handed c) = owned_fds ?r"
    using reaches_inv [OF assms(1-3)] by (simp_all add: loop_inv_def fds_ok_def)
  then have d: "reactor_wf ?dropped" by (simp add: reactor_wf_def)
  have run: "loop_control ctl opts evs ?r = (Inr (), ?last)" "ProcessControlRequests ctl opts ?r = (Inr (), ?last)"
    using assms(5,6) by (simp_all add: loop_control_def ProcessControlRequests_def)
  have gone: "r_pendingClients ?last = []" "r_clients ?last = []" "IsStopped ?last"
    using ForceClose_clients [OF d, of ctl] by (simp_all add: PublishState_def IsStopped_def)
  moreover have "owned_fds ?last = owned_fds ?r" using Process_keeps [OF wf run(2)] by (simp add: keeps_def)
  ultimately show ?thesis using run(1) own by (simp add: owned_fds_def)
qed

text \<open>The reactor of the concrete run, told to stop by force.\<close>

definition demo_events :: "ReadyEvent list" where
  "demo_events = [\<lparr>ready_fd = 3, ready_events = 1\<rparr>]"

definition demo_input2 :: loop_input where
  "demo_input2 = demo_input\<lparr>li_polls := [Ret (1, [1, 0])]\<rparr>"

definition demo_forced :: reactor_config where
  "demo_forced = demo_served\<lparr>c_reactor := (c_reactor demo_served)\<lparr>r_forceStopRequested := True\<rparr>,
     c_pc := AtControl demo_input2 demo_events\<rparr>"

lemma demo_forced_reaches: "reactor_reaches LittleEndian no_errors NetworkOptions_default 1 demo_forced"
proof -
  let ?step = "reactor_step LittleEndian no_errors NetworkOptions_default 1"
  let ?r1 = "(c_reactor demo_served)\<lparr>r_forceStopRequested := True\<rparr>"
  let ?r2 = "?r1\<lparr>r_wakeup := \<lparr>wk_readFd = 3, wk_writeFd = 4, wk_queue = 1\<rparr>\<rparr>"
  let ?c1 = "demo_served\<lparr>c_reactor := ?r1, c_notifying := 1\<rparr>" and ?c2 = "demo_served\<lparr>c_reactor := ?r2\<rparr>"
  have "?step demo_served ?c1"
    using force_stop [of LittleEndian no_errors NetworkOptions_default 1 demo_served]
    by (simp add: demo_served_def ForceStop_locked_def)
  moreover have "?step ?c1 ?c2"
    using notify [of ?c1 1 "[Ret 1]" ?r2]
    by (simp add: demo_served_def demo_reactor_def SubReactor_init_def notify_control_def)
  moreover have "?step ?c2 demo_forced"
    using wait [of ?c2 demo_input2 demo_events ?r1]
    by (simp add: demo_served_def demo_forced_def demo_reactor_def SubReactor_init_def demo_input_def demo_input2_def
        demo_events_def DRAIN_SIZE_def EAGAIN_def EINTR_def loop_wait_def PollPoller_Wait_def poll_fds_def
        control_received_def PollPoller_FromNativeEvents_def IoEvent_defs POLLIN_def POLLPRI_def POLLOUT_def POLLERR_def
        POLLHUP_def POLLNVAL_def Let_def)
  ultimately have "?step\<^sup>*\<^sup>* demo_served demo_forced" by (meson rtranclp.rtrancl_refl rtranclp.rtrancl_into_rtrancl)
  then show ?thesis using demo_reaches unfolding reactor_reaches_def by (meson rtranclp_trans)
qed

theorem force_stop_closes_all_witness:
  "\<exists>r. loop_control no_errors NetworkOptions_default demo_events (c_reactor demo_forced) = (Inr (), r) \<and> IsStopped r \<and>
    mset (r_closedFds r) = {#7#}"
proof -
  have "c_pc demo_forced = AtControl demo_input2 demo_events" "control_received (c_reactor demo_forced) demo_events"
    "r_forceStopRequested (c_reactor demo_forced)" "c_handed demo_forced = [7]"
    by (simp_all add: demo_forced_def demo_served_def demo_events_def control_received_def demo_reactor_def SubReactor_init_def)
  with force_stop_closes_all [OF default_opts_ok _ demo_forced_reaches] show ?thesis by simp blast
qed

text \<open>Claim C18: a draining reactor ends by its deadline: the first round that finishes at or after it
  leaves the reactor stopped and without clients, and a wait entered before it lasts at most 100 ms and
  ends at most one millisecond after it.\<close>

theorem drain_deadline:
  assumes "reactor_wf r" "r_state r = Draining"
  shows "(r_shutdownDeadline r \<le> li_now inp \<and> loop_clients h ctl opts inp evs r = (Inr (), r') \<longrightarrow>
      IsStopped r' \<and> r_clients r' = []) \<and>
    (now < r_shutdownDeadline r \<longrightarrow>
      (let t = ComputeWaitTimeout now r
       in 1 \<le> t \<and> t \<le> 100 \<and> now + milliseconds t \<le> max (r_shutdownDeadline r) (now + milliseconds 1)))"
proof -
  have "IsStopped r' \<and> r_clients r' = []"
    if "r_shutdownDeadline r \<le> li_now inp" "loop_clients h ctl opts inp evs r = (Inr (), r')"
  proof -
    let ?evs = "zip evs (map (li_io inp) [0..<length evs])"
    obtain s r1 where r1: "client_events h ctl opts ?evs r = (s, r1)" by fastforce
    note wf1 = keeps_wf [OF client_events_keeps [OF assms(1) r1]]
    note f = client_events_frame [OF r1] and c = Cleanup_cleaned [OF wf1, of ctl]
    show ?thesis
      using that r1 f c(2) ForceClose_clients(1) [OF c(3), of ctl] assms(2)
      by (cases s) (auto simp: loop_clients_def CheckShutdownProgress_def PublishState_def IsStopped_def cleaned_def Let_def
          split: if_splits)
  qed
  moreover have "1 \<le> t \<and> t \<le> 100 \<and> now + milliseconds t \<le> max (r_shutdownDeadline r) (now + milliseconds 1)"
    if "now < r_shutdownDeadline r" "t = ComputeWaitTimeout now r" for t
    using that assms(2) by (auto simp: ComputeWaitTimeout_def milliseconds_def Let_def min_def max_def)
  ultimately show ?thesis by (simp add: Let_def)
qed

text \<open>A draining reactor with one client, whose output is not empty.\<close>

definition demo_draining :: SubReactor where
  "demo_draining = demo_reactor\<lparr>r_state := Draining, r_publishedState := Draining, r_stopRequested := True,
     r_shutdownDeadline := 3000000000,
     r_clients := [(7, (Connection_init 7)\<lparr>writeBuffer := \<lparr>m_storage = ''abc'', m_readPos = 0\<rparr>,
       readPaused := True, closeAfterWrite := True, registeredEvents := 2\<rparr>)]\<rparr>"

theorem drain_deadline_witness:
  "ComputeWaitTimeout 2999500000 demo_draining = 1 \<and>
   IsStopped (snd (loop_clients LittleEndian no_errors NetworkOptions_default (demo_input\<lparr>li_now := 3000000000\<rparr>) [] demo_draining))"
proof -
  have d: "reactor_wf demo_draining" "r_state demo_draining = Draining" "r_shutdownDeadline demo_draining = 3000000000"
    by (simp_all add: reactor_wf_def um_ok_def demo_draining_def demo_reactor_def SubReactor_init_def Connection_init_def)
  obtain r' where "loop_clients LittleEndian no_errors NetworkOptions_default (demo_input\<lparr>li_now := 3000000000\<rparr>) [] demo_draining
      = (Inr (), r')" using d(2) by (simp add: loop_clients_def)
  with d drain_deadline [OF d(1,2), of "demo_input\<lparr>li_now := 3000000000\<rparr>" LittleEndian no_errors NetworkOptions_default "[]" r']
    drain_deadline [OF d(1,2), of "demo_input\<lparr>li_now := 3000000000\<rparr>" LittleEndian no_errors NetworkOptions_default "[]" r' 2999500000]
  show ?thesis by (simp add: ComputeWaitTimeout_def milliseconds_def)
qed

text \<open>A second \<open>Stop\<close> with an earlier deadline has no effect on a reactor that is draining: the
  request is recorded, the loop sees it and keeps the deadline it has.\<close>

theorem late_stop_ignored:
  assumes "r_state r = Draining" "\<not> r_forceStopRequested r" "r_pendingClients r = []"
  shows "\<exists>r'. ProcessControlRequests ctl opts (Stop_locked deadline r) = (Inr (), r') \<and>
    r_shutdownDeadline r' = r_shutdownDeadline r \<and> r_clients r' = r_clients r \<and> r_state r' = Draining"
  using assms by (simp add: ProcessControlRequests_def Stop_locked_def BeginGracefulShutdown_def Let_def)

theorem late_stop_ignored_witness:
  "\<exists>r'. ProcessControlRequests no_errors NetworkOptions_default
      (Stop_locked 1 (demo_reactor\<lparr>r_state := Draining, r_stopRequested := True, r_shutdownDeadline := 3000000000\<rparr>)) =
        (Inr (), r') \<and>
    r_shutdownDeadline r' = 3000000000"
  using late_stop_ignored [of "demo_reactor\<lparr>r_state := Draining, r_stopRequested := True, r_shutdownDeadline := 3000000000\<rparr>"
      no_errors NetworkOptions_default 1]
  by (auto simp: demo_reactor_def SubReactor_init_def)

text \<open>After the loop has ended by an exception the reactor still takes clients, until someone
  calls \<open>Stop\<close>; a client it takes then stays in the queue as long as the reactor exists, neither served nor closed.\<close>

theorem failed_reactor_takes_clients:
  assumes "c_pc c = Exited" "\<not> r_stopRequested (c_reactor c)" "\<not> r_forceStopRequested (c_reactor c)"
    and "EnqueClient_locked fd (c_reactor c) = (taken, r)"
    and "(reactor_step h ctl opts cap)\<^sup>*\<^sup>* (c\<lparr>c_reactor := r, c_notifying := c_notifying c + 1, c_handed := c_handed c @ [fd]\<rparr>) c'"
  shows "taken \<and> c_pc c' = Exited \<and> fd \<in> set (r_pendingClients (c_reactor c'))"
proof -
  let ?c1 = "c\<lparr>c_reactor := r, c_notifying := c_notifying c + 1, c_handed := c_handed c @ [fd]\<rparr>"
  have t: "taken" "fd \<in> set (r_pendingClients (c_reactor ?c1))" "c_pc ?c1 = Exited"
    using assms(1-4) by (auto simp: EnqueClient_locked_def)
  have "c_pc c' = Exited \<and> fd \<in> set (r_pendingClients (c_reactor c'))"
    using assms(5) t(2,3)
  proof (induction rule: rtranclp_induct)
    case (step c1 c2)
    from step(2) show ?case using step.IH [OF step.prems] exited_step [of h ctl opts cap c1 c2 fd] by blast
  qed simp
  with t(1) show ?thesis by simp
qed

theorem failed_reactor_takes_clients_witness:
  "let c = (started (loop_failed demo_reactor) 0)\<lparr>c_pc := Exited\<rparr> in
    fst (EnqueClient_locked 9 (c_reactor c)) \<and> c_pc c = Exited"
proof -
  let ?c = "(started (loop_failed demo_reactor) 0)\<lparr>c_pc := Exited\<rparr>"
  have "c_pc ?c = Exited" "\<not> r_stopRequested (c_reactor ?c)" "\<not> r_forceStopRequested (c_reactor ?c)"
    by (simp_all add: started_def loop_failed_def demo_reactor_def SubReactor_init_def PublishState_def Let_def)
  from failed_reactor_takes_clients [OF this _ rtranclp.rtrancl_refl, of 9 "fst (EnqueClient_locked 9 (c_reactor ?c))"
      "snd (EnqueClient_locked 9 (c_reactor ?c))"]
  show ?thesis by (simp add: Let_def)
qed

end
