(* ===== verification/Server_Logger.thy ===== *)
theory Server_Logger
  imports Prelude
begin

text \<open>
  The logger (\<^verbatim>\<open>src/observability\<close>): levels, filtering, and the lines it prints.  The message made by
  \<^verbatim>\<open>fmt::format\<close>, the text of the local time and the number of the thread are arguments.  A line is
  printed under the mutex, so that the output is a sequence of whole lines.
\<close>

section \<open>Levels\<close>

datatype LogLevel = Debug | Info | Warn | Error | Off

fun log_level_int :: "LogLevel \<Rightarrow> nat" where
  "log_level_int Debug = 0"
| "log_level_int Info = 1"
| "log_level_int Warn = 2"
| "log_level_int Error = 3"
| "log_level_int Off = 4"

fun LogLevelName :: "LogLevel \<Rightarrow> string" where
  "LogLevelName Debug = ''DEBUG''"
| "LogLevelName Info = ''INFO''"
| "LogLevelName Warn = ''WARN''"
| "LogLevelName Error = ''ERROR''"
| "LogLevelName Off = ''OFF''"

section \<open>The logger\<close>

text \<open>The level, and the output.\<close>

record Logger =
  m_logLevel :: LogLevel
  log_output :: string

definition Logger_init :: Logger where
  "Logger_init = \<lparr>m_logLevel = Info, log_output = []\<rparr>"

definition SetLevel :: "LogLevel \<Rightarrow> Logger \<Rightarrow> Logger" where
  "SetLevel level l = l\<lparr>m_logLevel := level\<rparr>"

definition ShouldLog :: "Logger \<Rightarrow> LogLevel \<Rightarrow> bool" where
  "ShouldLog l level \<longleftrightarrow> log_level_int level \<ge> log_level_int (m_logLevel l)"

text \<open>\<open>std::setfill('0')\<close> and \<open>std::setw(3)\<close>.\<close>

definition pad_zeros :: "nat \<Rightarrow> string \<Rightarrow> string" where
  "pad_zeros width s = replicate (width - length s) (CHR ''0'') @ s"

text \<open>\<open>now\<close> is the system clock in milliseconds since the epoch, \<open>local_time\<close> what \<open>localtime_r\<close> and
  \<open>put_time\<close> make of its seconds.\<close>

definition log_line :: "(nat \<Rightarrow> string) \<Rightarrow> nat \<Rightarrow> string \<Rightarrow> LogLevel \<Rightarrow> string \<Rightarrow> string" where
  "log_line local_time now thread level message =
     (let timestamp = now div 1000;
          milliseconds = now mod 1000
      in local_time timestamp @ ''.'' @ pad_zeros 3 (nat_to_string milliseconds) @ '' ['' @ LogLevelName level @
         ''] [thread='' @ thread @ ''] '' @ message @ [CHR 0x0A])"

definition Write :: "(nat \<Rightarrow> string) \<Rightarrow> nat \<Rightarrow> string \<Rightarrow> LogLevel \<Rightarrow> string \<Rightarrow> Logger \<Rightarrow> Logger" where
  "Write local_time now thread level message l =
     l\<lparr>log_output := log_output l @ log_line local_time now thread level message\<rparr>"

definition Log :: "(nat \<Rightarrow> string) \<Rightarrow> nat \<Rightarrow> string \<Rightarrow> LogLevel \<Rightarrow> string \<Rightarrow> Logger \<Rightarrow> Logger" where
  "Log local_time now thread level message l =
     (if \<not> ShouldLog l level then l else Write local_time now thread level message l)"

section \<open>What is printed\<close>

text \<open>What the threads do with the logger, in the order in which it happens.\<close>

datatype log_op = SetLevelOp LogLevel | LogOp nat string LogLevel string

fun log_step :: "(nat \<Rightarrow> string) \<Rightarrow> log_op \<Rightarrow> Logger \<Rightarrow> Logger" where
  "log_step local_time (SetLevelOp level) l = SetLevel level l"
| "log_step local_time (LogOp now thread level message) l = Log local_time now thread level message l"

text \<open>The lines asked for while their level was on.\<close>

fun log_expected :: "(nat \<Rightarrow> string) \<Rightarrow> LogLevel \<Rightarrow> log_op list \<Rightarrow> string list" where
  "log_expected local_time current [] = []"
| "log_expected local_time current (SetLevelOp level # ops) = log_expected local_time level ops"
| "log_expected local_time current (LogOp now thread level message # ops) =
     (if log_level_int current \<le> log_level_int level then [log_line local_time now thread level message] else []) @
     log_expected local_time current ops"

text \<open>The output is the lines asked for at or above the level in force at the time, whole and in order.\<close>

theorem log_filtered:
  "log_output (fold (log_step local_time) ops l) =
     log_output l @ concat (log_expected local_time (m_logLevel l) ops)"
proof (induction ops arbitrary: l)
  case (Cons op ops)
  show ?case
    by (cases op) (simp_all add: Cons.IH SetLevel_def Log_def ShouldLog_def Write_def)
qed simp

text \<open>The fraction of the second always has three digits.\<close>

lemma nat_to_string_length3: "n < 1000 \<Longrightarrow> length (nat_to_string n) \<le> 3"
  by (simp add: nat_to_string.simps [of n] nat_to_string.simps [of "n div 10"] nat_to_string.simps [of "n div 10 div 10"])

lemma milliseconds_digits: "length (pad_zeros 3 (nat_to_string (now mod 1000))) = 3"
  using nat_to_string_length3 [of "now mod 1000"] by (simp add: pad_zeros_def)

end
