(* ===== verification/Config.thy ===== *)
theory Config
  imports Connection_Model Server_Logger
begin

text \<open>
  The configuration of the server (\<^verbatim>\<open>src/config\<close>, and the start of \<^verbatim>\<open>app/server_main.cpp\<close>): the file is read section by section, the command line overrides it,
  and the result is validated.  The TOML library is a parameter: \<open>toml\<close> gives the three accessors the
  loader uses, and \<open>parse_file\<close> the root table of a file or the exception for it; so is
  \<open>std::thread::hardware_concurrency\<close>, \<open>hw\<close>.  The texts made by \<open>fmt::format\<close> are written out.
\<close>

section \<open>Names of pollers and levels\<close>

definition ParsePollerBackend :: "string \<Rightarrow> PollerBackend result" where
  "ParsePollerBackend value =
     (if value = ''auto'' then Inr Auto
      else if value = ''epoll'' then Inr Epoll
      else if value = ''poll'' then Inr Poll
      else Inl (InvalidArgument ''poller backend must be auto, epoll or poll''))"

fun ParsePollerBackendName :: "PollerBackend \<Rightarrow> string" where
  "ParsePollerBackendName Auto = ''auto''"
| "ParsePollerBackendName Poll = ''poll''"
| "ParsePollerBackendName Epoll = ''epoll''"

definition logValueMap :: "(string, LogLevel) umap" where
  "logValueMap = [(''debug'', Debug), (''info'', Info), (''warn'', Warn), (''error'', Error), (''off'', Off)]"

definition ParseLogLevel :: "string \<Rightarrow> LogLevel result" where
  "ParseLogLevel value =
     (case um_find logValueMap value of
        None \<Rightarrow> Inl (InvalidArgument ''log level must be debug, info, warn, error, or off'')
      | Some level \<Rightarrow> Inr level)"

section \<open>The configuration\<close>

record ReactorOptions =
  pollerBackend :: PollerBackend
  subReactorCount :: nat

record ShutdownOptions =
  gracefulTimeout :: int

record AppConfig =
  host :: string
  port :: int
  network :: NetworkOptions
  reactor :: ReactorOptions
  shutdown :: ShutdownOptions
  sweepInterval :: int
  logLevel :: LogLevel

definition AppConfig_default :: AppConfig where
  "AppConfig_default = \<lparr>host = ''0.0.0.0'', port = 7777, network = NetworkOptions_default,
     reactor = \<lparr>pollerBackend = Auto, subReactorCount = 2\<rparr>, shutdown = \<lparr>gracefulTimeout = 3000\<rparr>,
     sweepInterval = 5000, logLevel = Info\<rparr>"

definition Validate :: "AppConfig \<Rightarrow> unit result" where
  "Validate config =
     (let networkConfig = network config
      in if host config = [] then Inl (InvalidArgument ''server.host must not be empty'')
         else if port config < 1 \<or> port config > 65535
           then Inl (InvalidArgument ''port must be between 1 and 65535'')
         else if maxReadBufferBytes networkConfig < 4
           then Inl (InvalidArgument ''maxReadBufferBytes must be at least 4'')
         else if writeLowWatermarkBytes networkConfig > writeHighWatermarkBytes networkConfig
           then Inl (InvalidArgument ''write low watermark exceeds high watermark'')
         else if writeHighWatermarkBytes networkConfig > writeHardLimitBytes networkConfig
           then Inl (InvalidArgument ''write high watermark exceeds hard limit'')
         else if maxWriteBytesPerEvent networkConfig = 0
           then Inl (InvalidArgument ''maxWriteBytesPerEvent must be greater than zero'')
         else if maxAcceptsPerEvent networkConfig = 0
           then Inl (InvalidArgument ''maxAcceptsPerEvent must be greater than zero'')
         else if subReactorCount (reactor config) > 16
           then Inl (InvalidArgument ''sub_reactors must be between 0 and 16'')
         else if gracefulTimeout (shutdown config) \<le> 0
           then Inl (InvalidArgument ''shutdown.graceful_timeout_ms must be greater than zero'')
         else if sweepInterval config < 0
           then Inl (InvalidArgument ''ttl.sweep_interval_ms must not be negative'')
         else Inr ())"

section \<open>The configuration file\<close>

record 'n toml =
  as_table :: "'n \<Rightarrow> (string \<Rightarrow> 'n option) option"
  value_string :: "'n \<Rightarrow> string option"
  value_integer :: "'n \<Rightarrow> int option"

type_synonym 'n table = "string \<Rightarrow> 'n option"

definition FindTable :: "'n toml \<Rightarrow> 'n table \<Rightarrow> string \<Rightarrow> 'n table option result" where
  "FindTable toml doc section =
     (case doc section of
        None \<Rightarrow> Inr None
      | Some node \<Rightarrow>
          case as_table toml node of
            None \<Rightarrow> Inl (InvalidArgument (''configuration section ['' @ section @ ''] must be a table''))
          | Some table \<Rightarrow> Inr (Some table))"

definition FindNode :: "'n toml \<Rightarrow> 'n table \<Rightarrow> string \<Rightarrow> string \<Rightarrow> 'n option result" where
  "FindNode toml doc section key =
     bind_result (FindTable toml doc section) (\<lambda>table.
       case table of None \<Rightarrow> Inr None | Some t \<Rightarrow> Inr (t key))"

definition config_name :: "string \<Rightarrow> string \<Rightarrow> string" where
  "config_name section key = section @ ''.'' @ key"

definition quote :: string where "quote = [char_of (39 :: nat)]"

definition ReadString :: "'n toml \<Rightarrow> 'n table \<Rightarrow> string \<Rightarrow> string \<Rightarrow> string option result" where
  "ReadString toml doc section key =
     bind_result (FindNode toml doc section key) (\<lambda>node.
       case node of
         None \<Rightarrow> Inr None
       | Some n \<Rightarrow>
           case value_string toml n of
             None \<Rightarrow> Inl (InvalidArgument (''configuration '' @ quote @ config_name section key @ quote @ '' must be a string''))
           | Some v \<Rightarrow> Inr (Some v))"

definition ReadInteger :: "'n toml \<Rightarrow> 'n table \<Rightarrow> string \<Rightarrow> string \<Rightarrow> int option result" where
  "ReadInteger toml doc section key =
     bind_result (FindNode toml doc section key) (\<lambda>node.
       case node of
         None \<Rightarrow> Inr None
       | Some n \<Rightarrow>
           case value_integer toml n of
             None \<Rightarrow> Inl (InvalidArgument (''configuration '' @ quote @ config_name section key @ quote @ '' must be an integer''))
           | Some v \<Rightarrow> Inr (Some v))"

definition SIZE_MAX :: int where "SIZE_MAX = 2 ^ 64 - 1"

text \<open>\<open>value\<close> is an \<open>int64_t\<close>.\<close>

definition ToSize :: "int \<Rightarrow> string \<Rightarrow> nat result" where
  "ToSize value name =
     (if value < 0 then Inl (InvalidArgument (''configuration '' @ quote @ name @ quote @ '' must not be negative''))
      else
        let unsignedValue = value
        in if unsignedValue > SIZE_MAX
           then Inl (InvalidArgument (''configuration '' @ quote @ name @ quote @ '' is too large''))
           else Inr (nat unsignedValue))"

text \<open>A value that is there is handed to the setter; one that is not leaves the configuration alone.\<close>

definition if_present :: "'v option result \<Rightarrow> ('v \<Rightarrow> 'c \<Rightarrow> 'c result) \<Rightarrow> 'c \<Rightarrow> 'c result" where
  "if_present read assign config =
     bind_result read (\<lambda>v. case v of None \<Rightarrow> Inr config | Some x \<Rightarrow> assign x config)"

definition auto_sub_reactors :: "nat \<Rightarrow> nat" where
  "auto_sub_reactors hw = (let n = hw div 2 in if n < 1 then 1 else if 8 < n then 8 else n)"

definition ReadServerConfig :: "'n toml \<Rightarrow> 'n table \<Rightarrow> AppConfig \<Rightarrow> AppConfig result" where
  "ReadServerConfig toml table config =
     bind_result (if_present (ReadString toml table ''server'' ''host'')
        (\<lambda>value config. Inr (config\<lparr>host := value\<rparr>)) config) (\<lambda>config.
     if_present (ReadInteger toml table ''server'' ''port'')
        (\<lambda>value config.
           if value < 1 \<or> value > 65535
           then Inl (InvalidArgument (''configuration '' @ quote @ ''server.port'' @ quote @ ''must be between 1 and 65535''))
           else Inr (config\<lparr>port := value\<rparr>)) config)"

text \<open>The names of the next two functions are as in the source: each reads the section of the other.\<close>

definition ReadNetworkConfig :: "'n toml \<Rightarrow> nat \<Rightarrow> 'n table \<Rightarrow> AppConfig \<Rightarrow> AppConfig result" where
  "ReadNetworkConfig toml hw table config =
     bind_result (if_present (ReadString toml table ''reactor'' ''poller'')
        (\<lambda>value config. bind_result (ParsePollerBackend value) (\<lambda>b.
           Inr (config\<lparr>reactor := (reactor config)\<lparr>pollerBackend := b\<rparr>\<rparr>))) config) (\<lambda>config.
     if_present (ReadInteger toml table ''reactor'' ''sub_reactors'')
        (\<lambda>value config.
           if value < 0 \<or> value > 16
           then Inl (InvalidArgument (''configuration '' @ quote @ ''reactor.sub_reactors'' @ quote @ '' must be between 0 and 16''))
           else
             let config = config\<lparr>reactor := (reactor config)\<lparr>subReactorCount := nat value\<rparr>\<rparr>
             in Inr (if subReactorCount (reactor config) = 0
                     then config\<lparr>reactor := (reactor config)\<lparr>subReactorCount := auto_sub_reactors hw\<rparr>\<rparr>
                     else config)) config)"

definition read_limit :: "'n toml \<Rightarrow> 'n table \<Rightarrow> string \<Rightarrow> (nat \<Rightarrow> NetworkOptions \<Rightarrow> NetworkOptions) \<Rightarrow>
    AppConfig \<Rightarrow> AppConfig result" where
  "read_limit toml table key assign config =
     if_present (ReadInteger toml table ''network'' key)
       (\<lambda>value config. bind_result (ToSize value (config_name ''network'' key)) (\<lambda>n.
          Inr (config\<lparr>network := assign n (network config)\<rparr>))) config"

definition ReadReactorConfig :: "'n toml \<Rightarrow> 'n table \<Rightarrow> AppConfig \<Rightarrow> AppConfig result" where
  "ReadReactorConfig toml table config =
     bind_result (read_limit toml table ''max_read_buffer_bytes'' (\<lambda>n opts. opts\<lparr>maxReadBufferBytes := n\<rparr>) config) (\<lambda>config.
     bind_result (read_limit toml table ''write_low_watermark_bytes'' (\<lambda>n opts. opts\<lparr>writeLowWatermarkBytes := n\<rparr>) config) (\<lambda>config.
     bind_result (read_limit toml table ''write_high_watermark_bytes'' (\<lambda>n opts. opts\<lparr>writeHighWatermarkBytes := n\<rparr>) config) (\<lambda>config.
     bind_result (read_limit toml table ''write_hard_limit_bytes'' (\<lambda>n opts. opts\<lparr>writeHardLimitBytes := n\<rparr>) config) (\<lambda>config.
     bind_result (read_limit toml table ''max_write_bytes_per_event'' (\<lambda>n opts. opts\<lparr>maxWriteBytesPerEvent := n\<rparr>) config) (\<lambda>config.
     read_limit toml table ''max_accepts_per_event'' (\<lambda>n opts. opts\<lparr>maxAcceptsPerEvent := n\<rparr>) config)))))"

definition ReadShutdownConfig :: "'n toml \<Rightarrow> 'n table \<Rightarrow> AppConfig \<Rightarrow> AppConfig result" where
  "ReadShutdownConfig toml table config =
     if_present (ReadInteger toml table ''shutdown'' ''graceful_timeout_ms'')
       (\<lambda>value config.
          if value \<le> 0
          then Inl (InvalidArgument
            (''configuration '' @ quote @ ''shutdown.graceful_timeout_ms'' @ quote @ '' must be greater than zero''))
          else Inr (config\<lparr>shutdown := (shutdown config)\<lparr>gracefulTimeout := value\<rparr>\<rparr>)) config"

definition ReadTTLConfig :: "'n toml \<Rightarrow> 'n table \<Rightarrow> AppConfig \<Rightarrow> AppConfig result" where
  "ReadTTLConfig toml table config =
     if_present (ReadInteger toml table ''ttl'' ''sweep_interval_ms'')
       (\<lambda>value config.
          if value \<le> 0
          then Inl (InvalidArgument
            (''configuration '' @ quote @ ''ttl.sweep_interval_ms'' @ quote @ '' must not be negative''))
          else Inr (config\<lparr>sweepInterval := value\<rparr>)) config"

definition ReadLogConfig :: "'n toml \<Rightarrow> 'n table \<Rightarrow> AppConfig \<Rightarrow> AppConfig result" where
  "ReadLogConfig toml table config =
     if_present (ReadString toml table ''logging'' ''level'')
       (\<lambda>value config. bind_result (ParseLogLevel value) (\<lambda>l. Inr (config\<lparr>logLevel := l\<rparr>))) config"

definition LoadFromFile :: "'n toml \<Rightarrow> nat \<Rightarrow> (string \<Rightarrow> 'n table result) \<Rightarrow> string \<Rightarrow> AppConfig result" where
  "LoadFromFile toml hw parse_file path =
     bind_result (parse_file path) (\<lambda>table.
     let config = AppConfig_default
     in bind_result (ReadServerConfig toml table config) (\<lambda>config.
        bind_result (ReadReactorConfig toml table config) (\<lambda>config.
        bind_result (ReadNetworkConfig toml hw table config) (\<lambda>config.
        bind_result (ReadShutdownConfig toml table config) (\<lambda>config.
        bind_result (ReadTTLConfig toml table config) (\<lambda>config.
        bind_result (ReadLogConfig toml table config) (\<lambda>config.
        bind_result (Validate config) (\<lambda>_. Inr config))))))))"

definition BuildConfigStr :: "AppConfig \<Rightarrow> string" where
  "BuildConfigStr config =
     ''host='' @ host config @ '', port='' @ int_to_string (port config) @
     '', poller='' @ ParsePollerBackendName (pollerBackend (reactor config)) @
     '', sub_reactors='' @ nat_to_string (subReactorCount (reactor config)) @ '', '' @
     ''max_read_buffer_byte='' @ nat_to_string (maxReadBufferBytes (network config)) @
     '', write_high_watermark_bytes='' @ nat_to_string (writeHighWatermarkBytes (network config)) @
     '', write_low_watermark_bytes='' @ nat_to_string (writeLowWatermarkBytes (network config)) @ '', '' @
     ''write_hard_limit_bytes='' @ nat_to_string (writeHardLimitBytes (network config)) @
     '', max_write_bytes_per_event='' @ nat_to_string (maxWriteBytesPerEvent (network config)) @
     '', max_accepts_per_event='' @ nat_to_string (maxAcceptsPerEvent (network config)) @ '', '' @
     ''graceful_shutdown_timeout='' @ int_to_string (gracefulTimeout (shutdown config)) @
     '', log_level='' @ LogLevelName (logLevel config)"

section \<open>The command line\<close>

text \<open>\<open>args\<close> are the arguments from the current one on; a function that takes the value of an option
  returns it with the arguments left.\<close>

definition RequireNextValue :: "string \<Rightarrow> string list \<Rightarrow> (string \<times> string list) result" where
  "RequireNextValue option args =
     (case args of
        [] \<Rightarrow> Inl (InvalidArgument (''Missing value for option:'' @ option))
      | value # rest \<Rightarrow>
          if value = [] then Inl (InvalidArgument (''Empty value for option:'' @ option))
          else Inr (value, rest))"

definition StartsWith :: "string \<Rightarrow> string \<Rightarrow> bool" where
  "StartsWith value prefix \<longleftrightarrow> length value \<ge> length prefix \<and> take (length prefix) value = prefix"

definition MatchesOption :: "string \<Rightarrow> string \<Rightarrow> bool" where
  "MatchesOption argument option \<longleftrightarrow> argument = option \<or> StartsWith argument (option @ ''='')"

definition ParseInlineValue :: "string \<Rightarrow> string \<Rightarrow> string option result" where
  "ParseInlineValue argument option =
     (if argument = option then Inr None
      else
        let prefix = option @ ''=''
        in if \<not> StartsWith argument prefix then Inr None
           else
             let value = drop (length prefix) argument
             in if value = [] then Inl (InvalidArgument (''empty value for option '' @ option))
                else Inr (Some value))"

definition ReadOptionValue :: "string \<Rightarrow> string \<Rightarrow> string list \<Rightarrow> (string \<times> string list) result" where
  "ReadOptionValue argument option args =
     (if argument = option then RequireNextValue option args
      else
        bind_result (ParseInlineValue argument option) (\<lambda>inlineValue.
          case inlineValue of
            None \<Rightarrow> Inl (LogicError ''argument does not match option'')
          | Some value \<Rightarrow> Inr (value, args)))"

text \<open>\<open>std::from_chars\<close> in base 10: an optional minus sign for a signed type, then digits as far as they
  go; the value and the characters left, or no value when there is no digit or it is out of range.\<close>

definition from_chars :: "bool \<Rightarrow> int \<Rightarrow> int \<Rightarrow> string \<Rightarrow> (int \<times> string) option" where
  "from_chars is_signed lo hi value =
     (let neg = is_signed \<and> value \<noteq> [] \<and> hd value = CHR ''-'';
          body = (if neg then tl value else value);
          digits = takeWhile IsDigit body;
          v = (if neg then - dec_value 0 digits else dec_value 0 digits)
      in if digits = [] \<or> v < lo \<or> hi < v then None else Some (v, dropWhile IsDigit body))"

definition ParseInteger :: "bool \<Rightarrow> int \<Rightarrow> int \<Rightarrow> string \<Rightarrow> string \<Rightarrow> int result" where
  "ParseInteger is_signed lo hi value option =
     (case from_chars is_signed lo hi value of
        Some (result, []) \<Rightarrow> Inr result
      | _ \<Rightarrow> Inl (InvalidArgument (''invalid integer for option '' @ option @ '': '' @ value)))"

definition ParseInteger_int :: "string \<Rightarrow> string \<Rightarrow> int result" where
  "ParseInteger_int = ParseInteger True (- (2 ^ 31)) (2 ^ 31 - 1)"

definition ParseInteger_size :: "string \<Rightarrow> string \<Rightarrow> int result" where
  "ParseInteger_size = ParseInteger False 0 SIZE_MAX"

lemma RequireNextValue_shorter:
  "RequireNextValue option args = Inr (v, rest) \<Longrightarrow> length rest < length args"
  by (auto simp: RequireNextValue_def split: list.splits if_splits)

lemma ReadOptionValue_shorter:
  "ReadOptionValue argument option args = Inr (v, rest) \<Longrightarrow> length rest \<le> length args"
  using RequireNextValue_shorter [of option args v rest]
  by (auto simp: ReadOptionValue_def result_simps split: if_splits option.splits)

text \<open>The first pass over the arguments after the program's name.\<close>

function FindConfigPath_loop :: "string option \<Rightarrow> string list \<Rightarrow> string option result" where
  "FindConfigPath_loop configPath [] = Inr configPath"
| "FindConfigPath_loop configPath (argument # args) =
     (if argument = ''--config'' \<or> argument = ''-c'' then
        case RequireNextValue argument args of
          Inl e \<Rightarrow> Inl e
        | Inr (value, rest) \<Rightarrow>
            if configPath \<noteq> None then Inl (InvalidArgument ''configuration file specified multiple times'')
            else FindConfigPath_loop (Some value) rest
      else if MatchesOption argument ''--config'' then
        case ReadOptionValue argument ''--config'' args of
          Inl e \<Rightarrow> Inl e
        | Inr (value, rest) \<Rightarrow>
            if configPath \<noteq> None then Inl (InvalidArgument ''configuration file specified multiple times'')
            else FindConfigPath_loop (Some value) rest
      else FindConfigPath_loop configPath args)"
  by pat_completeness auto
termination
  by (relation "measure (\<lambda>(_, args). length args)")
    (auto dest!: RequireNextValue_shorter ReadOptionValue_shorter)

definition FindConfigPath :: "string list \<Rightarrow> string option result" where
  "FindConfigPath argv = FindConfigPath_loop None (tl argv)"

text \<open>One option of the second pass: the configuration and the arguments left.\<close>

definition apply_option :: "nat \<Rightarrow> string \<Rightarrow> string list \<Rightarrow> AppConfig \<Rightarrow> (AppConfig \<times> string list) result" where
  "apply_option hw argument args config =
     (if argument = ''--config'' \<or> argument = ''-c'' then
        bind_result (RequireNextValue argument args) (\<lambda>(_, rest). Inr (config, rest))
      else if MatchesOption argument ''--config'' then
        bind_result (ReadOptionValue argument ''--config'' args) (\<lambda>(_, rest). Inr (config, rest))
      else if MatchesOption argument ''--host'' then
        bind_result (ReadOptionValue argument ''--host'' args) (\<lambda>(value, rest).
          Inr (config\<lparr>host := value\<rparr>, rest))
      else if MatchesOption argument ''--port'' then
        bind_result (ReadOptionValue argument ''--port'' args) (\<lambda>(value, rest).
        bind_result (ParseInteger_int value ''--port'') (\<lambda>p.
          Inr (config\<lparr>port := p\<rparr>, rest)))
      else if MatchesOption argument ''--poller'' then
        bind_result (ReadOptionValue argument ''--poller'' args) (\<lambda>(value, rest).
        bind_result (ParsePollerBackend value) (\<lambda>b.
          Inr (config\<lparr>reactor := (reactor config)\<lparr>pollerBackend := b\<rparr>\<rparr>, rest)))
      else if MatchesOption argument ''--sub-reactors'' then
        bind_result (ReadOptionValue argument ''--sub-reactors'' args) (\<lambda>(value, rest).
        bind_result (ParseInteger_size value ''--sub-reactors'') (\<lambda>n.
          let config = config\<lparr>reactor := (reactor config)\<lparr>subReactorCount := nat n\<rparr>\<rparr>
          in Inr (if subReactorCount (reactor config) = 0
                  then config\<lparr>reactor := (reactor config)\<lparr>subReactorCount := auto_sub_reactors hw\<rparr>\<rparr>
                  else config, rest)))
      else if MatchesOption argument ''--log-level'' then
        bind_result (ReadOptionValue argument ''--log-level'' args) (\<lambda>(value, rest).
        bind_result (ParseLogLevel value) (\<lambda>l.
          Inr (config\<lparr>logLevel := l\<rparr>, rest)))
      else if argument = ''--help'' \<or> argument = ''-h'' then Inr (config, args)
      else Inl (InvalidArgument (''unknown command line option: '' @ argument)))"

lemma apply_option_shorter:
  "apply_option hw argument args config = Inr (config', rest) \<Longrightarrow> length rest \<le> length args"
  by (auto simp: apply_option_def Let_def result_simps split: if_splits
      dest!: ReadOptionValue_shorter RequireNextValue_shorter)

function apply_options :: "nat \<Rightarrow> string list \<Rightarrow> AppConfig \<Rightarrow> AppConfig result" where
  "apply_options hw [] config = Inr config"
| "apply_options hw (argument # args) config =
     (case apply_option hw argument args config of
        Inl e \<Rightarrow> Inl e
      | Inr (config, rest) \<Rightarrow> apply_options hw rest config)"
  by pat_completeness auto
termination
  by (relation "measure (\<lambda>(_, args, _). length args)") (auto dest!: apply_option_shorter)

definition ApplyCommandLineOverrides :: "nat \<Rightarrow> string list \<Rightarrow> AppConfig \<Rightarrow> AppConfig result" where
  "ApplyCommandLineOverrides hw argv config = apply_options hw (tl argv) config"

section \<open>Starting the server\<close>

definition NeedShowHelp :: "string list \<Rightarrow> bool result" where
  "NeedShowHelp argv =
     (let findHelp = list_ex (\<lambda>argument. argument = ''--help'' \<or> argument = ''-h'') (tl argv)
      in if \<not> findHelp then Inr False
         else if length argv = 2 then Inr True
         else Inl (InvalidArgument ''--help and -h can only be used alone''))"

text \<open>The part of \<open>main\<close> that makes the configuration; \<open>None\<close> when the help is shown instead.\<close>

definition server_config ::
  "'n toml \<Rightarrow> nat \<Rightarrow> (string \<Rightarrow> 'n table result) \<Rightarrow> string list \<Rightarrow> AppConfig option result" where
  "server_config toml hw parse_file argv =
     bind_result (NeedShowHelp argv) (\<lambda>help.
       if help then Inr None
       else
         let config = AppConfig_default
         in bind_result (FindConfigPath argv) (\<lambda>configPath.
            bind_result (case configPath of None \<Rightarrow> Inr config | Some path \<Rightarrow> LoadFromFile toml hw parse_file path) (\<lambda>config.
            bind_result (ApplyCommandLineOverrides hw argv config) (\<lambda>config.
            bind_result (Validate config) (\<lambda>_. Inr (Some config))))))"

end
