(* ===== verification/Tcp_Server.thy ===== *)
theory Tcp_Server
  imports Reactor_Loop Config
begin

text \<open>
  The main reactor (\<^verbatim>\<open>src/net/tcp_server.cpp\<close>): it accepts clients, hands them to the sub-reactors in
  turn, and carries a stop to them; and the thread that sweeps expired keys.  The sub-reactors are the
  records of \<open>Sub_Reactor\<close>; what their threads do meanwhile is in \<open>Reactor_Loop\<close>, so that here they
  change only by the control methods called on them, and by what an argument says their threads did
  between two rounds.  The returns of the system calls are arguments.
\<close>

section \<open>State\<close>

text \<open>The members of the class, the flags of the open descriptors, and the logs of the sockets that were
  opened (the listening one and the accepted ones) and of those closed by the main reactor.\<close>

record TcpServer =
  s_host :: string
  s_port :: int
  s_listenFd :: int
  s_poller :: "Poller option"
  s_stopRequested :: bool
  s_state :: ServerState
  s_stopWakeup :: WakeupChannel
  s_shutdownDeadline :: time_point
  s_forceStopSent :: bool
  s_subReactors :: "SubReactor list"
  s_nextSubReactorIndex :: nat
  s_sweepInterval :: int
  s_sweeperRunning :: bool
  s_networkOptions :: NetworkOptions
  s_reactorOptions :: ReactorOptions
  s_shutdownOptions :: ShutdownOptions
  s_store :: KVStore
  s_metrics :: ServerMetrics
  s_flags :: FdFlags
  s_openedFds :: "int list"
  s_closedFds :: "int list"

definition TcpServer_init ::
  "WakeupChannel \<Rightarrow> FdFlags \<Rightarrow> string \<Rightarrow> int \<Rightarrow> int \<Rightarrow> NetworkOptions \<Rightarrow> ReactorOptions \<Rightarrow> ShutdownOptions \<Rightarrow> TcpServer result" where
  "TcpServer_init wakeup flags hostname portnumber interval networkOptions reactorOptions shutdownOptions =
     (if maxReadBufferBytes networkOptions < 4
        then Inl (InvalidArgument ''maxReadBufferBytes must be at least 4'')
      else if writeLowWatermarkBytes networkOptions > writeHighWatermarkBytes networkOptions
        then Inl (InvalidArgument ''write low watermark exceeds high watermark'')
      else if writeHighWatermarkBytes networkOptions > writeHardLimitBytes networkOptions
        then Inl (InvalidArgument ''write high watermark exceeds hard limit'')
      else if maxWriteBytesPerEvent networkOptions = 0
        then Inl (InvalidArgument ''maxWriteBytesPerEvent must be greater than zero'')
      else if maxAcceptsPerEvent networkOptions = 0
        then Inl (InvalidArgument ''maxAcceptsPerEvent must be greater than zero'')
      else if subReactorCount reactorOptions < 1 \<or> subReactorCount reactorOptions > 16
        then Inl (InvalidArgument ''sub_reactors must be between 1 and 16'')
      else Inr
        \<lparr>s_host = hostname, s_port = portnumber, s_listenFd = INVALID_FD, s_poller = None, s_stopRequested = False,
         s_state = Created, s_stopWakeup = wakeup, s_shutdownDeadline = 0, s_forceStopSent = False,
         s_subReactors = [], s_nextSubReactorIndex = 0, s_sweepInterval = interval, s_sweeperRunning = False,
         s_networkOptions = networkOptions, s_reactorOptions = reactorOptions,
         s_shutdownOptions = shutdownOptions, s_store = KVStore_init, s_metrics = ServerMetrics_init,
         s_flags = flags, s_openedFds = [], s_closedFds = []\<rparr>)"

type_synonym 'a served = "'a result \<times> TcpServer"

fun bind_served :: "'a served \<Rightarrow> ('a \<Rightarrow> TcpServer \<Rightarrow> 'b served) \<Rightarrow> 'b served" where
  "bind_served (Inl e, s) f = (Inl e, s)"
| "bind_served (Inr a, s) f = f a s"

section \<open>Accepting clients\<close>

text \<open>One accepted descriptor: set up, and handed to the next sub-reactor in turn.  A client that cannot
  be set up is closed and skipped, one that the reactor refuses is closed by the reactor.\<close>

definition hand_over :: "fcntl_oracle \<Rightarrow> (int \<Rightarrow> nat sysret list) \<Rightarrow> int \<Rightarrow> TcpServer \<Rightarrow> unit served" where
  "hand_over fcntl writes rawFd s =
     (case bind_result (SetNonBlocking fcntl rawFd (s_flags s)) (SetCloseOnExec fcntl rawFd) of
        Inl error \<Rightarrow> (Inr (), s\<lparr>s_closedFds := snd (ScopedFd_destroy rawFd (s_closedFds s))\<rparr>)
      | Inr flags \<Rightarrow>
          let s = s\<lparr>s_flags := flags\<rparr>;
              reactorIndex = s_nextSubReactorIndex s;
              s = s\<lparr>s_nextSubReactorIndex := (s_nextSubReactorIndex s + 1) mod length (s_subReactors s)\<rparr>
          in case EnqueClient (writes rawFd) rawFd (s_subReactors s ! reactorIndex) of
               None \<Rightarrow> (Inl StillBlocked, s)
             | Some (taken, subReactor) \<Rightarrow> (Inr (), s\<lparr>s_subReactors := (s_subReactors s)[reactorIndex := subReactor]\<rparr>))"

text \<open>\<open>accepts\<close> are the returns of \<open>accept\<close>.\<close>

fun accept_loop ::
  "fcntl_oracle \<Rightarrow> (int \<Rightarrow> nat sysret list) \<Rightarrow> int sysret list \<Rightarrow> nat \<Rightarrow> TcpServer \<Rightarrow> unit served" where
  "accept_loop fcntl writes accepts acceptedCount s =
     (if \<not> acceptedCount < maxAcceptsPerEvent (s_networkOptions s) then (Inr (), s)
      else
        case accepts of
          [] \<Rightarrow> (Inl StillBlocked, s)
        | Fail errno # rest \<Rightarrow>
            if errno = EINTR then accept_loop fcntl writes rest acceptedCount s
            else if errno = EAGAIN \<or> errno = EWOULDBLOCK then (Inr (), s)
            else (Inl (SystemError ''accept failed'' errno), s)
        | Ret rawFd # rest \<Rightarrow>
            let s = s\<lparr>s_openedFds := s_openedFds s @ [rawFd]\<rparr>
            in bind_served (hand_over fcntl writes rawFd s) (\<lambda>_ s.
              accept_loop fcntl writes rest (acceptedCount + 1) s))"

declare accept_loop.simps [simp del]

definition AcceptNewClients ::
  "fcntl_oracle \<Rightarrow> (int \<Rightarrow> nat sysret list) \<Rightarrow> int sysret list \<Rightarrow> TcpServer \<Rightarrow> unit served" where
  "AcceptNewClients fcntl writes accepts s = accept_loop fcntl writes accepts 0 s"

section \<open>Stopping\<close>

text \<open>\<open>now + gracefulTimeout\<close> is computed in 64-bit nanoseconds.  It overflows for a timeout of about
  \<open>9.2 * 10^12\<close> milliseconds; that is undefined in C++, and written here as the wrap-around of two's
  complement.\<close>

definition deadline_after :: "time_point \<Rightarrow> int \<Rightarrow> time_point" where
  "deadline_after now timeout = sint (word_of_int (now + milliseconds timeout) :: 64 word)"

text \<open>\<open>Stop\<close>, which other threads and the destructor call.\<close>

definition TcpServer_Stop :: "nat sysret list \<Rightarrow> TcpServer \<Rightarrow> TcpServer option" where
  "TcpServer_Stop writes s =
     map_option (\<lambda>w. s\<lparr>s_stopRequested := True, s_stopWakeup := w\<rparr>) (Notify writes (s_stopWakeup s))"

text \<open>A control method called on some of the reactors, each with the returns of \<open>write\<close> for its channel.\<close>

fun on_reactors ::
  "(SubReactor \<Rightarrow> bool) \<Rightarrow> (nat sysret list \<Rightarrow> SubReactor \<Rightarrow> SubReactor option) \<Rightarrow> nat sysret list list \<Rightarrow>
   SubReactor list \<Rightarrow> SubReactor list option" where
  "on_reactors wanted method writes [] = Some []"
| "on_reactors wanted method writes (r # rs) =
     (if wanted r then
        case writes of
          [] \<Rightarrow> None
        | w # ws \<Rightarrow>
            case method w r of
              None \<Rightarrow> None
            | Some r' \<Rightarrow> map_option ((#) r') (on_reactors wanted method ws rs)
      else map_option ((#) r) (on_reactors wanted method writes rs))"

text \<open>The parts of \<open>BeginGracefulShutdown\<close>: no more clients, and the stop of the reactors.\<close>

definition drop_listener :: "ctl_oracle \<Rightarrow> TcpServer \<Rightarrow> unit served" where
  "drop_listener ctl s =
     (if ScopedFd_Valid (s_listenFd s) then
        let (removed, p) = Poller_Remove ctl (the (s_poller s)) (s_listenFd s);
            s = s\<lparr>s_poller := Some p\<rparr>
        in case removed of
             Some e \<Rightarrow> (Inl e, s)
           | None \<Rightarrow>
               let (fd, closed) = ScopedFd_Reset INVALID_FD (s_listenFd s) (s_closedFds s)
               in (Inr (), s\<lparr>s_listenFd := fd, s_closedFds := closed\<rparr>)
      else (Inr (), s))"

definition stop_reactors :: "nat sysret list list \<Rightarrow> TcpServer \<Rightarrow> unit served" where
  "stop_reactors writes s =
     (case on_reactors (\<lambda>_. True) (\<lambda>w. Stop w (s_shutdownDeadline s)) writes (s_subReactors s) of
        None \<Rightarrow> (Inl StillBlocked, s)
      | Some reactors \<Rightarrow> (Inr (), s\<lparr>s_subReactors := reactors\<rparr>))"

definition Server_BeginGracefulShutdown ::
  "ctl_oracle \<Rightarrow> nat sysret list list \<Rightarrow> time_point \<Rightarrow> TcpServer \<Rightarrow> unit served" where
  "Server_BeginGracefulShutdown ctl writes now s =
     (if s_state s \<noteq> Running then (Inr (), s)
      else
        let s = s\<lparr>s_state := Draining\<rparr>;
            s = s\<lparr>s_shutdownDeadline := deadline_after now (gracefulTimeout (s_shutdownOptions s))\<rparr>
        in bind_served (drop_listener ctl s) (\<lambda>_ s. stop_reactors writes s))"

definition Server_CheckShutdownProgress ::
  "nat sysret list list \<Rightarrow> time_point \<Rightarrow> TcpServer \<Rightarrow> unit served" where
  "Server_CheckShutdownProgress writes now s =
     (if s_state s \<noteq> Draining then (Inr (), s)
      else
        let allSubReactorStopped = list_all IsStopped (s_subReactors s)
        in if allSubReactorStopped then (Inr (), s\<lparr>s_state := Stopped\<rparr>)
           else if \<not> s_forceStopSent s \<and> now \<ge> s_shutdownDeadline s then
             case on_reactors (\<lambda>r. \<not> IsStopped r) ForceStop writes (s_subReactors s) of
               None \<Rightarrow> (Inl StillBlocked, s)
             | Some reactors \<Rightarrow> (Inr (), s\<lparr>s_subReactors := reactors, s_forceStopSent := True\<rparr>)
           else (Inr (), s))"

definition Server_ComputeWaitTimeout :: "time_point \<Rightarrow> TcpServer \<Rightarrow> int" where
  "Server_ComputeWaitTimeout now s =
     (if s_state s = Running then 500
      else if s_state s \<noteq> Draining then 0
      else if s_forceStopSent s then 10
      else if now \<ge> s_shutdownDeadline s then 0
      else
        let remaining = (s_shutdownDeadline s - now) div milliseconds 1;
            remaining = (if remaining \<le> 0 then 1 else remaining)
        in min 100 remaining)"

definition CheckSubReactorHealth ::
  "ctl_oracle \<Rightarrow> nat sysret list list \<Rightarrow> time_point \<Rightarrow> TcpServer \<Rightarrow> unit served" where
  "CheckSubReactorHealth ctl writes now s =
     (if s_state s \<noteq> Running then (Inr (), s)
      else if list_ex HasFailed (s_subReactors s) then Server_BeginGracefulShutdown ctl writes now s
      else (Inr (), s))"

text \<open>What the threads of the reactors do: at each index, the reactor they leave.\<close>

definition reactors_progress :: "(nat \<Rightarrow> SubReactor \<Rightarrow> SubReactor) \<Rightarrow> TcpServer \<Rightarrow> TcpServer" where
  "reactors_progress threads s =
     s\<lparr>s_subReactors := map (\<lambda>(i, r). threads i r) (zip [0..<length (s_subReactors s)] (s_subReactors s))\<rparr>"

text \<open>\<open>joined\<close> is what the threads have made of the reactors by the time \<open>Join\<close> returns.\<close>

definition JoinSubReactors :: "(nat \<Rightarrow> SubReactor \<Rightarrow> SubReactor) \<Rightarrow> TcpServer \<Rightarrow> TcpServer" where
  "JoinSubReactors joined s = reactors_progress joined s"

definition ForceStopAndJoinSubReactors ::
  "nat sysret list list \<Rightarrow> (nat \<Rightarrow> SubReactor \<Rightarrow> SubReactor) \<Rightarrow> TcpServer \<Rightarrow> TcpServer option" where
  "ForceStopAndJoinSubReactors writes joined s =
     (case on_reactors (\<lambda>_. True) ForceStop writes (s_subReactors s) of
        None \<Rightarrow> None
      | Some reactors \<Rightarrow> Some (JoinSubReactors joined (s\<lparr>s_subReactors := reactors\<rparr>)))"

text \<open>The descriptors a reactor has closed, and those that its destructor closes.\<close>

definition reactor_fds :: "SubReactor \<Rightarrow> int list" where
  "reactor_fds r = r_closedFds r @ r_pendingClients r @ map (\<lambda>(fd, conn). conn_fd conn) (r_clients r)"

text \<open>What the poller throws is ignored.\<close>

definition CleanupMainReactor :: "ctl_oracle \<Rightarrow> TcpServer \<Rightarrow> TcpServer" where
  "CleanupMainReactor ctl s =
     (let s = (case s_poller s of
                 None \<Rightarrow> s
               | Some p \<Rightarrow>
                   let p = (if ScopedFd_Valid (s_listenFd s) then snd (Poller_Remove ctl p (s_listenFd s)) else p);
                       p = snd (Poller_Remove ctl p (wk_readFd (s_stopWakeup s)))
                   in s\<lparr>s_poller := Some p\<rparr>);
          (fd, closed) = ScopedFd_Reset INVALID_FD (s_listenFd s) (s_closedFds s);
          s = s\<lparr>s_listenFd := fd, s_closedFds := closed\<rparr>;
          s = s\<lparr>s_poller := None\<rparr>
      in s\<lparr>s_subReactors := [], s_closedFds := s_closedFds s @ concat (map reactor_fds (s_subReactors s))\<rparr>)"

section \<open>Starting\<close>

text \<open>\<open>thread\<close> is the error of creating the thread, if it fails.\<close>

definition StartSweeperThread :: "cpp_exception option \<Rightarrow> TcpServer \<Rightarrow> unit served" where
  "StartSweeperThread thread s =
     (if s_sweepInterval s \<le> 0 then (Inr (), s)
      else if s_sweeperRunning s then (Inl (LogicError ''sweeper thread already running''), s)
      else
        let s = s\<lparr>s_sweeperRunning := True\<rparr>
        in case thread of
             None \<Rightarrow> (Inr (), s)
           | Some e \<Rightarrow> (Inl e, s\<lparr>s_sweeperRunning := False\<rparr>))"

definition StopSweeperThread :: "TcpServer \<Rightarrow> TcpServer" where
  "StopSweeperThread s = s\<lparr>s_sweeperRunning := False\<rparr>"

text \<open>What the system calls of the start return; \<open>rc_pair\<close>, \<open>rc_created\<close> and \<open>rc_thread\<close> are for the
  reactor of an index.  \<open>LISTEN_BACKLOG\<close> is the default argument of \<open>CreateListenSocket\<close>.\<close>

record run_calls =
  rc_linux :: bool
  rc_epoll :: "int sysret"
  rc_inet_pton :: "string \<Rightarrow> u32 option"
  rc_socket :: socket_calls
  rc_fcntl :: fcntl_oracle
  rc_pair :: "nat \<Rightarrow> (int \<times> int) sysret"
  rc_created :: "nat \<Rightarrow> int sysret"
  rc_thread :: "nat \<Rightarrow> cpp_exception option"
  rc_sweeper :: "cpp_exception option"

definition LISTEN_BACKLOG :: int where "LISTEN_BACKLOG = 128"

definition open_listener :: "run_calls \<Rightarrow> TcpServer \<Rightarrow> unit served" where
  "open_listener calls s =
     (case CreateListenSocket (rc_inet_pton calls) (rc_socket calls) (s_host s) (s_port s) LISTEN_BACKLOG of
        (Inl e, fds) \<Rightarrow> (Inl e, s\<lparr>s_openedFds := s_openedFds s @ fds, s_closedFds := s_closedFds s @ fds\<rparr>)
      | (Inr socket, _) \<Rightarrow>
          let s = s\<lparr>s_listenFd := sock_fd socket, s_openedFds := s_openedFds s @ [sock_fd socket]\<rparr>
          in case bind_result (SetNonBlocking (rc_fcntl calls) (s_listenFd s) (s_flags s))
                    (SetCloseOnExec (rc_fcntl calls) (s_listenFd s)) of
               Inl e \<Rightarrow> (Inl e, s)
             | Inr flags \<Rightarrow> (Inr (), s\<lparr>s_flags := flags\<rparr>))"

definition main_poller_add :: "ctl_oracle \<Rightarrow> int \<Rightarrow> TcpServer \<Rightarrow> unit served" where
  "main_poller_add ctl fd s =
     (let (added, p) = Poller_Add ctl (the (s_poller s)) fd IoEvent_Read;
          s = s\<lparr>s_poller := Some p\<rparr>
      in case added of Some e \<Rightarrow> (Inl e, s) | None \<Rightarrow> (Inr (), s))"

fun create_reactors :: "run_calls \<Rightarrow> nat list \<Rightarrow> TcpServer \<Rightarrow> unit served" where
  "create_reactors calls [] s = (Inr (), s)"
| "create_reactors calls (i # is) s =
     (case WakeupChannel_init (rc_pair calls i) (rc_fcntl calls) (s_flags s) of
        (Inl e, _) \<Rightarrow> (Inl e, s)
      | (Inr (wakeup, flags), _) \<Rightarrow>
          create_reactors calls is
            (s\<lparr>s_flags := flags,
               s_subReactors := s_subReactors s @ [SubReactor_init (of_nat i) wakeup (s_store s) (s_metrics s)]\<rparr>))"

fun start_reactors :: "run_calls \<Rightarrow> ctl_oracle \<Rightarrow> nat list \<Rightarrow> TcpServer \<Rightarrow> unit served" where
  "start_reactors calls ctl [] s = (Inr (), s)"
| "start_reactors calls ctl (i # is) s =
     (let (started, r) = Start (rc_linux calls) (rc_created calls i) ctl (rc_thread calls i)
            (pollerBackend (s_reactorOptions s)) (s_subReactors s ! i)
      in bind_served (started, s\<lparr>s_subReactors := (s_subReactors s)[i := r]\<rparr>) (\<lambda>_ s.
           start_reactors calls ctl is s))"

definition run_start :: "run_calls \<Rightarrow> ctl_oracle \<Rightarrow> TcpServer \<Rightarrow> unit served" where
  "run_start calls ctl s =
     (case CreatePoller (rc_linux calls) (rc_epoll calls) (pollerBackend (s_reactorOptions s)) of
        Inl e \<Rightarrow> (Inl e, s)
      | Inr p \<Rightarrow>
          bind_served (open_listener calls (s\<lparr>s_poller := Some p\<rparr>)) (\<lambda>_ s.
          bind_served (main_poller_add ctl (s_listenFd s) s) (\<lambda>_ s.
          bind_served (main_poller_add ctl (wk_readFd (s_stopWakeup s)) s) (\<lambda>_ s.
          bind_served (create_reactors calls [0..<subReactorCount (s_reactorOptions s)] s) (\<lambda>_ s.
          bind_served (start_reactors calls ctl [0..<length (s_subReactors s)] s) (\<lambda>_ s.
          StartSweeperThread (rc_sweeper calls) (s\<lparr>s_state := Running\<rparr>)))))))"

section \<open>The main loop\<close>

text \<open>What happens around one round: the calls of \<open>Stop\<close> by other threads and the progress of the
  threads of the reactors up to the return of \<open>Wait\<close>, then what the calls of the round return; the
  clock is read once for each of its uses.\<close>

record main_input =
  mi_stops :: "nat sysret list list"
  mi_reactors :: "nat \<Rightarrow> SubReactor \<Rightarrow> SubReactor"
  mi_ready :: "ReadyEvent list"
  mi_reads :: "nat sysret list"
  mi_begin_now :: time_point
  mi_begin_writes :: "nat sysret list list"
  mi_fcntl :: fcntl_oracle
  mi_accepts :: "int sysret list"
  mi_accept_writes :: "int \<Rightarrow> nat sysret list"
  mi_check_now :: time_point
  mi_check_writes :: "nat sysret list list"

fun stop_calls :: "nat sysret list list \<Rightarrow> TcpServer \<Rightarrow> TcpServer option" where
  "stop_calls [] s = Some s"
| "stop_calls (writes # rest) s = Option.bind (TcpServer_Stop writes s) (stop_calls rest)"

text \<open>The loop over the ready descriptors: the listening one is accepted from while the server runs.  A
  poller reports a descriptor at most once, so that one list of returns of \<open>accept\<close> is enough.\<close>

fun listen_events :: "main_input \<Rightarrow> ReadyEvent list \<Rightarrow> TcpServer \<Rightarrow> unit served" where
  "listen_events inp [] s = (Inr (), s)"
| "listen_events inp (rEvent # rest) s =
     (if ready_fd rEvent = wk_readFd (s_stopWakeup s) then listen_events inp rest s
      else if ScopedFd_Valid (s_listenFd s) \<and> ready_fd rEvent = s_listenFd s \<and>
              s_state s = Running \<and> HasIoEvent (ready_events rEvent) IoEvent_Read then
        bind_served (AcceptNewClients (mi_fcntl inp) (mi_accept_writes inp) (mi_accepts inp) s) (\<lambda>_ s.
          listen_events inp rest s)
      else listen_events inp rest s)"

text \<open>Whether the round sees a stop: the flag, or a byte in the channel, which is drained.\<close>

definition stop_event :: "main_input \<Rightarrow> TcpServer \<Rightarrow> bool served" where
  "stop_event inp s =
     (let stopEventReceived = s_stopRequested s
      in if list_ex (\<lambda>rEvent. ready_fd rEvent = wk_readFd (s_stopWakeup s)) (mi_ready inp)
         then case Drain (mi_reads inp) (s_stopWakeup s) of
                None \<Rightarrow> (Inl StillBlocked, s)
              | Some (Inl e, w) \<Rightarrow> (Inl e, s\<lparr>s_stopWakeup := w\<rparr>)
              | Some (Inr _, w) \<Rightarrow> (Inr True, s\<lparr>s_stopWakeup := w\<rparr>)
         else (Inr stopEventReceived, s))"

text \<open>One round, from the return of \<open>Wait\<close>.\<close>

definition main_round :: "ctl_oracle \<Rightarrow> main_input \<Rightarrow> TcpServer \<Rightarrow> unit served" where
  "main_round ctl inp s =
     bind_served (stop_event inp s) (\<lambda>stopEventReceived s.
     bind_served
       (if stopEventReceived then Server_BeginGracefulShutdown ctl (mi_begin_writes inp) (mi_begin_now inp) s
        else (Inr (), s)) (\<lambda>_ s.
     bind_served (CheckSubReactorHealth ctl (mi_begin_writes inp) (mi_begin_now inp) s) (\<lambda>_ s.
     bind_served (listen_events inp (mi_ready inp) s) (\<lambda>_ s.
     Server_CheckShutdownProgress (mi_check_writes inp) (mi_check_now inp) s))))"

text \<open>The rounds until the server is stopped; \<open>StillBlocked\<close> when the inputs are used up before.\<close>

fun main_loop :: "ctl_oracle \<Rightarrow> main_input list \<Rightarrow> TcpServer \<Rightarrow> unit served" where
  "main_loop ctl inps s =
     (if s_state s = Stopped then (Inr (), s)
      else
        case inps of
          [] \<Rightarrow> (Inl StillBlocked, s)
        | inp # rest \<Rightarrow>
            case stop_calls (mi_stops inp) s of
              None \<Rightarrow> (Inl StillBlocked, s)
            | Some s \<Rightarrow>
                bind_served (main_round ctl inp (reactors_progress (mi_reactors inp) s)) (\<lambda>_ s. main_loop ctl rest s))"

declare main_loop.simps [simp del]

text \<open>\<open>Run\<close>: the start, the loop, and the end or the handler.\<close>

definition run_finish :: "ctl_oracle \<Rightarrow> TcpServer \<Rightarrow> TcpServer" where
  "run_finish ctl s = (CleanupMainReactor ctl s)\<lparr>s_state := Stopped\<rparr>"

definition TcpServer_Run ::
  "run_calls \<Rightarrow> ctl_oracle \<Rightarrow> main_input list \<Rightarrow> nat sysret list list \<Rightarrow> (nat \<Rightarrow> SubReactor \<Rightarrow> SubReactor) \<Rightarrow>
   TcpServer \<Rightarrow> unit served" where
  "TcpServer_Run calls ctl inps writes joined s =
     (if s_state s \<noteq> Created then (Inl (LogicError ''TcpServer can only run once!''), s)
      else
        case bind_served (run_start calls ctl s) (\<lambda>_ s. main_loop ctl inps s) of
          (Inl e, s) \<Rightarrow>
            if is_std_exception e then
              let s = StopSweeperThread s
              in case ForceStopAndJoinSubReactors writes joined s of
                   None \<Rightarrow> (Inl StillBlocked, s)
                 | Some s \<Rightarrow> (Inl e, run_finish ctl s)
            else (Inl e, s)
        | (Inr _, s) \<Rightarrow>
            let s = StopSweeperThread s;
                s = JoinSubReactors joined s
            in (Inr (), run_finish ctl s))"

section \<open>The sweeper\<close>

text \<open>What the sweeper does each time its wait times out: sweeps of up to 1024 records until no expired
  one is left or a stop is requested.  The clock and the stop flag are read once per sweep; \<open>None\<close> when
  the readings are used up.\<close>

definition SWEEP_RECORDS :: nat where "SWEEP_RECORDS = 1024"

fun sweep_pass ::
  "(time_point \<times> bool) list \<Rightarrow> KVStore \<Rightarrow> ServerMetrics \<Rightarrow> (KVStore \<times> ServerMetrics) result option" where
  "sweep_pass [] store metrics = None"
| "sweep_pass ((now, stopRequested) # readings) store metrics =
     (case KVStore_SweepExpired store SWEEP_RECORDS now of
        Inl e \<Rightarrow> Some (Inl e)
      | Inr (result, store) \<Rightarrow>
          let metrics = OnSweeperRun (sw_removed result) metrics
          in if sw_hasMoreExpired result \<and> \<not> stopRequested then sweep_pass readings store metrics
             else Some (Inr (store, metrics)))"

text \<open>The thread: each wait returns whether the sweeper was stopped; \<open>None\<close> while it still waits.\<close>

fun SweeperLoop ::
  "(bool \<times> (time_point \<times> bool) list) list \<Rightarrow> KVStore \<Rightarrow> ServerMetrics \<Rightarrow> (KVStore \<times> ServerMetrics) result option" where
  "SweeperLoop [] store metrics = None"
| "SweeperLoop ((shouldStop, readings) # waits) store metrics =
     (if shouldStop then Some (Inr (store, metrics))
      else
        case sweep_pass readings store metrics of
          None \<Rightarrow> None
        | Some (Inl e) \<Rightarrow> Some (Inl e)
        | Some (Inr (store, metrics)) \<Rightarrow> SweeperLoop waits store metrics)"

end
