(* ===== verification/Server_Ledger.thy ===== *)
theory Server_Ledger
  imports Tcp_Server Reactor_Invariants
begin

text \<open>
  The ledger of the main reactor: the listening socket and every accepted client are at each moment
  open in the server, with one of its reactors, or closed once; whatever is thrown.
\<close>

section \<open>What a step keeps unless it blocks\<close>

text \<open>\<open>P\<close> holds of the state in which an operation returns or throws.\<close>

definition ends_in :: "(TcpServer \<Rightarrow> bool) \<Rightarrow> 'a served \<Rightarrow> bool" where
  "ends_in P m \<longleftrightarrow> (case m of (Inl e, s) \<Rightarrow> is_std_exception e \<longrightarrow> P s | (Inr a, s) \<Rightarrow> P s)"

lemma ends_in_simps [simp]:
  "ends_in P (Inr a, s) = P s"
  "ends_in P (Inl e, s) \<longleftrightarrow> (is_std_exception e \<longrightarrow> P s)"
  by (simp_all add: ends_in_def)

lemma ends_in_any: "P s \<Longrightarrow> ends_in P (m, s)"
  by (cases m) simp_all

lemma ends_in_bind:
  "ends_in P m \<Longrightarrow> (\<And>a s. m = (Inr a, s) \<Longrightarrow> P s \<Longrightarrow> ends_in P (f a s)) \<Longrightarrow> ends_in P (bind_served m f)"
  by (cases m; cases "fst m") auto

section \<open>Threads\<close>

text \<open>What a thread of a reactor does keeps the descriptors the reactor owns; the event loop does so.\<close>

definition threads_keep :: "(nat \<Rightarrow> SubReactor \<Rightarrow> SubReactor) \<Rightarrow> bool" where
  "threads_keep threads \<longleftrightarrow>
     (\<forall>i r. reactor_wf r \<longrightarrow> reactor_wf (threads i r) \<and> owned_fds (threads i r) = owned_fds r)"

lemma loop_wait_owned:
  "loop_wait inp r = (res, r') \<Longrightarrow> (reactor_wf r' \<longleftrightarrow> reactor_wf r) \<and> owned_fds r' = owned_fds r"
  by (auto simp: loop_wait_def reactor_wf_def owned_fds_def Let_def
      split: option.splits sum.splits prod.splits if_splits)

lemma loop_guard_owned:
  assumes "reactor_wf (snd m)" "owned_fds (snd m) = fds"
  shows "reactor_wf (snd (loop_guard m)) \<and> owned_fds (snd (loop_guard m)) = fds"
proof -
  obtain a r where m: "m = (a, r)" by fastforce
  with assms loop_failed_keeps [of r] show ?thesis
    by (cases a) (auto simp: loop_guard_def keeps_def)
qed

lemma loop_control_keeps:
  assumes "reactor_wf r" "loop_control ctl opts evs r = (res, r')"
  shows "reactor_wf r' \<and> owned_fds r' = owned_fds r"
  using assms Process_keeps [of r ctl opts res r'] by (auto simp: loop_control_def keeps_def split: if_splits)

lemma loop_round_owned:
  assumes "reactor_wf r"
  shows "reactor_wf (snd (loop_round h ctl opts inp r)) \<and> owned_fds (snd (loop_round h ctl opts inp r)) = owned_fds r"
  unfolding loop_round_def
proof (rule loop_guard_owned)
  let ?m = "bind_reacted (loop_wait inp r) (\<lambda>readyEvents r.
       bind_reacted (loop_control ctl opts readyEvents r) (\<lambda>_ r. loop_clients h ctl opts inp readyEvents r))"
  have "reactor_wf (snd ?m) \<and> owned_fds (snd ?m) = owned_fds r"
  proof -
    obtain a r1 where w: "loop_wait inp r = (a, r1)" by fastforce
    note r1 = loop_wait_owned [OF w]
    show ?thesis
    proof (cases a)
      case (Inr evs)
      obtain b r2 where c: "loop_control ctl opts evs r1 = (b, r2)" by fastforce
      have r2: "reactor_wf r2" "owned_fds r2 = owned_fds r"
        using loop_control_keeps [OF _ c] r1 assms by simp_all
      obtain d r3 where l: "loop_clients h ctl opts inp evs r2 = (d, r3)" by fastforce
      have "keeps r2 r3" using loop_clients_keeps [OF r2(1) l] .
      with r2 show ?thesis by (cases b) (simp_all add: w Inr c l keeps_def)
    qed (simp add: w r1 assms)
  qed
  then show "reactor_wf (snd ?m)" "owned_fds (snd ?m) = owned_fds r" by simp_all
qed

lemma EventLoop_owned:
  "reactor_wf r \<Longrightarrow> reactor_wf (EventLoop h ctl opts inps r) \<and> owned_fds (EventLoop h ctl opts inps r) = owned_fds r"
proof (induction inps arbitrary: r)
  case (Cons inp inps)
  obtain a r1 where l: "loop_round h ctl opts inp r = (a, r1)" by fastforce
  have "reactor_wf r1 \<and> owned_fds r1 = owned_fds r" using loop_round_owned [OF Cons.prems, of h ctl opts inp] by (simp add: l)
  with Cons show ?case by (cases a) (simp_all add: l)
qed simp

lemma EventLoop_threads_keep: "threads_keep (\<lambda>i. EventLoop h ctl opts (inps i))"
  by (simp add: threads_keep_def EventLoop_owned)

section \<open>The ledger\<close>

definition server_fds :: "TcpServer \<Rightarrow> int multiset" where
  "server_fds s = real_fds [s_listenFd s] + mset (s_closedFds s) + sum_list (map owned_fds (s_subReactors s))"

definition server_ledger :: "TcpServer \<Rightarrow> bool" where
  "server_ledger s \<longleftrightarrow> mset (s_openedFds s) = server_fds s \<and> list_all reactor_wf (s_subReactors s)"

text \<open>The next reactor exists once the server runs.\<close>

definition server_inv :: "TcpServer \<Rightarrow> bool" where
  "server_inv s \<longleftrightarrow> server_ledger s \<and> 1 \<le> subReactorCount (s_reactorOptions s) \<and>
     (s_nextSubReactorIndex s < length (s_subReactors s) \<or> s_nextSubReactorIndex s = 0) \<and>
     (s_state s = Running \<longrightarrow> s_subReactors s \<noteq> [])"

lemmas server_inv_defs = server_inv_def server_ledger_def server_fds_def

lemma sum_list_put:
  fixes f :: "'a \<Rightarrow> int multiset"
  assumes "i < length xs" "f x = f (xs ! i) + a"
  shows "sum_list (map f (xs[i := x])) = sum_list (map f xs) + a"
  using assms
proof (induction xs arbitrary: i)
  case (Cons y ys)
  then show ?case by (cases i) auto
qed simp

lemma EnqueClient_owned:
  assumes "EnqueClient writes fd r = Some (taken, r')" "0 \<le> fd" "reactor_wf r"
  shows "reactor_wf r' \<and> owned_fds r' = owned_fds r + {#fd#}"
  using assms
  by (auto simp: EnqueClient_def EnqueClient_locked_def notify_control_def ScopedFd_defs reactor_wf_def owned_fds_def
      split: if_splits)

lemma ledger_put:
  assumes "list_all reactor_wf (s_subReactors s)" "mset (s_openedFds s) = server_fds s + a"
    and "i < length (s_subReactors s)" "reactor_wf r" "owned_fds r = owned_fds (s_subReactors s ! i) + a"
  shows "server_ledger (s\<lparr>s_subReactors := (s_subReactors s)[i := r]\<rparr>)"
proof -
  have "list_all reactor_wf ((s_subReactors s)[i := r])"
    using assms(1,3,4) by (auto simp: list_all_length nth_list_update)
  with assms(2) sum_list_put [of i "s_subReactors s" owned_fds r a, OF assms(3,5)] show ?thesis
    by (simp add: server_ledger_def server_fds_def)
qed

section \<open>Each operation\<close>

lemma hand_over_inv:
  assumes "server_inv s" "0 \<le> fd" "s_subReactors s \<noteq> []"
  shows "ends_in (\<lambda>s'. server_inv s' \<and> s_subReactors s' \<noteq> [])
    (hand_over fcntl writes fd (s\<lparr>s_openedFds := s_openedFds s @ [fd]\<rparr>))"
proof -
  let ?s = "s\<lparr>s_openedFds := s_openedFds s @ [fd]\<rparr>" and ?i = "s_nextSubReactorIndex s"
  have i: "?i < length (s_subReactors s)" using assms(1,3) by (auto simp: server_inv_def)
  show ?thesis
  proof (cases "bind_result (SetNonBlocking fcntl fd (s_flags ?s)) (SetCloseOnExec fcntl fd)")
    case (Inl e)
    then show ?thesis using assms by (simp add: hand_over_def server_inv_defs ScopedFd_defs)
  next
    case (Inr flags)
    let ?t = "?s\<lparr>s_flags := flags, s_nextSubReactorIndex := (?i + 1) mod length (s_subReactors s)\<rparr>"
    show ?thesis
    proof (cases "EnqueClient (writes fd) fd (s_subReactors s ! ?i)")
      case None
      with Inr show ?thesis by (simp add: hand_over_def Let_def)
    next
      case (Some p)
      obtain taken r where p: "p = (taken, r)" by fastforce
      have "reactor_wf (s_subReactors s ! ?i)" using assms(1) i by (simp add: server_inv_defs list_all_length)
      note r = EnqueClient_owned [OF Some [unfolded p] assms(2) this]
      have "server_ledger (?t\<lparr>s_subReactors := (s_subReactors ?t)[?i := r]\<rparr>)"
        by (rule ledger_put [where a = "{#fd#}"]) (use assms(1) i r in \<open>simp_all add: server_inv_defs\<close>)
      with Inr Some p assms(1,3) show ?thesis
        by (simp add: hand_over_def Let_def server_inv_def)
    qed
  qed
qed

lemma accept_loop_inv:
  assumes "server_inv s" "s_subReactors s \<noteq> []" "\<forall>fd. Ret fd \<in> set accepts \<longrightarrow> 0 \<le> fd"
  shows "ends_in server_inv (accept_loop fcntl writes accepts n s)"
  using assms
proof (induction accepts arbitrary: n s)
  case (Cons a accepts)
  show ?case
  proof (cases a)
    case (Ret fd)
    note h = hand_over_inv [OF Cons.prems(1) _ Cons.prems(2), of fd fcntl writes]
    have "ends_in server_inv (bind_served (hand_over fcntl writes fd (s\<lparr>s_openedFds := s_openedFds s @ [fd]\<rparr>))
        (\<lambda>_ s. accept_loop fcntl writes accepts (n + 1) s))"
    proof (rule ends_in_bind)
      show "ends_in server_inv (hand_over fcntl writes fd (s\<lparr>s_openedFds := s_openedFds s @ [fd]\<rparr>))"
        using h Cons.prems(3) Ret by (auto simp: ends_in_def split: prod.splits sum.splits)
    next
      fix u t
      assume t: "hand_over fcntl writes fd (s\<lparr>s_openedFds := s_openedFds s @ [fd]\<rparr>) = (Inr u, t)" "server_inv t"
      then have "s_subReactors t \<noteq> []" using h Cons.prems(3) Ret by simp
      with t(2) Cons show "ends_in server_inv (accept_loop fcntl writes accepts (n + 1) t)" by simp
    qed
    with Ret Cons.prems(1) show ?thesis by (simp add: accept_loop.simps [of fcntl writes "Ret fd # accepts"] Let_def)
  next
    case (Fail e)
    with Cons show ?thesis by (simp add: accept_loop.simps [of fcntl writes "Fail e # accepts"])
  qed
qed (simp add: accept_loop.simps)

text \<open>The control methods of a reactor leave its descriptors alone.\<close>

lemma Stop_owned: "Stop writes deadline r = Some r' \<Longrightarrow> reactor_wf r \<Longrightarrow> reactor_wf r' \<and> owned_fds r' = owned_fds r"
  by (auto simp: Stop_def Stop_locked_def notify_control_def reactor_wf_def owned_fds_def Let_def split: if_splits)

lemma ForceStop_owned: "ForceStop writes r = Some r' \<Longrightarrow> reactor_wf r \<Longrightarrow> reactor_wf r' \<and> owned_fds r' = owned_fds r"
  by (auto simp: ForceStop_def ForceStop_locked_def notify_control_def reactor_wf_def owned_fds_def)

definition called_on ::
  "(SubReactor \<Rightarrow> bool) \<Rightarrow> (nat sysret list \<Rightarrow> SubReactor \<Rightarrow> SubReactor option) \<Rightarrow> SubReactor \<Rightarrow> SubReactor \<Rightarrow> bool" where
  "called_on wanted method r r' \<longleftrightarrow> (if wanted r then \<exists>w. method w r = Some r' else r' = r)"

lemma called_on_simps [simp]:
  "wanted r \<Longrightarrow> called_on wanted method r r' \<longleftrightarrow> (\<exists>w. method w r = Some r')"
  "\<not> wanted r \<Longrightarrow> called_on wanted method r r' \<longleftrightarrow> r' = r"
  by (simp_all add: called_on_def)

lemma on_reactors_all2:
  "on_reactors wanted method writes rs = Some rs' \<Longrightarrow> list_all2 (called_on wanted method) rs rs'"
proof (induction rs arbitrary: writes rs')
  case (Cons r rs)
  then show ?case by (auto split: if_splits list.splits option.splits)
qed simp

lemma all2_owned:
  assumes "list_all2 (\<lambda>r r'. reactor_wf r \<longrightarrow> reactor_wf r' \<and> owned_fds r' = owned_fds r) rs rs'" "list_all reactor_wf rs"
  shows "list_all reactor_wf rs' \<and> sum_list (map owned_fds rs') = sum_list (map owned_fds rs) \<and> length rs' = length rs"
  using assms by (induction rule: list_all2_induct) auto

lemma on_reactors_owned:
  assumes "on_reactors wanted method writes rs = Some rs'" "list_all reactor_wf rs"
    and "\<And>w r r'. method w r = Some r' \<Longrightarrow> reactor_wf r \<Longrightarrow> reactor_wf r' \<and> owned_fds r' = owned_fds r"
  shows "list_all reactor_wf rs' \<and> sum_list (map owned_fds rs') = sum_list (map owned_fds rs) \<and> length rs' = length rs"
proof (rule all2_owned [OF list_all2_mono assms(2)])
  show "list_all2 (called_on wanted method) rs rs'" by (rule on_reactors_all2 [OF assms(1)])
qed (use assms(3) in \<open>auto simp: called_on_def split: if_splits\<close>)

text \<open>Replacing the reactors by ones that own the same.\<close>

lemma inv_reactors:
  assumes "server_inv s" "list_all reactor_wf rs" "sum_list (map owned_fds rs) = sum_list (map owned_fds (s_subReactors s))"
    and "length rs = length (s_subReactors s)"
  shows "server_inv (s\<lparr>s_subReactors := rs\<rparr>)"
  using assms by (auto simp: server_inv_defs)

lemma inv_irrelevant [simp]:
  "server_inv (s\<lparr>s_poller := p\<rparr>) = server_inv s"
  "server_inv (s\<lparr>s_stopWakeup := w\<rparr>) = server_inv s"
  "server_inv (s\<lparr>s_stopRequested := b\<rparr>) = server_inv s"
  "server_inv (s\<lparr>s_shutdownDeadline := t\<rparr>) = server_inv s"
  "server_inv (s\<lparr>s_forceStopSent := b\<rparr>) = server_inv s"
  "server_inv (s\<lparr>s_sweeperRunning := b\<rparr>) = server_inv s"
  "server_inv (s\<lparr>s_flags := k\<rparr>) = server_inv s"
  by (simp_all add: server_inv_defs)

lemma inv_state: "server_inv s \<Longrightarrow> state \<noteq> Running \<Longrightarrow> server_inv (s\<lparr>s_state := state\<rparr>)"
  by (simp add: server_inv_defs)

lemma Reset_invalid: "ScopedFd_Reset INVALID_FD fd fds = (INVALID_FD, if 0 \<le> fd then fds @ [fd] else fds)"
  by (simp add: ScopedFd_defs)

lemma invalid_negative [simp]: "\<not> 0 \<le> INVALID_FD" by (simp add: INVALID_FD_def)

lemma inv_close_listener:
  "server_inv s \<Longrightarrow> ScopedFd_Reset INVALID_FD (s_listenFd s) (s_closedFds s) = (fd, fds) \<Longrightarrow>
   server_inv (s\<lparr>s_listenFd := fd, s_closedFds := fds\<rparr>)"
  by (auto simp: server_inv_defs Reset_invalid split: if_splits)

lemma drop_listener_inv: "server_inv s \<Longrightarrow> ends_in server_inv (drop_listener ctl s)"
  using inv_close_listener [of "s\<lparr>s_poller := p\<rparr>" for p]
  by (auto simp: drop_listener_def Let_def split: prod.splits option.splits)

lemma on_reactors_inv:
  assumes "server_inv s" "on_reactors wanted method writes (s_subReactors s) = Some rs"
    and "\<And>w r r'. method w r = Some r' \<Longrightarrow> reactor_wf r \<Longrightarrow> reactor_wf r' \<and> owned_fds r' = owned_fds r"
  shows "server_inv (s\<lparr>s_subReactors := rs\<rparr>)"
proof -
  have wf: "list_all reactor_wf (s_subReactors s)" using assms(1) by (simp add: server_inv_def server_ledger_def)
  have "list_all reactor_wf rs \<and> sum_list (map owned_fds rs) = sum_list (map owned_fds (s_subReactors s)) \<and>
      length rs = length (s_subReactors s)"
    by (rule on_reactors_owned [OF assms(2) wf]) (rule assms(3))
  then show ?thesis by (intro inv_reactors [OF assms(1)]) blast+
qed

lemma stop_reactors_inv: "server_inv s \<Longrightarrow> ends_in server_inv (stop_reactors writes s)"
  by (auto simp: stop_reactors_def split: option.splits elim!: on_reactors_inv dest: Stop_owned)

lemma BeginGraceful_inv:
  assumes "server_inv s"
  shows "ends_in server_inv (Server_BeginGracefulShutdown ctl writes now s)"
  unfolding Server_BeginGracefulShutdown_def Let_def
  using assms by (auto intro!: ends_in_bind drop_listener_inv stop_reactors_inv inv_state)

lemma CheckProgress_inv:
  "server_inv s \<Longrightarrow> ends_in server_inv (Server_CheckShutdownProgress writes now s)"
  by (auto simp: Server_CheckShutdownProgress_def Let_def inv_state split: option.splits
      elim!: on_reactors_inv dest: ForceStop_owned)

section \<open>The main loop\<close>

lemma progress_inv:
  assumes "server_inv s" "threads_keep threads"
  shows "server_inv (reactors_progress threads s)"
proof -
  let ?rs = "map (\<lambda>(i, r). threads i r) (zip [0..<length (s_subReactors s)] (s_subReactors s))"
  have "list_all reactor_wf (s_subReactors s)" using assms(1) by (simp add: server_inv_def server_ledger_def)
  moreover from this assms(2) have
    "list_all2 (\<lambda>r r'. reactor_wf r \<longrightarrow> reactor_wf r' \<and> owned_fds r' = owned_fds r) (s_subReactors s) ?rs"
    by (auto simp: list_all2_conv_all_nth threads_keep_def)
  ultimately show ?thesis unfolding reactors_progress_def
    by (intro inv_reactors [OF assms(1)]) (use all2_owned in blast)+
qed

lemma stop_calls_inv: "stop_calls writes s = Some t \<Longrightarrow> server_inv s \<Longrightarrow> server_inv t"
proof (induction writes arbitrary: s)
  case (Cons w ws)
  then obtain u where u: "TcpServer_Stop w s = Some u" "stop_calls ws u = Some t" by (auto simp: bind_eq_Some_conv)
  then have "server_inv u" using Cons.prems(2) by (auto simp: TcpServer_Stop_def)
  with Cons.IH u(2) show ?case by blast
qed simp

lemma stop_event_inv: "server_inv s \<Longrightarrow> ends_in server_inv (stop_event inp s)"
  by (auto simp: stop_event_def Let_def split: option.splits sum.splits)

definition accepts_ok :: "main_input \<Rightarrow> bool" where
  "accepts_ok inp \<longleftrightarrow> (\<forall>fd. Ret fd \<in> set (mi_accepts inp) \<longrightarrow> 0 \<le> fd)"

lemma listen_events_inv:
  assumes "server_inv s" "accepts_ok inp"
  shows "ends_in server_inv (listen_events inp evs s)"
  using assms(1)
proof (induction evs arbitrary: s)
  case (Cons ev evs)
  have accept: "ends_in server_inv (AcceptNewClients (mi_fcntl inp) (mi_accept_writes inp) (mi_accepts inp) s)"
    if "s_state s = Running"
    using accept_loop_inv [OF Cons.prems] that Cons.prems assms(2) by (simp add: AcceptNewClients_def accepts_ok_def server_inv_def)
  show ?case using Cons by (auto intro!: ends_in_bind accept)
qed simp

lemma main_round_inv:
  assumes "server_inv s" "accepts_ok inp"
  shows "ends_in server_inv (main_round ctl inp s)"
  unfolding main_round_def CheckSubReactorHealth_def using assms
  by (auto intro!: ends_in_bind stop_event_inv BeginGraceful_inv listen_events_inv CheckProgress_inv)

definition input_ok :: "main_input \<Rightarrow> bool" where
  "input_ok inp \<longleftrightarrow> accepts_ok inp \<and> threads_keep (mi_reactors inp)"

lemma main_loop_inv:
  assumes "server_inv s" "list_all input_ok inps"
  shows "ends_in server_inv (main_loop ctl inps s)"
  using assms
proof (induction inps arbitrary: s)
  case (Cons inp inps)
  have "ends_in server_inv (bind_served (main_round ctl inp (reactors_progress (mi_reactors inp) t)) (\<lambda>_ s. main_loop ctl inps s))"
    if "stop_calls (mi_stops inp) s = Some t" for t
    using Cons stop_calls_inv [OF that] by (auto intro!: ends_in_bind main_round_inv progress_inv simp: input_ok_def)
  then show ?case using Cons.prems(1) by (simp add: main_loop.simps [of ctl "inp # inps"] split: option.splits)
qed (simp add: main_loop.simps)

section \<open>Starting and ending\<close>

lemma Start_owned:
  "Start linux created ctl thread backend r = (res, r') \<Longrightarrow> reactor_wf r \<Longrightarrow> reactor_wf r' \<and> owned_fds r' = owned_fds r"
  by (auto simp: Start_def PublishState_def reactor_wf_def owned_fds_def Let_def
      split: sum.splits prod.splits option.splits if_splits)

definition socket_ok :: "run_calls \<Rightarrow> bool" where
  "socket_ok calls \<longleftrightarrow> (\<forall>fd. sc_socket (rc_socket calls) = Ret fd \<longrightarrow> 0 \<le> fd)"

lemma open_listener_inv:
  assumes "server_inv s" "s_listenFd s = INVALID_FD" "socket_ok calls"
  shows "ends_in server_inv (open_listener calls s)"
proof -
  obtain r fds where r: "CreateListenSocket (rc_inet_pton calls) (rc_socket calls) (s_host s) (s_port s) LISTEN_BACKLOG = (r, fds)"
    by fastforce
  have "case r of Inr k \<Rightarrow> sc_socket (rc_socket calls) = Ret (sock_fd k) | Inl e \<Rightarrow> True"
    using listen_socket_cases [OF r] assms(3) by (auto simp: socket_ok_def split: sum.splits)
  with r assms show ?thesis
    by (auto simp: open_listener_def server_inv_defs socket_ok_def Let_def split: sum.splits)
qed

lemma main_poller_add_inv: "server_inv s \<Longrightarrow> ends_in server_inv (main_poller_add ctl fd s)"
  by (auto simp: main_poller_add_def Let_def split: prod.splits option.splits)

lemma inv_new_reactor:
  "server_inv s \<Longrightarrow> s_nextSubReactorIndex s = 0 \<Longrightarrow>
   server_inv (s\<lparr>s_flags := k, s_subReactors := s_subReactors s @ [SubReactor_init i wakeup store metrics]\<rparr>)"
  by (simp add: server_inv_defs SubReactor_init_def owned_fds_def reactor_wf_def um_ok_def)

lemma create_reactors_inv:
  "server_inv s \<Longrightarrow> s_nextSubReactorIndex s = 0 \<Longrightarrow> ends_in server_inv (create_reactors calls is s)"
proof (induction "is" arbitrary: s)
  case (Cons i js)
  show ?case using Cons
    by (auto split: prod.splits sum.splits intro!: Cons.IH inv_new_reactor)
qed simp

lemma create_reactors_length:
  "create_reactors calls is s = (Inr u, t) \<Longrightarrow> length (s_subReactors t) = length (s_subReactors s) + length is"
  by (induction "is" arbitrary: s) (auto split: prod.splits sum.splits)

lemma start_reactors_inv:
  "server_inv s \<Longrightarrow> \<forall>i \<in> set is. i < length (s_subReactors s) \<Longrightarrow> ends_in server_inv (start_reactors calls ctl is s)"
proof (induction "is" arbitrary: s)
  case (Cons i js)
  obtain a r where a: "Start (rc_linux calls) (rc_created calls i) ctl (rc_thread calls i)
      (pollerBackend (s_reactorOptions s)) (s_subReactors s ! i) = (a, r)" by fastforce
  have i: "i < length (s_subReactors s)" "reactor_wf (s_subReactors s ! i)"
    using Cons.prems by (simp_all add: server_inv_def server_ledger_def list_all_length)
  have "server_ledger (s\<lparr>s_subReactors := (s_subReactors s)[i := r]\<rparr>)"
    by (rule ledger_put [where a = "{#}"])
      (use Cons.prems(1) i Start_owned [OF a i(2)] in \<open>simp_all add: server_inv_def server_ledger_def\<close>)
  then have "server_inv (s\<lparr>s_subReactors := (s_subReactors s)[i := r]\<rparr>)" using Cons.prems(1) by (auto simp: server_inv_def)
  then show ?case using Cons.IH Cons.prems(2) by (auto simp: a intro!: ends_in_bind ends_in_any)
qed simp

lemma start_reactors_length:
  "start_reactors calls ctl is s = (Inr u, t) \<Longrightarrow> length (s_subReactors t) = length (s_subReactors s)"
proof (induction "is" arbitrary: s)
  case (Cons i js)
  obtain a r where "Start (rc_linux calls) (rc_created calls i) ctl (rc_thread calls i)
      (pollerBackend (s_reactorOptions s)) (s_subReactors s ! i) = (a, r)" by fastforce
  with Cons show ?case by (cases a) auto
qed simp

lemma index_kept:
  "open_listener calls s = (Inr u, t) \<Longrightarrow>
     s_nextSubReactorIndex t = s_nextSubReactorIndex s \<and> s_reactorOptions t = s_reactorOptions s"
  "main_poller_add ctl fd s = (Inr u, t) \<Longrightarrow>
     s_nextSubReactorIndex t = s_nextSubReactorIndex s \<and> s_reactorOptions t = s_reactorOptions s"
  by (auto simp: open_listener_def main_poller_add_def Let_def split: sum.splits prod.splits option.splits)

lemma inv_running: "server_inv s \<Longrightarrow> s_subReactors s \<noteq> [] \<Longrightarrow> server_inv (s\<lparr>s_state := Running\<rparr>)"
  by (simp add: server_inv_defs)

lemma run_start_inv:
  assumes "server_inv s" "s_listenFd s = INVALID_FD" "s_nextSubReactorIndex s = 0" "socket_ok calls"
  shows "ends_in server_inv (run_start calls ctl s)"
proof (cases "CreatePoller (rc_linux calls) (rc_epoll calls) (pollerBackend (s_reactorOptions s))")
  case (Inr p)
  have start: "ends_in server_inv (StartSweeperThread sw t)" if "server_inv t" for sw t
    using that by (auto simp: StartSweeperThread_def Let_def split: option.splits)
  have threads: "ends_in server_inv (bind_served (start_reactors calls ctl [0..<length (s_subReactors t)] t) (\<lambda>_ s.
      StartSweeperThread (rc_sweeper calls) (s\<lparr>s_state := Running\<rparr>)))"
    if "server_inv t" "s_subReactors t \<noteq> []" for t
    using that start_reactors_length [of calls ctl _ t]
    by (intro ends_in_bind start_reactors_inv start inv_running) (auto simp flip: length_greater_0_conv)
  have reactors: "ends_in server_inv (bind_served (create_reactors calls [0..<subReactorCount (s_reactorOptions t)] t) (\<lambda>_ s.
      bind_served (start_reactors calls ctl [0..<length (s_subReactors s)] s) (\<lambda>_ s.
      StartSweeperThread (rc_sweeper calls) (s\<lparr>s_state := Running\<rparr>))))"
    if t: "server_inv t" "s_nextSubReactorIndex t = 0" for t
  proof (rule ends_in_bind [OF create_reactors_inv [OF t] threads])
    fix u v
    assume "create_reactors calls [0..<subReactorCount (s_reactorOptions t)] t = (Inr u, v)"
    from create_reactors_length [OF this] t(1) show "s_subReactors v \<noteq> []" by (auto simp: server_inv_def)
  qed
  let ?s = "s\<lparr>s_poller := Some p\<rparr>"
  show ?thesis unfolding run_start_def Inr sum.case
  proof (rule ends_in_bind)
    show "ends_in server_inv (open_listener calls ?s)" using assms by (intro open_listener_inv) simp_all
    fix u t assume t: "open_listener calls ?s = (Inr u, t)" "server_inv t"
    show "ends_in server_inv (bind_served (main_poller_add ctl (s_listenFd t) t) (\<lambda>_ s.
        bind_served (main_poller_add ctl (wk_readFd (s_stopWakeup s)) s) (\<lambda>_ s.
        bind_served (create_reactors calls [0..<subReactorCount (s_reactorOptions s)] s) (\<lambda>_ s.
        bind_served (start_reactors calls ctl [0..<length (s_subReactors s)] s) (\<lambda>_ s.
        StartSweeperThread (rc_sweeper calls) (s\<lparr>s_state := Running\<rparr>))))))"
      using t index_kept(1) [OF t(1)] assms(3)
      by (auto intro!: ends_in_bind main_poller_add_inv reactors dest!: index_kept(2))
  qed
qed (use assms in \<open>simp add: run_start_def\<close>)

text \<open>The end of the server closes what is still open.\<close>

lemma mset_reactor_fds: "reactor_wf r \<Longrightarrow> mset (reactor_fds r) = owned_fds r"
proof -
  assume "reactor_wf r"
  then have "map (\<lambda>(fd, conn). conn_fd conn) (r_clients r) = map fst (r_clients r)" by (auto simp: reactor_wf_def)
  then show ?thesis unfolding reactor_fds_def owned_fds_def by (simp only: mset_append ac_simps)
qed

lemma mset_reactors_fds: "list_all reactor_wf rs \<Longrightarrow> mset (concat (map reactor_fds rs)) = sum_list (map owned_fds rs)"
  by (induction rs) (simp_all add: mset_reactor_fds)

lemma Cleanup_closes:
  assumes "server_inv s" "CleanupMainReactor ctl s = t"
  shows "s_listenFd t = INVALID_FD \<and> s_poller t = None \<and> s_subReactors t = [] \<and> s_sweeperRunning t = s_sweeperRunning s \<and>
    mset (s_closedFds t) = mset (s_openedFds t)"
proof -
  have "list_all reactor_wf (s_subReactors s)" "mset (s_openedFds s) = server_fds s"
    using assms(1) by (simp_all add: server_inv_def server_ledger_def)
  with mset_reactors_fds [of "s_subReactors s"] assms(2) show ?thesis
    by (auto simp: CleanupMainReactor_def Let_def Reset_invalid server_fds_def split: option.splits)
qed

end
