(* ===== verification/Server_Properties.thy ===== *)
theory Server_Properties
  imports Server_Ledger Reactor_Loop
begin

text \<open>
  Properties of the whole server: what \<open>Run\<close> leaves behind, how a stop spreads, how clients are
  distributed, and that the sweeper comes to an end.
\<close>

section \<open>Run\<close>

text \<open>However \<open>Run\<close> of a new server ends, with or without an exception, the server is
  stopped, nothing is left of its poller, reactors and sweeper, and every socket it opened, the
  listening one and each client it accepted, has been closed exactly once.  The threads of the reactors
  may do in between whatever keeps the descriptors they own.\<close>

theorem run_closes_all:
  assumes "TcpServer_init wakeup flags hostname portnumber interval nopts ropts sopts = Inr s0"
    and "socket_ok calls" "list_all input_ok inps" "threads_keep joined"
    and "TcpServer_Run calls ctl inps writes joined s0 = (res, s)"
    and "case res of Inl e \<Rightarrow> is_std_exception e | Inr u \<Rightarrow> True"
  shows "s_state s = Stopped \<and> s_listenFd s = INVALID_FD \<and> s_poller s = None \<and> s_subReactors s = [] \<and>
    \<not> s_sweeperRunning s \<and> mset (s_closedFds s) = mset (s_openedFds s)"
proof -
  have new: "s_state s0 = Created" "s_listenFd s0 = INVALID_FD" "s_nextSubReactorIndex s0 = 0" "server_inv s0"
    using assms(1) by (auto simp: TcpServer_init_def server_inv_defs split: if_splits)
  let ?m = "bind_served (run_start calls ctl s0) (\<lambda>_ s. main_loop ctl inps s)"
  obtain r t where t: "?m = (r, t)" by fastforce
  have ends: "ends_in server_inv ?m"
    by (rule ends_in_bind [OF run_start_inv [OF new(4,2,3) assms(2)]]) (rule main_loop_inv [OF _ assms(3)])
  obtain u where u: "server_inv u" "\<not> s_sweeperRunning u" "s = run_finish ctl u"
  proof (cases r)
    case (Inl e)
    then have e: "is_std_exception e" using assms(5,6) new(1) t by (auto simp: TcpServer_Run_def split: if_splits)
    with Inl ends t have inv: "server_inv (StopSweeperThread t)" by (simp add: StopSweeperThread_def)
    obtain rs where rs: "on_reactors (\<lambda>_. True) ForceStop writes (s_subReactors t) = Some rs"
      using assms(5,6) new(1) t Inl e
      by (cases "on_reactors (\<lambda>_. True) ForceStop writes (s_subReactors t)")
        (auto simp: TcpServer_Run_def ForceStopAndJoinSubReactors_def StopSweeperThread_def)
    let ?u = "reactors_progress joined ((StopSweeperThread t)\<lparr>s_subReactors := rs\<rparr>)"
    have "server_inv ((StopSweeperThread t)\<lparr>s_subReactors := rs\<rparr>)"
      by (rule on_reactors_inv [OF inv _ ForceStop_owned]) (use rs in \<open>simp_all add: StopSweeperThread_def\<close>)
    moreover have "s = run_finish ctl ?u" using assms(5) new(1) t Inl e rs
      by (simp add: TcpServer_Run_def ForceStopAndJoinSubReactors_def JoinSubReactors_def StopSweeperThread_def)
    ultimately show ?thesis
      by (intro that [of ?u] progress_inv assms(4)) (simp_all add: reactors_progress_def StopSweeperThread_def)
  next
    case (Inr x)
    let ?u = "reactors_progress joined (StopSweeperThread t)"
    have "server_inv (StopSweeperThread t)" using Inr ends t by (simp add: StopSweeperThread_def)
    moreover have "s = run_finish ctl ?u" using assms(5) new(1) t Inr by (simp add: TcpServer_Run_def JoinSubReactors_def)
    ultimately show ?thesis
      by (intro that [of ?u] progress_inv assms(4)) (simp_all add: reactors_progress_def StopSweeperThread_def)
  qed
  then show ?thesis using Cleanup_closes [OF u(1) refl, of ctl] by (simp add: run_finish_def)
qed

text \<open>A server that accepts the client 7 and then runs out of descriptors: \<open>accept\<close> fails with \<^verbatim>\<open>EMFILE\<close>.\<close>

definition demo_calls :: run_calls where
  "demo_calls = \<lparr>rc_linux = True, rc_epoll = Ret 9, rc_inet_pton = (\<lambda>_. Some 0),
     rc_socket = \<lparr>sc_socket = Ret 5, sc_setsockopt = None, sc_pton_errno = 0, sc_bind = None, sc_listen = None, sc_connect = None\<rparr>,
     rc_fcntl = (\<lambda>_ _. None), rc_pair = (\<lambda>_. Ret (20, 21)), rc_created = (\<lambda>_. Ret 9), rc_thread = (\<lambda>_. None), rc_sweeper = None\<rparr>"

definition demo_round :: main_input where
  "demo_round = \<lparr>mi_stops = [], mi_reactors = (\<lambda>i. EventLoop LittleEndian (\<lambda>_ _ _ _. None) NetworkOptions_default []),
     mi_ready = [\<lparr>ready_fd = 5, ready_events = IoEvent_Read\<rparr>], mi_reads = [], mi_begin_now = 0, mi_begin_writes = [],
     mi_fcntl = (\<lambda>_ _. None), mi_accepts = [Ret 7, Fail 24], mi_accept_writes = (\<lambda>_. [Ret 1]),
     mi_check_now = 0, mi_check_writes = []\<rparr>"

definition demo_server :: "TcpServer result" where
  "demo_server = TcpServer_init \<lparr>wk_readFd = 10, wk_writeFd = 11, wk_queue = 0\<rparr>
     \<lparr>status_flags = (\<lambda>_. 0), descriptor_flags = (\<lambda>_. 0)\<rparr> ''0.0.0.0'' 7777 0 NetworkOptions_default
     \<lparr>pollerBackend = Poll, subReactorCount = 1\<rparr> \<lparr>gracefulTimeout = 3000\<rparr>"

definition demo_end :: "unit served" where
  "demo_end = TcpServer_Run demo_calls (\<lambda>_ _ _ _. None) [demo_round] [[Ret 1]]
     (\<lambda>i. EventLoop LittleEndian (\<lambda>_ _ _ _. None) NetworkOptions_default []) (projr demo_server)"

lemma demo_end_value:
  "fst demo_end = Inl (SystemError ''accept failed'' 24) \<and> s_openedFds (snd demo_end) = [5, 7]"
  by (simp add: demo_end_def demo_server_def demo_calls_def demo_round_def TcpServer_init_def NetworkOptions_default_def
      TcpServer_Run_def run_start_def CreatePoller_def open_listener_def CreateListenSocket_def fresh_socket_def
      SetNonBlocking_def SetCloseOnExec_def main_poller_add_def PollPoller_Add_def PollPoller_init_def ValidateInterests_def
      IoEvent_defs WakeupChannel_init_def SubReactor_init_def Start_def PublishState_def StartSweeperThread_def
      main_loop.simps reactors_progress_def main_round_def stop_event_def CheckSubReactorHealth_def HasFailed_def
      AcceptNewClients_def accept_loop.simps hand_over_def EnqueClient_def EnqueClient_locked_def notify_control_def
      HasIoEvent_def ScopedFd_defs EINTR_def EAGAIN_def EWOULDBLOCK_def StopSweeperThread_def
      ForceStopAndJoinSubReactors_def JoinSubReactors_def ForceStop_def ForceStop_locked_def run_finish_def
      CleanupMainReactor_def PollPoller_Remove_def reactor_fds_def)

theorem run_closes_all_witness:
  "s_state (snd demo_end) = Stopped \<and> mset (s_closedFds (snd demo_end)) = {#5, 7#}"
proof -
  obtain s0 where init: "demo_server = Inr s0" by (simp add: demo_server_def TcpServer_init_def NetworkOptions_default_def)
  have ok: "socket_ok demo_calls" "list_all input_ok [demo_round]"
    using EventLoop_threads_keep [of LittleEndian "\<lambda>_ _ _ _. None" NetworkOptions_default "\<lambda>_. []"]
    by (auto simp: socket_ok_def demo_calls_def input_ok_def demo_round_def accepts_ok_def)
  have run: "TcpServer_Run demo_calls (\<lambda>_ _ _ _. None) [demo_round] [[Ret 1]]
      (\<lambda>i. EventLoop LittleEndian (\<lambda>_ _ _ _. None) NetworkOptions_default []) s0 = (fst demo_end, snd demo_end)"
    by (simp add: demo_end_def init)
  have "case fst demo_end of Inl e \<Rightarrow> is_std_exception e | Inr u \<Rightarrow> True" by (simp add: demo_end_value)
  from run_closes_all [OF init [unfolded demo_server_def] ok EventLoop_threads_keep run this] show ?thesis
    by (simp add: demo_end_value)
qed

section \<open>A stop\<close>

text \<open>A round before its stop changes no more than the wakeup channel; a round after it accepts nobody.\<close>

lemma stop_event_frame:
  "stop_event inp s = (res, t) \<Longrightarrow> \<exists>w. t = s\<lparr>s_stopWakeup := w\<rparr>"
  by (auto simp: stop_event_def Let_def split: if_splits option.splits sum.splits intro: exI [of _ "s_stopWakeup s"])

lemma listen_events_stopped:
  "s_state s \<noteq> Running \<Longrightarrow> listen_events inp evs s = (Inr (), s)"
  by (induction evs) simp_all

lemma stop_reactors_stops:
  assumes "stop_reactors writes s = (Inr (), t)"
  shows "\<exists>rs. t = s\<lparr>s_subReactors := rs\<rparr> \<and> length rs = length (s_subReactors s) \<and>
    (\<forall>r \<in> set rs. r_stopRequested r \<and> r_requestedShutdownDeadline r \<le> s_shutdownDeadline s)"
proof -
  obtain rs where rs: "on_reactors (\<lambda>_. True) (\<lambda>w. Stop w (s_shutdownDeadline s)) writes (s_subReactors s) = Some rs"
    "t = s\<lparr>s_subReactors := rs\<rparr>"
    using assms by (auto simp: stop_reactors_def split: option.splits)
  have "r_stopRequested r \<and> r_requestedShutdownDeadline r \<le> d" if "Stop w d r0 = Some r" for w d r0 r
    using that by (auto simp: Stop_def Stop_locked_def notify_control_def Let_def)
  then have "list_all2 (\<lambda>r0 r. r_stopRequested r \<and> r_requestedShutdownDeadline r \<le> s_shutdownDeadline s) (s_subReactors s) rs"
    by (intro list_all2_mono [OF on_reactors_all2 [OF rs(1)]]) auto
  then show ?thesis using rs(2) by (intro exI [of _ rs]) (auto simp: list_all2_conv_all_nth in_set_conv_nth)
qed

lemma CheckProgress_cases:
  assumes "s_state s = Draining" "Server_CheckShutdownProgress writes now s = (Inr (), s')"
  shows "let over = list_all IsStopped (s_subReactors s);
             forced = \<not> over \<and> \<not> s_forceStopSent s \<and> s_shutdownDeadline s \<le> now
         in s' = s\<lparr>s_state := if over then Stopped else Draining, s_forceStopSent := s_forceStopSent s \<or> forced,
                    s_subReactors := s_subReactors s'\<rparr> \<and>
            list_all2 (called_on (\<lambda>r. forced \<and> \<not> IsStopped r) ForceStop) (s_subReactors s) (s_subReactors s')"
proof -
  let ?rs = "s_subReactors s"
  have same: "list_all2 (called_on (\<lambda>r. False) ForceStop) ?rs ?rs" by (simp add: list_all2_refl)
  consider (over) "list_all IsStopped ?rs"
    | (late) "\<not> list_all IsStopped ?rs" "\<not> s_forceStopSent s \<and> s_shutdownDeadline s \<le> now"
    | (wait) "\<not> list_all IsStopped ?rs" "\<not> (\<not> s_forceStopSent s \<and> s_shutdownDeadline s \<le> now)" by blast
  then show ?thesis
  proof cases
    case over
    with assms have "s' = s\<lparr>s_state := Stopped\<rparr>" by (simp add: Server_CheckShutdownProgress_def)
    with over same show ?thesis by (cases s) simp
  next
    case late
    obtain rs where "on_reactors (\<lambda>r. \<not> IsStopped r) ForceStop writes ?rs = Some rs"
      "s' = s\<lparr>s_subReactors := rs, s_forceStopSent := True\<rparr>"
      using assms late by (auto simp: Server_CheckShutdownProgress_def split: option.splits)
    with late assms(1) on_reactors_all2 [of "\<lambda>r. \<not> IsStopped r" ForceStop writes ?rs rs] show ?thesis
      by (cases s) simp
  next
    case wait
    with assms have "s' = s" by (auto simp: Server_CheckShutdownProgress_def)
    with wait assms(1) same show ?thesis by (cases s) auto
  qed
qed

lemma CheckProgress_frame:
  assumes "s_state s = Draining" "Server_CheckShutdownProgress writes now s = (Inr (), s')"
  shows "\<exists>state sent rs forced. s' = s\<lparr>s_state := state, s_forceStopSent := sent, s_subReactors := rs\<rparr> \<and>
    list_all2 (called_on forced ForceStop) (s_subReactors s) rs \<and> state \<in> {Draining, Stopped}"
  using CheckProgress_cases [OF assms, unfolded Let_def]
  apply (elim conjE)
  apply (intro exI conjI)
    apply assumption
   apply assumption
  apply simp
  done

text \<open>A round of the running server that sees a stop accepts no client any more, even when the
  listening socket is ready in the same round: it closes that socket after deregistering it, leaves the
  state \<open>Running\<close> for good, and every reactor has been asked to stop, by the deadline at the latest.\<close>

theorem stop_round:
  assumes "s_state s = Running" "stop_event inp s = (Inr True, s1)" "main_round ctl inp s = (Inr (), s')"
    and "poller_good (the (s_poller s))" "ScopedFd_Valid (s_listenFd s)"
  shows "s_state s' \<in> {Draining, Stopped} \<and> s_openedFds s' = s_openedFds s \<and>
    s_listenFd s' = INVALID_FD \<and> s_closedFds s' = s_closedFds s @ [s_listenFd s] \<and>
    poller_registry (the (s_poller s')) (s_listenFd s) = None \<and>
    s_shutdownDeadline s' = deadline_after (mi_begin_now inp) (gracefulTimeout (s_shutdownOptions s)) \<and>
    length (s_subReactors s') = length (s_subReactors s) \<and>
    (\<forall>r \<in> set (s_subReactors s'). r_stopRequested r \<and> r_requestedShutdownDeadline r \<le> s_shutdownDeadline s')"
proof -
  obtain w where s1: "s1 = s\<lparr>s_stopWakeup := w\<rparr>" using stop_event_frame [OF assms(2)] by blast
  let ?d = "deadline_after (mi_begin_now inp) (gracefulTimeout (s_shutdownOptions s))"
  let ?s = "s1\<lparr>s_state := Draining, s_shutdownDeadline := ?d\<rparr>"
  obtain removed p where p: "Poller_Remove ctl (the (s_poller s)) (s_listenFd s) = (removed, p)" by fastforce
  obtain a t where t: "Server_BeginGracefulShutdown ctl (mi_begin_writes inp) (mi_begin_now inp) s1 = (a, t)" by fastforce
  have a: "a = Inr ()" using assms(2,3) t by (cases a) (auto simp: main_round_def)
  have removed: "removed = None" using t a p assms(1,5)
    by (cases removed) (auto simp: Server_BeginGracefulShutdown_def drop_listener_def s1 Let_def)
  let ?u = "?s\<lparr>s_poller := Some p, s_listenFd := INVALID_FD, s_closedFds := s_closedFds s @ [s_listenFd s]\<rparr>"
  have stop: "stop_reactors (mi_begin_writes inp) ?u = (Inr (), t)"
    using t a p removed assms(1,5)
    by (simp add: Server_BeginGracefulShutdown_def drop_listener_def s1 Let_def Reset_invalid ScopedFd_Valid_def)
  obtain rs where rs: "t = ?u\<lparr>s_subReactors := rs\<rparr>" "length rs = length (s_subReactors s)"
    "\<forall>r \<in> set rs. r_stopRequested r \<and> r_requestedShutdownDeadline r \<le> ?d"
    using stop_reactors_stops [OF stop] by (auto simp: s1)
  have "poller_registry p (s_listenFd s) = None"
    using pl.remove_law [OF assms(4) p] removed by simp
  moreover have forced_reactors: "r_stopRequested r' \<and> r_requestedShutdownDeadline r' \<le> ?d"
    if c: "list_all2 (called_on forced ForceStop) rs rs'" and r': "r' \<in> set rs'" for rs' r' forced
  proof -
    obtain i where i: "i < length rs'" "r' = rs' ! i" using r' by (auto simp: in_set_conv_nth)
    with c have "called_on forced ForceStop (rs ! i) r'" "rs ! i \<in> set rs" by (auto simp: list_all2_conv_all_nth)
    with rs(3) show ?thesis
      by (auto simp: called_on_def ForceStop_def ForceStop_locked_def notify_control_def split: if_splits)
  qed
  moreover obtain forced state sent rs' where s': "state \<in> {Draining, Stopped}"
    "s' = t\<lparr>s_state := state, s_forceStopSent := sent, s_subReactors := rs'\<rparr>" "list_all2 (called_on forced ForceStop) rs rs'"
  proof -
    have "Server_CheckShutdownProgress (mi_check_writes inp) (mi_check_now inp) t = (Inr (), s')"
      using assms(2,3) t a by (simp add: main_round_def CheckSubReactorHealth_def rs(1) listen_events_stopped)
    moreover have t: "s_subReactors t = rs" "s_state t = Draining" by (simp_all add: rs(1))
    ultimately show thesis using CheckProgress_frame [OF t(2)] that unfolding t(1) by blast
  qed
  ultimately show ?thesis using forced_reactors [OF s'(3)] list_all2_lengthD [OF s'(3)] rs(1,2) by (simp add: s1)
qed

text \<open>A running server with one reactor that has been asked to stop, and a client waiting at its door.\<close>

definition demo_stopping :: TcpServer where
  "demo_stopping = (projr demo_server)\<lparr>s_state := Running, s_stopRequested := True, s_listenFd := 5, s_openedFds := [5],
     s_poller := Some (PollBackend \<lparr>pp_interests = [(5, IoEvent_Read), (10, IoEvent_Read)]\<rparr>),
     s_subReactors := [SubReactor_init 0 \<lparr>wk_readFd = 20, wk_writeFd = 21, wk_queue = 0\<rparr> KVStore_init ServerMetrics_init]\<rparr>"

theorem stop_round_witness:
  "\<exists>s'. main_round (\<lambda>_ _ _ _. None) (demo_round\<lparr>mi_begin_writes := [[Ret 1]]\<rparr>) demo_stopping = (Inr (), s') \<and>
    s_openedFds s' = [5] \<and> s_closedFds s' = [5] \<and> s_state s' \<in> {Draining, Stopped}"
proof -
  let ?inp = "demo_round\<lparr>mi_begin_writes := [[Ret 1]]\<rparr>"
  have d: "s_state demo_stopping = Running" "s_listenFd demo_stopping = 5" "s_openedFds demo_stopping = [5]"
    "s_closedFds demo_stopping = []" "poller_good (the (s_poller demo_stopping))"
    by (auto simp: demo_stopping_def demo_server_def TcpServer_init_def NetworkOptions_default_def pp_good_def um_ok_def
        IoEvent_defs valid_interest_def um_find_def HasIoEvent_def split: if_splits)
  have stop: "stop_event ?inp demo_stopping = (Inr True, demo_stopping)"
    by (simp add: stop_event_def demo_stopping_def demo_round_def demo_server_def TcpServer_init_def NetworkOptions_default_def)
  have "fst (main_round (\<lambda>_ _ _ _. None) ?inp demo_stopping) = Inr ()"
    unfolding main_round_def stop
    by (simp add: demo_stopping_def demo_round_def demo_server_def TcpServer_init_def NetworkOptions_default_def
        Server_BeginGracefulShutdown_def drop_listener_def stop_reactors_def
        ScopedFd_defs PollPoller_Remove_def IoEvent_defs Stop_def Stop_locked_def notify_control_def SubReactor_init_def
        CheckSubReactorHealth_def Server_CheckShutdownProgress_def IsStopped_def deadline_after_def milliseconds_def)
  then obtain s' where run: "main_round (\<lambda>_ _ _ _. None) ?inp demo_stopping = (Inr (), s')"
    by (metis prod.collapse)
  with stop_round [OF d(1) stop run d(5)] d show ?thesis by (auto simp: ScopedFd_defs)
qed

lemma ForceStop_forces: "ForceStop w r = Some r' \<Longrightarrow> r_forceStopRequested r'"
  by (auto simp: ForceStop_def ForceStop_locked_def notify_control_def)

text \<open>Claim C20: a draining server is stopped by the first check that finds all its reactors stopped, and
  only then; until its deadline it leaves them alone, the first check at or after the deadline forces
  every reactor that is not stopped, and later checks do not force again; and it never waits longer
  than 100 ms, nor past the deadline by more than one.\<close>

theorem shutdown_progress:
  assumes "s_state s = Draining" "Server_CheckShutdownProgress writes now s = (Inr (), s')"
  shows "(s_state s' = Stopped \<longleftrightarrow> list_all IsStopped (s_subReactors s)) \<and>
    (now < s_shutdownDeadline s \<or> s_forceStopSent s \<longrightarrow> s_subReactors s' = s_subReactors s) \<and>
    (s_shutdownDeadline s \<le> now \<and> \<not> s_forceStopSent s \<and> s_state s' \<noteq> Stopped \<longrightarrow>
       s_forceStopSent s' \<and> (\<forall>i < length (s_subReactors s). \<not> IsStopped (s_subReactors s ! i) \<longrightarrow>
         r_forceStopRequested (s_subReactors s' ! i))) \<and>
    (let t = Server_ComputeWaitTimeout now s
     in 0 \<le> t \<and> t \<le> 100 \<and>
       (\<not> s_forceStopSent s \<and> now < s_shutdownDeadline s \<longrightarrow>
          1 \<le> t \<and> now + milliseconds t \<le> max (s_shutdownDeadline s) (now + milliseconds 1)))"
proof -
  let ?over = "list_all IsStopped (s_subReactors s)"
  let ?forced = "\<not> ?over \<and> \<not> s_forceStopSent s \<and> s_shutdownDeadline s \<le> now"
  note c = CheckProgress_cases [OF assms, unfolded Let_def]
  have state: "s_state s' = (if ?over then Stopped else Draining)" "s_forceStopSent s' = (s_forceStopSent s \<or> ?forced)"
    using arg_cong [OF conjunct1 [OF c], of s_state] arg_cong [OF conjunct1 [OF c], of s_forceStopSent] by simp_all
  have rs: "list_all2 (called_on (\<lambda>r. ?forced \<and> \<not> IsStopped r) ForceStop) (s_subReactors s) (s_subReactors s')"
    using conjunct2 [OF c] .
  have same: "s_subReactors s' = s_subReactors s" if "\<not> ?forced"
  proof (rule nth_equalityI)
    show "length (s_subReactors s') = length (s_subReactors s)" using list_all2_lengthD [OF rs] by simp
    fix i assume "i < length (s_subReactors s')"
    with list_all2_nthD2 [OF rs this] that show "s_subReactors s' ! i = s_subReactors s ! i" by (auto simp: called_on_def)
  qed
  have force: "r_forceStopRequested (s_subReactors s' ! i)"
    if "?forced" "i < length (s_subReactors s)" "\<not> IsStopped (s_subReactors s ! i)" for i
    using list_all2_nthD [OF rs that(2)] that(1,3) by (auto dest: ForceStop_forces)
  have timeout: "let t = Server_ComputeWaitTimeout now s
     in 0 \<le> t \<and> t \<le> 100 \<and>
       (\<not> s_forceStopSent s \<and> now < s_shutdownDeadline s \<longrightarrow>
          1 \<le> t \<and> now + milliseconds t \<le> max (s_shutdownDeadline s) (now + milliseconds 1))"
    using assms(1) by (auto simp: Server_ComputeWaitTimeout_def milliseconds_def Let_def min_def max_def)
  show ?thesis
    by (intro conjI impI timeout) (use state same force in auto)
qed

theorem shutdown_progress_witness:
  "let s = demo_stopping\<lparr>s_state := Draining, s_shutdownDeadline := 7\<rparr>;
       s' = snd (Server_CheckShutdownProgress [[Ret 1]] 7 s)
   in s_forceStopSent s' \<and> r_forceStopRequested (s_subReactors s' ! 0)"
proof -
  let ?s = "demo_stopping\<lparr>s_state := Draining, s_shutdownDeadline := 7\<rparr>"
  let ?s' = "snd (Server_CheckShutdownProgress [[Ret 1]] 7 ?s)"
  have d: "s_subReactors ?s = [SubReactor_init 0 \<lparr>wk_readFd = 20, wk_writeFd = 21, wk_queue = 0\<rparr> KVStore_init ServerMetrics_init]"
    "\<not> s_forceStopSent ?s"
    by (simp_all add: demo_stopping_def demo_server_def TcpServer_init_def NetworkOptions_default_def)
  have live: "\<not> IsStopped (s_subReactors ?s ! 0)" unfolding d by (simp add: IsStopped_def SubReactor_init_def)
  then have "fst (Server_CheckShutdownProgress [[Ret 1]] 7 ?s) = Inr ()"
    using d by (simp add: Server_CheckShutdownProgress_def ForceStop_def notify_control_def ForceStop_locked_def)
  then have "Server_CheckShutdownProgress [[Ret 1]] 7 ?s = (Inr (), ?s')" by (metis prod.collapse)
  from shutdown_progress [OF _ this] d live show ?thesis by (simp add: Let_def)
qed

section \<open>Distributing the clients\<close>

definition takes_clients :: "SubReactor \<Rightarrow> bool" where
  "takes_clients r \<longleftrightarrow> \<not> r_stopRequested r \<and> \<not> r_forceStopRequested r"

definition set_up :: "FdFlags \<Rightarrow> int \<Rightarrow> bool" where
  "set_up k fd \<longleftrightarrow> nonblocking k fd \<and> close_on_exec k fd"

text \<open>One client of a healthy system.\<close>

lemma hand_over_ok:
  assumes "s_nextSubReactorIndex s < length (s_subReactors s)" "0 \<le> fd" "\<And>w. Notify (writes fd) w \<noteq> None"
    and "takes_clients (s_subReactors s ! s_nextSubReactorIndex s)"
  shows "\<exists>flags r. hand_over (\<lambda>_ _. None) writes fd s =
      (Inr (), s\<lparr>s_flags := flags, s_nextSubReactorIndex := (s_nextSubReactorIndex s + 1) mod length (s_subReactors s),
                 s_subReactors := (s_subReactors s)[s_nextSubReactorIndex s := r]\<rparr>) \<and>
    takes_clients r \<and> r_pendingClients r = r_pendingClients (s_subReactors s ! s_nextSubReactorIndex s) @ [fd] \<and>
    set_up flags fd \<and> (\<forall>fd'. set_up (s_flags s) fd' \<longrightarrow> set_up flags fd')"
proof -
  let ?r = "s_subReactors s ! s_nextSubReactorIndex s"
  obtain k where k: "SetNonBlocking (\<lambda>_ _. None) fd (s_flags s) = Inr k" by (simp add: SetNonBlocking_def)
  obtain flags where f: "SetCloseOnExec (\<lambda>_ _. None) fd k = Inr flags" by (simp add: SetCloseOnExec_def)
  obtain w where w: "Notify (writes fd) (r_wakeup ?r) = Some w" using assms(3) by blast
  let ?r' = "?r\<lparr>r_pendingClients := r_pendingClients ?r @ [fd], r_wakeup := w\<rparr>"
  have enq: "EnqueClient (writes fd) fd ?r = Some (True, ?r')"
    using assms(2,4) w by (simp add: EnqueClient_def EnqueClient_locked_def ScopedFd_defs takes_clients_def notify_control_def)
  have "set_up flags fd \<and> (\<forall>fd'. set_up (s_flags s) fd' \<longrightarrow> set_up flags fd')"
    using SetNonBlocking_sets [OF k] SetCloseOnExec_sets [OF f]
    by (auto simp: set_up_def nonblocking_def close_on_exec_def)
  then show ?thesis
    by (intro exI [of _ flags] exI [of _ ?r'])
      (use assms(4) k f enq in \<open>simp add: hand_over_def Let_def takes_clients_def\<close>)
qed

text \<open>Whose turn it is: the descriptors that reactor \<open>i\<close> of \<open>n\<close> gets when the first goes to \<open>idx\<close>.\<close>

fun turns :: "nat \<Rightarrow> nat \<Rightarrow> nat \<Rightarrow> int list \<Rightarrow> int list" where
  "turns i n idx [] = []"
| "turns i n idx (fd # fds) = (if idx = i then [fd] else []) @ turns i n ((idx + 1) mod n) fds"

lemma turns_eq:
  "idx < n \<Longrightarrow> turns i n idx fds = map ((!) fds) (filter (\<lambda>j. (idx + j) mod n = i) [0..<length fds])"
proof (induction fds arbitrary: idx)
  case (Cons fd fds)
  have upt: "[0..<length (fd # fds)] = 0 # map Suc [0..<length fds]"
    by (simp add: upt_conv_Cons map_Suc_upt del: upt_Suc)
  have "((idx + 1) mod n + j) mod n = (idx + Suc j) mod n" for j by (simp add: mod_simps)
  with Cons show ?case unfolding upt by (simp add: filter_map comp_def)
qed simp

lemma accept_loop_deals:
  assumes "list_all takes_clients (s_subReactors s)" "s_nextSubReactorIndex s < length (s_subReactors s)"
    and "\<forall>fd \<in> set fds. 0 \<le> fd \<and> (\<forall>w. Notify (writes fd) w \<noteq> None)"
    and "n + length fds \<le> maxAcceptsPerEvent (s_networkOptions s)"
  shows "\<exists>s'. accept_loop (\<lambda>_ _. None) writes (map Ret fds @ Fail EAGAIN # rest) n s = (Inr (), s') \<and>
    s_openedFds s' = s_openedFds s @ fds \<and> s_closedFds s' = s_closedFds s \<and>
    s_nextSubReactorIndex s' = (s_nextSubReactorIndex s + length fds) mod length (s_subReactors s) \<and>
    length (s_subReactors s') = length (s_subReactors s) \<and>
    (\<forall>i < length (s_subReactors s). r_pendingClients (s_subReactors s' ! i) =
       r_pendingClients (s_subReactors s ! i) @ turns i (length (s_subReactors s)) (s_nextSubReactorIndex s) fds) \<and>
    (\<forall>fd. fd \<in> set fds \<or> set_up (s_flags s) fd \<longrightarrow> set_up (s_flags s') fd)"
  using assms
proof (induction fds arbitrary: n s)
  case Nil
  then show ?case by (simp add: accept_loop.simps EAGAIN_def EINTR_def)
next
  case (Cons fd fds)
  let ?i = "s_nextSubReactorIndex s" and ?rs = "s_subReactors s"
  let ?s = "s\<lparr>s_openedFds := s_openedFds s @ [fd]\<rparr>"
  have takes: "takes_clients (s_subReactors ?s ! s_nextSubReactorIndex ?s)" using Cons.prems(1,2) by (simp add: list_all_length)
  obtain flags r where h: "hand_over (\<lambda>_ _. None) writes fd ?s =
      (Inr (), ?s\<lparr>s_flags := flags, s_nextSubReactorIndex := (?i + 1) mod length ?rs, s_subReactors := ?rs[?i := r]\<rparr>)"
    and r: "takes_clients r" "r_pendingClients r = r_pendingClients (?rs ! ?i) @ [fd]"
    and flags: "set_up flags fd" "\<forall>fd'. set_up (s_flags s) fd' \<longrightarrow> set_up flags fd'"
    using hand_over_ok [of ?s fd writes, OF _ _ _ takes] Cons.prems(2,3) by auto
  let ?t = "?s\<lparr>s_flags := flags, s_nextSubReactorIndex := (?i + 1) mod length ?rs, s_subReactors := ?rs[?i := r]\<rparr>"
  have "list_all takes_clients (s_subReactors ?t)" using Cons.prems(1,2) r(1) by (auto simp: list_all_length nth_list_update)
  moreover have "0 < length ?rs" using Cons.prems(2) by linarith
  then have "s_nextSubReactorIndex ?t < length (s_subReactors ?t)" by simp
  ultimately obtain s' where s': "accept_loop (\<lambda>_ _. None) writes (map Ret fds @ Fail EAGAIN # rest) (n + 1) ?t = (Inr (), s')"
    "s_openedFds s' = s_openedFds ?t @ fds" "s_closedFds s' = s_closedFds ?t"
    "s_nextSubReactorIndex s' = (s_nextSubReactorIndex ?t + length fds) mod length (s_subReactors ?t)"
    "length (s_subReactors s') = length (s_subReactors ?t)"
    "\<forall>i < length (s_subReactors ?t). r_pendingClients (s_subReactors s' ! i) =
       r_pendingClients (s_subReactors ?t ! i) @ turns i (length (s_subReactors ?t)) (s_nextSubReactorIndex ?t) fds"
    "\<forall>fd. fd \<in> set fds \<or> set_up (s_flags ?t) fd \<longrightarrow> set_up (s_flags s') fd"
    using Cons.IH [of ?t "n + 1"] Cons.prems(3,4) by auto
  have "n < maxAcceptsPerEvent (s_networkOptions s)" using Cons.prems(4) by simp
  then have "accept_loop (\<lambda>_ _. None) writes (map Ret (fd # fds) @ Fail EAGAIN # rest) n s = (Inr (), s')"
    by (subst accept_loop.simps) (simp add: h s'(1) [simplified])
  moreover have "((?i + 1) mod length ?rs + length fds) mod length ?rs = (?i + length (fd # fds)) mod length ?rs"
    by (simp add: mod_simps)
  moreover have "\<forall>i < length ?rs. r_pendingClients (s_subReactors s' ! i) =
      r_pendingClients (?rs ! i) @ turns i (length ?rs) ?i (fd # fds)"
    using s'(6) r(2) Cons.prems(2) by (auto simp: nth_list_update)
  ultimately show ?case using s'(2-5,7) flags by auto
qed

text \<open>Claim C9: a batch of connections that fits into one event is accepted completely, and dealt out in
  turn: with \<open>n\<close> reactors, the \<open>j\<close>-th client goes to the reactor \<open>j\<close> places after the next one, at the end
  of what waits there, so that no reactor gets two clients more than another; every client is
  non-blocking and closed on \<open>exec\<close>, none is dropped, and the next batch goes on where this one ended.\<close>

theorem accept_round_robin:
  assumes "list_all takes_clients (s_subReactors s)" "s_nextSubReactorIndex s < length (s_subReactors s)"
    and "\<forall>fd \<in> set fds. 0 \<le> fd \<and> (\<forall>w. Notify (writes fd) w \<noteq> None)"
    and "length fds \<le> maxAcceptsPerEvent (s_networkOptions s)"
  shows "\<exists>s'. AcceptNewClients (\<lambda>_ _. None) writes (map Ret fds @ Fail EAGAIN # rest) s = (Inr (), s') \<and>
    s_closedFds s' = s_closedFds s \<and> s_openedFds s' = s_openedFds s @ fds \<and>
    s_nextSubReactorIndex s' = (s_nextSubReactorIndex s + length fds) mod length (s_subReactors s) \<and>
    (\<forall>i < length (s_subReactors s). r_pendingClients (s_subReactors s' ! i) = r_pendingClients (s_subReactors s ! i) @
       map ((!) fds) (filter (\<lambda>j. (s_nextSubReactorIndex s + j) mod length (s_subReactors s) = i) [0..<length fds])) \<and>
    (\<forall>fd \<in> set fds. nonblocking (s_flags s') fd \<and> close_on_exec (s_flags s') fd)"
  using accept_loop_deals [OF assms(1-3), of 0 rest] assms(2,4)
  by (fastforce simp: AcceptNewClients_def turns_eq set_up_def)

theorem accept_round_robin_witness:
  "\<exists>s'. AcceptNewClients (\<lambda>_ _. None) (\<lambda>_. [Ret 1]) [Ret 7, Ret 8, Fail EAGAIN] demo_stopping = (Inr (), s') \<and>
    r_pendingClients (s_subReactors s' ! 0) = [7, 8]"
proof -
  have d: "s_subReactors demo_stopping =
      [SubReactor_init 0 \<lparr>wk_readFd = 20, wk_writeFd = 21, wk_queue = 0\<rparr> KVStore_init ServerMetrics_init]"
    "s_nextSubReactorIndex demo_stopping = 0" "maxAcceptsPerEvent (s_networkOptions demo_stopping) = 64"
    by (simp_all add: demo_stopping_def demo_server_def TcpServer_init_def NetworkOptions_default_def)
  show ?thesis
    using accept_round_robin [of demo_stopping "[7, 8]" "\<lambda>_. [Ret 1]" "[]"]
    by (auto simp: d takes_clients_def SubReactor_init_def upt_rec_numeral)
qed

section \<open>The deadline of a stop\<close>

lemma deadline_exact:
  assumes "- (2 ^ 63) \<le> now + milliseconds timeout" "now + milliseconds timeout < 2 ^ 63"
  shows "deadline_after now timeout = now + milliseconds timeout"
  unfolding deadline_after_def sint_sbintrunc'
  by (rule signed_take_bit_int_eq_self) (use assms in simp_all)



section \<open>The sweeper\<close>


text \<open>Claim C22: a pass of the sweeper ends: with a store whose heap holds \<open>n\<close> records it needs at most
  \<open>n div 1024 + 1\<close> sweeps, even when no stop comes and the clock moves on in between; it throws nothing,
  keeps the invariant of the store, and a client cannot tell the store from the one before.\<close>

theorem sweep_pass_ends:
  assumes "kv_inv store" "kv_fits store" "length (m_expirations store) < SWEEP_RECORDS * length readings"
  shows "\<exists>store' metrics'. sweep_pass readings store metrics = Some (Inr (store', metrics')) \<and>
    kv_inv store' \<and> kv_fits store' \<and> length (m_expirations store') \<le> length (m_expirations store) \<and>
    (\<forall>t. (\<forall>(now, stopRequested) \<in> set readings. now \<le> t) \<longrightarrow> kv_view store' t = kv_view store t)"
  using assms
proof (induction readings arbitrary: store metrics)
  case (Cons reading readings)
  obtain now stopRequested where reading: "reading = (now, stopRequested)" by fastforce
  obtain r s where sweep: "KVStore_SweepExpired store SWEEP_RECORDS now = Inr (r, s)" and inv: "kv_inv s"
    and view: "\<forall>t \<ge> now. kv_view s t = kv_view store t"
    and len: "length (m_data s) + sw_removed r = length (m_data store)"
      "length (m_expirations s) + sw_processed r \<le> length (m_expirations store)"
    and more: "sw_processed r \<le> SWEEP_RECORDS" "sw_processed r < SWEEP_RECORDS \<longrightarrow> \<not> sw_hasMoreExpired r"
    using SweepExpired_ok [OF Cons.prems(1,2), of SWEEP_RECORDS now] by blast
  have fits: "kv_fits s" using Cons.prems(2) len(1) by (simp add: kv_fits_def)
  show ?case
  proof (cases "sw_hasMoreExpired r \<and> \<not> stopRequested")
    case True
    have "length (m_expirations s) < SWEEP_RECORDS * length readings" using True more len(2) Cons.prems(3) by auto
    from Cons.IH [OF inv fits this, of "OnSweeperRun (sw_removed r) metrics"] obtain store' metrics' where
      "sweep_pass readings s (OnSweeperRun (sw_removed r) metrics) = Some (Inr (store', metrics'))"
      "kv_inv store'" "kv_fits store'" "length (m_expirations store') \<le> length (m_expirations s)"
      "\<forall>t. (\<forall>(now, stopRequested) \<in> set readings. now \<le> t) \<longrightarrow> kv_view store' t = kv_view s t" by blast
    with True view len(2) show ?thesis by (simp add: reading sweep Let_def)
  next
    case False
    with view inv fits len(2) show ?thesis by (auto simp: reading sweep Let_def)
  qed
qed simp

theorem sweep_pass_ends_witness:
  "\<exists>store' metrics'. sweep_pass [(5, False)] KVStore_init ServerMetrics_init = Some (Inr (store', metrics')) \<and>
    kv_inv store'"
  using sweep_pass_ends [of KVStore_init "[(5, False)]" ServerMetrics_init] kv_inv_init
  by (auto simp: kv_fits_def SWEEP_RECORDS_def KVStore_init_def)

end
