(* ===== verification/Config_Properties.thy ===== *)
theory Config_Properties
  imports Tcp_Server
begin

text \<open>
  Properties of the configuration: what passes \<open>main\<close> is accepted by the server, the two ways to write
  an option mean the same, and integers are read exactly.
\<close>

section \<open>What every configuration satisfies\<close>

text \<open>What the readers keep and \<open>Validate\<close> does not check.\<close>

definition config_inv :: "AppConfig \<Rightarrow> bool" where
  "config_inv c \<longleftrightarrow> 1 \<le> subReactorCount (reactor c) \<and> 0 < sweepInterval c"

lemma auto_sub_reactors_bounds: "1 \<le> auto_sub_reactors hw \<and> auto_sub_reactors hw \<le> 8"
  by (simp add: auto_sub_reactors_def Let_def)

lemma if_present_inv:
  assumes "if_present r assign c = Inr c'" "config_inv c"
    and "\<And>v c0 c1. assign v c0 = Inr c1 \<Longrightarrow> config_inv c0 \<Longrightarrow> config_inv c1"
  shows "config_inv c'"
  using assms by (cases r) (auto simp: if_present_def result_simps split: option.splits)

lemma read_limit_inv: "read_limit toml table key assign c = Inr c' \<Longrightarrow> config_inv c \<Longrightarrow> config_inv c'"
  unfolding read_limit_def
  by (erule if_present_inv) (auto simp: result_simps config_inv_def)

lemma readers_inv:
  "ReadServerConfig toml table c = Inr c' \<Longrightarrow> config_inv c \<Longrightarrow> config_inv c'"
  "ReadNetworkConfig toml hw table c = Inr c' \<Longrightarrow> config_inv c \<Longrightarrow> config_inv c'"
  "ReadReactorConfig toml table c = Inr c' \<Longrightarrow> config_inv c \<Longrightarrow> config_inv c'"
  "ReadShutdownConfig toml table c = Inr c' \<Longrightarrow> config_inv c \<Longrightarrow> config_inv c'"
  "ReadTTLConfig toml table c = Inr c' \<Longrightarrow> config_inv c \<Longrightarrow> config_inv c'"
  "ReadLogConfig toml table c = Inr c' \<Longrightarrow> config_inv c \<Longrightarrow> config_inv c'"
  unfolding ReadServerConfig_def ReadNetworkConfig_def ReadReactorConfig_def ReadShutdownConfig_def ReadTTLConfig_def
    ReadLogConfig_def
  using auto_sub_reactors_bounds [of hw]
  by (auto simp: result_simps Let_def elim!: if_present_inv dest!: read_limit_inv split: if_splits)
    (auto simp: config_inv_def result_simps split: if_splits)

lemma default_inv: "config_inv AppConfig_default"
  by (simp add: config_inv_def AppConfig_default_def)

lemma LoadFromFile_inv: "LoadFromFile toml hw parse_file path = Inr c \<Longrightarrow> config_inv c"
  by (auto simp: LoadFromFile_def Let_def result_simps) (meson default_inv readers_inv)

lemma apply_option_inv:
  "apply_option hw argument args c = Inr (c', rest) \<Longrightarrow> config_inv c \<Longrightarrow> config_inv c'"
  using auto_sub_reactors_bounds [of hw] unfolding apply_option_def Let_def
  by (split if_split_asm; (elim conjE)?)+
    (auto simp: result_simps config_inv_def split: if_split_asm
      dest!: arg_cong [where f = "\<lambda>c. subReactorCount (reactor c)"])

lemma apply_options_inv: "apply_options hw args c = Inr c' \<Longrightarrow> config_inv c \<Longrightarrow> config_inv c'"
proof (induction hw args c rule: apply_options.induct)
  case (2 hw argument args c)
  then show ?case by (cases "apply_option hw argument args c") (auto dest: apply_option_inv)
qed simp

lemma Validate_iff:
  "Validate c = Inr () \<longleftrightarrow> host c \<noteq> [] \<and> 1 \<le> port c \<and> port c \<le> 65535 \<and> 4 \<le> maxReadBufferBytes (network c) \<and>
     writeLowWatermarkBytes (network c) \<le> writeHighWatermarkBytes (network c) \<and>
     writeHighWatermarkBytes (network c) \<le> writeHardLimitBytes (network c) \<and>
     0 < maxWriteBytesPerEvent (network c) \<and> 0 < maxAcceptsPerEvent (network c) \<and>
     subReactorCount (reactor c) \<le> 16 \<and> 0 < gracefulTimeout (shutdown c) \<and> 0 \<le> sweepInterval c"
  by (auto simp: Validate_def Let_def)

text \<open>Claim C30: whatever the file and the command line say, a configuration that \<open>main\<close> arrives at is
  one the server accepts: the port and the limits are in range, there are 1 to 16 reactors, the sweeper
  has a positive interval, and the constructor of \<open>TcpServer\<close> does not throw, although it asks for
  more than \<open>Validate\<close> does.\<close>

theorem server_config_constructs:
  assumes "server_config toml hw parse_file argv = Inr (Some c)"
  shows "1 \<le> port c \<and> port c \<le> 65535 \<and> 4 \<le> maxReadBufferBytes (network c) \<and>
    writeLowWatermarkBytes (network c) \<le> writeHighWatermarkBytes (network c) \<and>
    writeHighWatermarkBytes (network c) \<le> writeHardLimitBytes (network c) \<and>
    1 \<le> subReactorCount (reactor c) \<and> subReactorCount (reactor c) \<le> 16 \<and>
    0 < gracefulTimeout (shutdown c) \<and> 0 < sweepInterval c \<and>
    (\<exists>s. TcpServer_init wakeup flags (host c) (port c) (sweepInterval c) (network c) (reactor c) (shutdown c) = Inr s \<and>
      s_state s = Created)"
proof -
  obtain configPath c0 where c0: "(case configPath of None \<Rightarrow> Inr AppConfig_default
      | Some path \<Rightarrow> LoadFromFile toml hw parse_file path) = Inr c0"
    and c: "ApplyCommandLineOverrides hw argv c0 = Inr c" "Validate c = Inr ()"
    using assms by (auto simp: server_config_def Let_def result_simps split: if_splits)
  have "config_inv c0" using c0 by (cases configPath) (auto intro: default_inv LoadFromFile_inv)
  then have "config_inv c" using c(1) apply_options_inv by (auto simp: ApplyCommandLineOverrides_def)
  with c(2) show ?thesis unfolding Validate_iff by (auto simp: config_inv_def TcpServer_init_def)
qed

text \<open>The configuration of \<^verbatim>\<open>tinykv_server --sub-reactors=0 --port 80\<close> on a machine of eight processors.\<close>

definition no_toml :: "unit toml" where
  "no_toml = \<lparr>as_table = (\<lambda>_. None), value_string = (\<lambda>_. None), value_integer = (\<lambda>_. None)\<rparr>"

lemma demo_config:
  "server_config no_toml 8 (\<lambda>_. Inr Map.empty) [''tinykv_server'', ''--sub-reactors=0'', ''--port'', ''80''] =
     Inr (Some (AppConfig_default\<lparr>port := 80, reactor := \<lparr>pollerBackend = Auto, subReactorCount = 4\<rparr>\<rparr>))"
  by (simp add: server_config_def NeedShowHelp_def FindConfigPath_def MatchesOption_def StartsWith_def
      ApplyCommandLineOverrides_def apply_option_def ReadOptionValue_def ParseInlineValue_def RequireNextValue_def
      ParseInteger_size_def ParseInteger_int_def ParseInteger_def from_chars_def IsDigit_def SIZE_MAX_def
      AppConfig_default_def auto_sub_reactors_def Validate_def NetworkOptions_default_def)

theorem server_config_constructs_witness:
  "\<exists>s. TcpServer_init \<lparr>wk_readFd = 10, wk_writeFd = 11, wk_queue = 0\<rparr> \<lparr>status_flags = (\<lambda>_. 0), descriptor_flags = (\<lambda>_. 0)\<rparr>
      ''0.0.0.0'' 80 5000 NetworkOptions_default \<lparr>pollerBackend = Auto, subReactorCount = 4\<rparr> \<lparr>gracefulTimeout = 3000\<rparr> = Inr s \<and>
    s_state s = Created"
  using server_config_constructs [OF demo_config, of "\<lparr>wk_readFd = 10, wk_writeFd = 11, wk_queue = 0\<rparr>"
      "\<lparr>status_flags = (\<lambda>_. 0), descriptor_flags = (\<lambda>_. 0)\<rparr>"]
  by (simp add: AppConfig_default_def)

section \<open>Reading options\<close>

text \<open>The options that take a value.\<close>

definition value_options :: "string list" where
  "value_options = [''--config'', ''--host'', ''--port'', ''--poller'', ''--sub-reactors'', ''--log-level'']"

text \<open>An argument matches an option when the option is what comes before its first equals sign.\<close>

abbreviation key_of :: "string \<Rightarrow> string" where
  "key_of argument \<equiv> takeWhile (\<lambda>c. c \<noteq> CHR ''='') argument"

lemma MatchesOption_key:
  assumes "CHR ''='' \<notin> set option"
  shows "MatchesOption argument option \<longleftrightarrow> key_of argument = option"
proof
  assume "MatchesOption argument option"
  then have "argument = option \<or> take (length option + 1) argument = option @ ''=''"
    by (auto simp: MatchesOption_def StartsWith_def)
  then have "argument = option \<or> (\<exists>v. argument = option @ ''='' @ v)" by (metis append_assoc append_take_drop_id)
  with assms show "key_of argument = option" by (auto simp: takeWhile_append takeWhile_eq_all_conv)
next
  assume k: "key_of argument = option"
  show "MatchesOption argument option"
  proof (cases "dropWhile (\<lambda>c. c \<noteq> CHR ''='') argument")
    case Nil
    with k show ?thesis by (metis MatchesOption_def append_Nil2 takeWhile_dropWhile_id)
  next
    case (Cons c v)
    then have "c = CHR ''=''" using hd_dropWhile [of "\<lambda>c. c \<noteq> CHR ''=''" argument] by simp
    with Cons k have "argument = (option @ ''='') @ v" by (metis append.assoc append_Cons append_Nil takeWhile_dropWhile_id)
    then show ?thesis by (simp add: MatchesOption_def StartsWith_def)
  qed
qed

lemma ReadOptionValue_both:
  assumes "v \<noteq> []"
  shows "ReadOptionValue (option @ ''='' @ v) option args = Inr (v, args)"
    "ReadOptionValue option option (v # args) = Inr (v, args)"
  using assms by (auto simp: ReadOptionValue_def ParseInlineValue_def StartsWith_def RequireNextValue_def)

lemma ReadOptionValue_empty:
  "\<exists>m. ReadOptionValue (option @ ''='') option args = Inl (InvalidArgument m)"
  "\<exists>m. ReadOptionValue option option ([] # args) = Inl (InvalidArgument m)"
  by (auto simp: ReadOptionValue_def ParseInlineValue_def StartsWith_def RequireNextValue_def)

lemma key_of_inline: "CHR ''='' \<notin> set option \<Longrightarrow> key_of (option @ ''='' @ v) = option"
  by (auto simp: takeWhile_append)

text \<open>The second pass depends on the key of the argument and on the value that is read for it.\<close>

definition option_effect :: "nat \<Rightarrow> string \<Rightarrow> (string \<times> string list) result \<Rightarrow> AppConfig \<Rightarrow> (AppConfig \<times> string list) result" where
  "option_effect hw option r config =
     (if option = ''--config'' then bind_result r (\<lambda>(_, rest). Inr (config, rest))
      else if option = ''--host'' then bind_result r (\<lambda>(value, rest). Inr (config\<lparr>host := value\<rparr>, rest))
      else if option = ''--port'' then bind_result r (\<lambda>(value, rest).
        bind_result (ParseInteger_int value ''--port'') (\<lambda>p. Inr (config\<lparr>port := p\<rparr>, rest)))
      else if option = ''--poller'' then bind_result r (\<lambda>(value, rest).
        bind_result (ParsePollerBackend value) (\<lambda>b. Inr (config\<lparr>reactor := (reactor config)\<lparr>pollerBackend := b\<rparr>\<rparr>, rest)))
      else if option = ''--sub-reactors'' then bind_result r (\<lambda>(value, rest).
        bind_result (ParseInteger_size value ''--sub-reactors'') (\<lambda>n.
          let config = config\<lparr>reactor := (reactor config)\<lparr>subReactorCount := nat n\<rparr>\<rparr>
          in Inr (if subReactorCount (reactor config) = 0
                  then config\<lparr>reactor := (reactor config)\<lparr>subReactorCount := auto_sub_reactors hw\<rparr>\<rparr>
                  else config, rest)))
      else bind_result r (\<lambda>(value, rest).
        bind_result (ParseLogLevel value) (\<lambda>l. Inr (config\<lparr>logLevel := l\<rparr>, rest))))"

lemma apply_option_effect:
  assumes "key_of argument = option" "option \<in> set value_options"
  shows "apply_option hw argument args c = option_effect hw option (ReadOptionValue argument option args) c"
proof -
  have key: "MatchesOption argument opt = (option = opt)" if "opt \<in> set value_options" for opt
  proof -
    have "CHR ''='' \<notin> set opt" using that by (auto simp: value_options_def)
    then show ?thesis using assms(1) by (auto simp: MatchesOption_key)
  qed
  have c: "argument \<noteq> ''-c''" using assms by (auto simp: value_options_def)
  show ?thesis
  proof (cases "argument = ''--config''")
    case True
    then have "option = ''--config''" using assms(1) by simp
    with True show ?thesis
      by (simp only: apply_option_def option_effect_def ReadOptionValue_def simp_thms if_True)
  next
    case False
    have matches: "MatchesOption argument ''--config'' = (option = ''--config'')"
      "MatchesOption argument ''--host'' = (option = ''--host'')" "MatchesOption argument ''--port'' = (option = ''--port'')"
      "MatchesOption argument ''--poller'' = (option = ''--poller'')"
      "MatchesOption argument ''--sub-reactors'' = (option = ''--sub-reactors'')"
      "MatchesOption argument ''--log-level'' = (option = ''--log-level'')"
      by (rule key, simp add: value_options_def)+
    have "option = ''--config'' \<or> option = ''--host'' \<or> option = ''--port'' \<or> option = ''--poller'' \<or>
        option = ''--sub-reactors'' \<or> option = ''--log-level''"
      using assms(2) by (simp only: value_options_def list.set insert_iff empty_iff simp_thms)
    then show ?thesis unfolding apply_option_def option_effect_def matches by (elim disjE) (simp_all add: False c)
  qed
qed



lemma all_digits: "\<forall>c \<in> set t. IsDigit c \<Longrightarrow> takeWhile IsDigit t = t" "\<forall>c \<in> set t. IsDigit c \<Longrightarrow> dropWhile IsDigit t = []"
  by (simp_all add: takeWhile_eq_all_conv)

lemma from_chars_digits:
  assumes "t \<noteq> []" "\<forall>c \<in> set t. IsDigit c"
  shows "from_chars b lo hi t = (if lo \<le> dec_value 0 t \<and> dec_value 0 t \<le> hi then Some (dec_value 0 t, []) else None)"
proof -
  have "hd t \<noteq> CHR ''-''" using assms by (cases t) (auto simp: IsDigit_def)
  then show ?thesis using assms(1) by (simp add: from_chars_def Let_def all_digits [OF assms(2)])
qed

lemma from_chars_negative:
  assumes "t \<noteq> []" "\<forall>c \<in> set t. IsDigit c"
  shows "from_chars True lo hi (CHR ''-'' # t) =
    (if lo \<le> - dec_value 0 t \<and> - dec_value 0 t \<le> hi then Some (- dec_value 0 t, []) else None)"
  using assms(1) by (simp add: from_chars_def Let_def all_digits [OF assms(2)])

lemma nat_to_string_IsDigit: "\<forall>c \<in> set (nat_to_string n). IsDigit c"
  using nat_to_string_digits by (auto simp: IsDigit_def)

text \<open>The integers of the command line are read exactly: the decimal text of a number in the
  range of the type gives that number and one outside it is refused; and what is read at all is in the
  range, so that \<^verbatim>\<open>--port\<close> cannot wrap around.\<close>

theorem parse_integer_exact:
  "(ParseInteger_int (int_to_string i) option = Inr i \<longleftrightarrow> - (2 ^ 31) \<le> i \<and> i < 2 ^ 31) \<and>
   (ParseInteger_size (nat_to_string n) option = Inr (int n) \<longleftrightarrow> n < 2 ^ 64) \<and>
   (\<forall>t v. ParseInteger_int t option = Inr v \<longrightarrow> - (2 ^ 31) \<le> v \<and> v < 2 ^ 31) \<and>
   (\<forall>t v. ParseInteger_size t option = Inr v \<longrightarrow> 0 \<le> v \<and> v < 2 ^ 64)"
proof (intro conjI allI impI)
  note d = nat_to_string_nonempty nat_to_string_IsDigit nat_to_string_value
  show "ParseInteger_int (int_to_string i) option = Inr i \<longleftrightarrow> - (2 ^ 31) \<le> i \<and> i < 2 ^ 31"
    by (auto simp: ParseInteger_int_def ParseInteger_def int_to_string_def from_chars_digits from_chars_negative d)
  show "ParseInteger_size (nat_to_string n) option = Inr (int n) \<longleftrightarrow> n < 2 ^ 64"
    by (auto simp: ParseInteger_size_def ParseInteger_def from_chars_digits d SIZE_MAX_def)
next
  fix t v
  show "- (2 ^ 31) \<le> v" "v < 2 ^ 31" if "ParseInteger_int t option = Inr v"
    using that by (auto simp: ParseInteger_int_def ParseInteger_def from_chars_def Let_def
        split: option.splits list.splits if_splits)
  show "0 \<le> v" "v < 2 ^ 64" if "ParseInteger_size t option = Inr v"
    using that by (auto simp: ParseInteger_size_def ParseInteger_def from_chars_def Let_def SIZE_MAX_def
        split: option.splits list.splits if_splits)
qed

theorem parse_integer_exact_witness:
  "ParseInteger_int ''80'' ''--port'' = Inr 80"
proof -
  have "int_to_string 80 = ''80''" by code_simp
  with conjunct1 [OF parse_integer_exact [of 80 "''--port''" 0]] show ?thesis by simp
qed

end
