(* ===== verification/Server_Main.thy ===== *)
theory Server_Main
  imports Server_Properties Config_Properties
begin

text \<open>
  The process of the server (\<^verbatim>\<open>app/server_main.cpp\<close>): configuration, server and signal handler from
  their construction to their destruction, and what a termination signal does to the running server.
  The messages of the logger are left out.
\<close>

section \<open>The lifetime of the server\<close>

definition StopNotificationFd :: "TcpServer \<Rightarrow> int" where
  "StopNotificationFd s = wk_writeFd (s_stopWakeup s)"

text \<open>The destructor: \<open>Stop\<close>, the join of the sweeper, and the members in the reverse order of their
  declaration.\<close>

definition TcpServer_destroy :: "nat sysret list \<Rightarrow> TcpServer \<Rightarrow> TcpServer option" where
  "TcpServer_destroy writes s =
     map_option (\<lambda>s.
       let s = StopSweeperThread s;
           s = s\<lparr>s_closedFds := s_closedFds s @ concat (map reactor_fds (s_subReactors s)), s_subReactors := []\<rparr>;
           s = s\<lparr>s_closedFds := WakeupChannel_destroy (s_stopWakeup s) (s_closedFds s)\<rparr>;
           s = s\<lparr>s_poller := None\<rparr>;
           (fd, closed) = ScopedFd_destroy (s_listenFd s) (s_closedFds s)
       in s\<lparr>s_listenFd := fd, s_closedFds := closed\<rparr>)
       (TcpServer_Stop writes s)"

text \<open>What the calls of \<open>main\<close> return: those of the channel of the server, of \<open>sigaction\<close>, of \<open>Run\<close>, and of
  \<open>Stop\<close> in the destructor.\<close>

record main_calls =
  mc_pair :: "(int \<times> int) sysret"
  mc_flags :: FdFlags
  mc_sigaction :: "signal \<Rightarrow> int option"
  mc_run :: run_calls
  mc_ctl :: ctl_oracle
  mc_inputs :: "main_input list"
  mc_force_writes :: "nat sysret list list"
  mc_joined :: "nat \<Rightarrow> SubReactor \<Rightarrow> SubReactor"
  mc_stop_writes :: "nat sysret list"

text \<open>How the block of \<open>main\<close> is left: normally or by an exception, with the actions of the signals and
  the sockets opened and closed.\<close>

record main_left =
  ml_result :: "unit result"
  ml_world :: SignalWorld
  ml_opened :: "int list"
  ml_closed :: "int list"

definition pair_fds :: "(int \<times> int) sysret \<Rightarrow> int list" where
  "pair_fds pair = (case pair of Ret (readFd, writeFd) \<Rightarrow> [readFd, writeFd] | Fail errno \<Rightarrow> [])"

text \<open>The server is destroyed after the block has ended; \<open>None\<close> while \<open>write\<close> is still interrupted.\<close>

definition leave_main :: "main_calls \<Rightarrow> unit result \<Rightarrow> SignalWorld \<Rightarrow> TcpServer \<Rightarrow> main_left option" where
  "leave_main calls res world server =
     map_option (\<lambda>server. \<lparr>ml_result = res, ml_world = world, ml_opened = pair_fds (mc_pair calls) @ s_openedFds server,
       ml_closed = s_closedFds server\<rparr>) (TcpServer_destroy (mc_stop_writes calls) server)"

definition serve :: "main_calls \<Rightarrow> AppConfig \<Rightarrow> SignalWorld \<Rightarrow> main_left option" where
  "serve calls config world =
     (case WakeupChannel_init (mc_pair calls) (rc_fcntl (mc_run calls)) (mc_flags calls) of
        (Inl e, closedFds) \<Rightarrow>
          Some \<lparr>ml_result = Inl e, ml_world = world, ml_opened = pair_fds (mc_pair calls), ml_closed = closedFds\<rparr>
      | (Inr (wakeup, flags), _) \<Rightarrow>
          case TcpServer_init wakeup flags (host config) (port config) (sweepInterval config) (network config)
                 (reactor config) (shutdown config) of
            Inl e \<Rightarrow>
              Some \<lparr>ml_result = Inl e, ml_world = world, ml_opened = pair_fds (mc_pair calls),
                ml_closed = WakeupChannel_destroy wakeup []\<rparr>
          | Inr server \<Rightarrow>
              case TerminationSignalHandler_init (mc_sigaction calls) (StopNotificationFd server) world of
                (Inl e, world) \<Rightarrow> leave_main calls (Inl e) world server
              | (Inr signals, world) \<Rightarrow>
                  let (res, server) = TcpServer_Run (mc_run calls) (mc_ctl calls) (mc_inputs calls)
                        (mc_force_writes calls) (mc_joined calls) server
                  in case res of
                       Inl e \<Rightarrow>
                         if is_std_exception e
                         then leave_main calls (Inl e) (TerminationSignalHandler_destroy signals world) server
                         else None
                     | Inr _ \<Rightarrow> leave_main calls (Inr ()) (TerminationSignalHandler_destroy signals world) server)"

section \<open>The process\<close>

abbreviation newline :: string where "newline \<equiv> [CHR 0x0A]"

definition PrintUsage :: "string \<Rightarrow> string" where
  "PrintUsage program =
     ''Usage: '' @ program @ '' [options]'' @ newline @ newline @
     ''Options:'' @ newline @
     ''  -c, --config <path>       Configuration file'' @ newline @
     ''      --host <address>      Listen address'' @ newline @
     ''      --port <port>         Listen port'' @ newline @
     ''      --poller <backend>    auto|poll|epoll'' @ newline @
     ''      --sub-reactors <n>    0=auto, 1-16=explicit'' @ newline @
     ''      --log-level <level>   debug|info|warn|error'' @ newline @
     ''  -h, --help                Show this help'' @ newline"

record main_end =
  me_exit :: int
  me_out :: string
  me_err :: string
  me_logger :: Logger
  me_world :: SignalWorld
  me_opened :: "int list"
  me_closed :: "int list"

definition start_error :: "(int \<Rightarrow> string) \<Rightarrow> cpp_exception \<Rightarrow> string" where
  "start_error strerror e = ''tinykv_server start error: '' @ exception_what strerror e @ newline"

definition server_main ::
  "'n toml \<Rightarrow> nat \<Rightarrow> (string \<Rightarrow> 'n table result) \<Rightarrow> (int \<Rightarrow> string) \<Rightarrow> main_calls \<Rightarrow> string list \<Rightarrow> Logger \<Rightarrow> SignalWorld \<Rightarrow>
   main_end option" where
  "server_main toml hw parse_file strerror calls argv logger world =
     (case server_config toml hw parse_file argv of
        Inl e \<Rightarrow>
          if is_std_exception e
          then Some \<lparr>me_exit = 1, me_out = [], me_err = start_error strerror e, me_logger = logger, me_world = world,
                 me_opened = [], me_closed = []\<rparr>
          else None
      | Inr None \<Rightarrow>
          Some \<lparr>me_exit = 0, me_out = PrintUsage (hd argv), me_err = [], me_logger = logger, me_world = world,
            me_opened = [], me_closed = []\<rparr>
      | Inr (Some config) \<Rightarrow>
          map_option (\<lambda>left.
            \<lparr>me_exit = (case ml_result left of Inl e \<Rightarrow> 1 | Inr _ \<Rightarrow> 0),
             me_out = ''[Server Config Info]'' @ BuildConfigStr config @ newline,
             me_err = (case ml_result left of Inl e \<Rightarrow> start_error strerror e | Inr _ \<Rightarrow> []),
             me_logger = SetLevel (logLevel config) logger,
             me_world = ml_world left, me_opened = ml_opened left, me_closed = ml_closed left\<rparr>)
            (serve calls config world))"

section \<open>The channel of the server\<close>

text \<open>No step of \<open>Run\<close> replaces the channel.\<close>

definition keeps_ends :: "WakeupChannel \<Rightarrow> TcpServer \<Rightarrow> bool" where
  "keeps_ends w s \<longleftrightarrow> same_ends w (s_stopWakeup s)"

named_theorems ends_intros \<open>the steps of the main reactor keep the ends of its channel\<close>

lemma keeps_ends_frame [ends_intros]:
  "keeps_ends w s \<Longrightarrow> s_stopWakeup t = s_stopWakeup s \<Longrightarrow> ends_in (keeps_ends w) (m, t)"
  by (auto simp: keeps_ends_def intro: ends_in_any)

lemma keeps_ends_opened [simp]: "keeps_ends w (s\<lparr>s_openedFds := fds\<rparr>) = keeps_ends w s"
  by (simp add: keeps_ends_def)

lemma hand_over_ends [ends_intros]:
  "keeps_ends w s \<Longrightarrow> ends_in (keeps_ends w) (hand_over fcntl writes fd s)"
  by (auto simp: hand_over_def keeps_ends_def Let_def split: sum.splits option.splits prod.splits)

lemma accept_loop_ends:
  "keeps_ends w s \<Longrightarrow> ends_in (keeps_ends w) (accept_loop fcntl writes accepts n s)"
proof (induction accepts arbitrary: n s)
  case Nil
  then show ?case by (subst accept_loop.simps) (auto intro: ends_in_any)
next
  case (Cons r accepts)
  then show ?case
    by (subst accept_loop.simps)
      (auto simp: Let_def split: sysret.split intro!: ends_in_bind hand_over_ends intro: ends_in_any)
qed

lemma listen_events_ends [ends_intros]:
  "keeps_ends w s \<Longrightarrow> ends_in (keeps_ends w) (listen_events inp evs s)"
  by (induction evs arbitrary: s) (auto simp: AcceptNewClients_def intro!: ends_in_bind accept_loop_ends)

lemma drop_listener_ends: "keeps_ends w s \<Longrightarrow> ends_in (keeps_ends w) (drop_listener ctl s)"
  by (auto simp: drop_listener_def keeps_ends_def Let_def split: option.splits prod.splits)

lemma stop_reactors_ends: "keeps_ends w s \<Longrightarrow> ends_in (keeps_ends w) (stop_reactors writes s)"
  by (auto simp: stop_reactors_def keeps_ends_def split: option.splits)

lemma BeginGraceful_ends [ends_intros]:
  "keeps_ends w s \<Longrightarrow> ends_in (keeps_ends w) (Server_BeginGracefulShutdown ctl writes now s)"
  unfolding Server_BeginGracefulShutdown_def Let_def
  by (auto intro!: ends_in_bind drop_listener_ends stop_reactors_ends simp: keeps_ends_def)

lemma CheckProgress_ends [ends_intros]:
  "keeps_ends w s \<Longrightarrow> ends_in (keeps_ends w) (Server_CheckShutdownProgress writes now s)"
  by (auto simp: Server_CheckShutdownProgress_def keeps_ends_def Let_def split: option.splits)

lemma stop_event_ends [ends_intros]:
  "keeps_ends w s \<Longrightarrow> ends_in (keeps_ends w) (stop_event inp s)"
  by (auto simp: stop_event_def keeps_ends_def Let_def split: option.splits sum.splits
      dest: Drain_ends)

lemma main_round_ends: "keeps_ends w s \<Longrightarrow> ends_in (keeps_ends w) (main_round ctl inp s)"
  unfolding main_round_def CheckSubReactorHealth_def by (auto intro!: ends_in_bind ends_intros)

lemma stop_calls_ends: "stop_calls writes s = Some t \<Longrightarrow> keeps_ends w s \<Longrightarrow> keeps_ends w t"
proof (induction writes arbitrary: s)
  case (Cons rs writes)
  then obtain u where u: "TcpServer_Stop rs s = Some u" "stop_calls writes u = Some t"
    by (auto simp: bind_eq_Some_conv)
  then have "keeps_ends w u" using Cons.prems(2)
    by (auto simp: TcpServer_Stop_def keeps_ends_def dest: Notify_ends)
  with Cons.IH u(2) show ?case by blast
qed simp

lemma main_loop_ends: "keeps_ends w s \<Longrightarrow> ends_in (keeps_ends w) (main_loop ctl inps s)"
proof (induction inps arbitrary: s)
  case Nil
  then show ?case by (subst main_loop.simps) (simp split: if_splits)
next
  case (Cons inp inps)
  have "ends_in (keeps_ends w) (bind_served (main_round ctl inp (reactors_progress (mi_reactors inp) t)) (\<lambda>_ s. main_loop ctl inps s))"
    if "stop_calls (mi_stops inp) s = Some t" for t
    using stop_calls_ends [OF that Cons.prems]
    by (intro ends_in_bind main_round_ends Cons.IH) (simp_all add: reactors_progress_def keeps_ends_def)
  with Cons.prems show ?case by (subst main_loop.simps) (auto split: option.split)
qed

lemma create_reactors_ends: "keeps_ends w s \<Longrightarrow> ends_in (keeps_ends w) (create_reactors calls is s)"
  by (induction "is" arbitrary: s) (auto simp: keeps_ends_def split: sum.splits prod.splits)

lemma start_reactors_ends: "keeps_ends w s \<Longrightarrow> ends_in (keeps_ends w) (start_reactors calls ctl is s)"
proof (induction "is" arbitrary: s)
  case (Cons i js)
  then show ?case
    by (auto simp: Let_def keeps_ends_def split: prod.splits intro!: ends_in_bind ends_in_any)
qed simp

lemma run_start_ends: "keeps_ends w s \<Longrightarrow> ends_in (keeps_ends w) (run_start calls ctl s)"
proof -
  assume s: "keeps_ends w s"
  have listen: "ends_in (keeps_ends w) (open_listener calls t)" if "keeps_ends w t" for t
    using that by (auto simp: open_listener_def keeps_ends_def Let_def split: sum.splits prod.splits)
  have add: "ends_in (keeps_ends w) (main_poller_add ctl fd t)" if "keeps_ends w t" for fd t
    using that by (auto simp: main_poller_add_def keeps_ends_def Let_def split: prod.splits option.splits)
  have sweeper: "ends_in (keeps_ends w) (StartSweeperThread thread t)" if "keeps_ends w t" for thread t
    using that by (auto simp: StartSweeperThread_def keeps_ends_def Let_def split: option.splits)
  have "keeps_ends w (s\<lparr>s_poller := p\<rparr>)" for p using s by (simp add: keeps_ends_def)
  then show ?thesis unfolding run_start_def using s
    by (auto split: sum.splits intro!: ends_in_bind listen add create_reactors_ends start_reactors_ends sweeper)
      (simp add: keeps_ends_def)
qed

lemma Cleanup_wakeup: "s_stopWakeup (CleanupMainReactor ctl s) = s_stopWakeup s"
  by (auto simp: CleanupMainReactor_def Let_def split: option.splits prod.splits)

lemma Run_ends:
  assumes "TcpServer_Run calls ctl inps writes joined s = (res, t)"
    and "case res of Inl e \<Rightarrow> is_std_exception e | Inr u \<Rightarrow> True"
  shows "same_ends (s_stopWakeup s) (s_stopWakeup t)"
proof (cases "s_state s = Created")
  case True
  let ?m = "bind_served (run_start calls ctl s) (\<lambda>_ s. main_loop ctl inps s)"
  have "ends_in (keeps_ends (s_stopWakeup s)) ?m"
    by (intro ends_in_bind run_start_ends main_loop_ends) (simp_all add: keeps_ends_def)
  moreover obtain r u where u: "?m = (r, u)" by fastforce
  ultimately have ends: "ends_in (keeps_ends (s_stopWakeup s)) (r, u)" by simp
  show ?thesis
  proof (cases r)
    case (Inl e)
    then have e: "is_std_exception e" using assms True u by (auto simp: TcpServer_Run_def split: if_splits)
    then obtain v where "ForceStopAndJoinSubReactors writes joined (StopSweeperThread u) = Some v" "t = run_finish ctl v"
      using assms True u Inl by (auto simp: TcpServer_Run_def Let_def split: option.splits)
    with ends Inl e show ?thesis
      by (auto simp: ForceStopAndJoinSubReactors_def StopSweeperThread_def JoinSubReactors_def reactors_progress_def
          run_finish_def Cleanup_wakeup keeps_ends_def split: option.splits)
  next
    case (Inr x)
    with assms True u ends show ?thesis
      by (auto simp: TcpServer_Run_def StopSweeperThread_def JoinSubReactors_def reactors_progress_def
          run_finish_def Cleanup_wakeup keeps_ends_def)
  qed
qed (use assms in \<open>simp add: TcpServer_Run_def\<close>)

section \<open>What the process leaves behind\<close>

text \<open>The descriptors of the channel are valid.\<close>

definition pair_ok :: "main_calls \<Rightarrow> bool" where
  "pair_ok calls \<longleftrightarrow> list_all (\<lambda>fd. 0 \<le> fd) (pair_fds (mc_pair calls))"

text \<open>A server that holds no socket but its channel.\<close>

definition only_channel :: "main_calls \<Rightarrow> TcpServer \<Rightarrow> bool" where
  "only_channel calls s \<longleftrightarrow> s_listenFd s = INVALID_FD \<and> s_subReactors s = [] \<and>
     mset (s_closedFds s) = mset (s_openedFds s) \<and>
     mc_pair calls = Ret (wk_readFd (s_stopWakeup s), wk_writeFd (s_stopWakeup s))"

lemma channel_destroy:
  assumes "pair_ok calls" "mc_pair calls = Ret (wk_readFd w, wk_writeFd w)"
  shows "mset (WakeupChannel_destroy w closedFds) = mset closedFds + mset (pair_fds (mc_pair calls))"
  using assms by (simp add: pair_ok_def pair_fds_def WakeupChannel_destroy_def ScopedFd_defs)

lemma leave_main_releases:
  assumes "leave_main calls res world server = Some left" "only_channel calls server" "pair_ok calls"
  shows "ml_result left = res \<and> ml_world left = world \<and> mset (ml_closed left) = mset (ml_opened left)"
proof -
  obtain w where w: "Notify (mc_stop_writes calls) (s_stopWakeup server) = Some w"
    using assms(1) by (auto simp: leave_main_def TcpServer_destroy_def TcpServer_Stop_def)
  have "mset (WakeupChannel_destroy w (s_closedFds server)) = mset (s_closedFds server) + mset (pair_fds (mc_pair calls))"
    by (rule channel_destroy [OF assms(3)]) (use assms(2) Notify_ends [OF w] in \<open>simp add: only_channel_def\<close>)
  with assms(1,2) w show ?thesis
    by (auto simp: leave_main_def TcpServer_destroy_def TcpServer_Stop_def only_channel_def StopSweeperThread_def
        ScopedFd_defs Let_def)
qed


lemma WakeupChannel_init_cases:
  assumes "WakeupChannel_init pair fcntl k = (r, closedFds)" "list_all (\<lambda>fd. 0 \<le> fd) (pair_fds pair)"
  shows "case r of
      Inl e \<Rightarrow> mset closedFds = mset (pair_fds pair) \<and> is_std_exception e
    | Inr (w, k') \<Rightarrow> pair = Ret (wk_readFd w, wk_writeFd w)"
  using assms
  by (auto simp: WakeupChannel_init_def pair_fds_def ScopedFd_defs SetNonBlocking_def SetCloseOnExec_def result_simps
      split: sysret.splits sum.splits prod.splits option.splits)

lemma TcpServer_init_cases:
  "case TcpServer_init wakeup flags hostname portnumber interval nopts ropts sopts of
     Inl e \<Rightarrow> is_std_exception e
   | Inr s \<Rightarrow> s_stopWakeup s = wakeup \<and> s_listenFd s = INVALID_FD \<and> s_subReactors s = [] \<and>
       s_closedFds s = [] \<and> s_openedFds s = []"
  by (auto simp: TcpServer_init_def)

lemma handler_init_cases:
  assumes "TerminationSignalHandler_init fails fd w = (r, w')" "G_NOTIFY_FD w = - 1"
  shows "case r of
      Inl e \<Rightarrow> is_std_exception e \<and> w' = w
    | Inr handler \<Rightarrow> TerminationSignalHandler_destroy handler w' = w"
  using assms
  by (auto simp: TerminationSignalHandler_init_def TerminationSignalHandler_destroy_def Let_def fun_eq_iff
      intro!: SignalWorld.equality split: option.splits if_splits)

text \<open>The constraints on what the calls of \<open>main\<close> return: descriptors are valid, and the threads of the
  reactors keep the descriptors they own.\<close>

definition main_calls_ok :: "main_calls \<Rightarrow> bool" where
  "main_calls_ok calls \<longleftrightarrow> pair_ok calls \<and> socket_ok (mc_run calls) \<and> list_all input_ok (mc_inputs calls) \<and>
     threads_keep (mc_joined calls)"

definition released :: "SignalWorld \<Rightarrow> main_left \<Rightarrow> bool" where
  "released world left \<longleftrightarrow> ml_world left = world \<and> mset (ml_closed left) = mset (ml_opened left)"

text \<open>The ways in which \<open>main\<close> has not returned yet: \<open>Run\<close> of its server still waits, or the \<open>write\<close> of the
  destructor is still interrupted.\<close>

definition still_running :: "main_calls \<Rightarrow> AppConfig \<Rightarrow> bool" where
  "still_running calls config \<longleftrightarrow> (\<forall>r \<in> set (mc_stop_writes calls). r = Fail EINTR) \<or>
     (\<exists>wakeup flags server e t.
        TcpServer_init wakeup flags (host config) (port config) (sweepInterval config) (network config) (reactor config)
          (shutdown config) = Inr server \<and>
        TcpServer_Run (mc_run calls) (mc_ctl calls) (mc_inputs calls) (mc_force_writes calls) (mc_joined calls) server =
          (Inl e, t) \<and> \<not> is_std_exception e)"

abbreviation ends_released :: "main_calls \<Rightarrow> AppConfig \<Rightarrow> SignalWorld \<Rightarrow> main_left option \<Rightarrow> bool" where
  "ends_released calls config world m \<equiv> (case m of None \<Rightarrow> still_running calls config | Some left \<Rightarrow> released world left)"

lemma Notify_interrupted: "Notify writes w = None \<Longrightarrow> \<forall>r \<in> set writes. r = Fail EINTR"
  by (induction writes w rule: Notify.induct) (auto split: if_splits)

lemma leave_main_ends:
  assumes "only_channel calls server" "pair_ok calls"
  shows "ends_released calls config world (leave_main calls res world server)"
proof (cases "leave_main calls res world server")
  case None
  then show ?thesis by (simp add: still_running_def leave_main_def TcpServer_destroy_def TcpServer_Stop_def Notify_interrupted)
next
  case (Some left)
  then show ?thesis using leave_main_releases [OF Some assms] by (simp add: released_def)
qed

lemma run_ends:
  assumes "main_calls_ok calls" "mc_pair calls = Ret (wk_readFd wakeup, wk_writeFd wakeup)"
    and "TcpServer_init wakeup flags (host config) (port config) (sweepInterval config) (network config) (reactor config)
          (shutdown config) = Inr server"
    and "TcpServer_Run (mc_run calls) (mc_ctl calls) (mc_inputs calls) (mc_force_writes calls) (mc_joined calls) server = (res, t)"
  shows "ends_released calls config world (case res of
      Inl e \<Rightarrow> if is_std_exception e then leave_main calls (Inl e) world t else None
    | Inr _ \<Rightarrow> leave_main calls (Inr ()) world t)"
proof (cases "case res of Inl e \<Rightarrow> is_std_exception e | Inr u \<Rightarrow> True")
  case True
  have ok: "pair_ok calls" "socket_ok (mc_run calls)" "list_all input_ok (mc_inputs calls)" "threads_keep (mc_joined calls)"
    using assms(1) by (simp_all add: main_calls_ok_def)
  have "only_channel calls t"
    using run_closes_all [OF assms(3) ok(2-4) assms(4) True] Run_ends [OF assms(4) True] assms(2,3)
      TcpServer_init_cases [of wakeup flags "host config" "port config" "sweepInterval config" "network config"
        "reactor config" "shutdown config"]
    by (simp add: only_channel_def)
  with True leave_main_ends [OF _ ok(1)] show ?thesis by (cases res) simp_all
next
  case False
  then obtain e where e: "res = Inl e" "\<not> is_std_exception e" by (cases res) auto
  with assms(3,4) have "still_running calls config" unfolding still_running_def by blast
  with e show ?thesis by simp
qed

lemma serve_ends:
  assumes "main_calls_ok calls" "G_NOTIFY_FD world = - 1"
  shows "ends_released calls config world (serve calls config world)"
proof -
  obtain r closedFds where r: "WakeupChannel_init (mc_pair calls) (rc_fcntl (mc_run calls)) (mc_flags calls) = (r, closedFds)"
    by fastforce
  have ok: "pair_ok calls" using assms(1) by (simp add: main_calls_ok_def)
  note channel = WakeupChannel_init_cases [OF r ok [unfolded pair_ok_def]]
  show ?thesis
  proof (cases r)
    case (Inl e)
    with channel r show ?thesis by (simp add: serve_def released_def)
  next
    case (Inr wk)
    obtain wakeup flags where wk: "wk = (wakeup, flags)" by fastforce
    have pair: "mc_pair calls = Ret (wk_readFd wakeup, wk_writeFd wakeup)" using channel Inr wk by simp
    note start = TcpServer_init_cases [of wakeup flags "host config" "port config" "sweepInterval config" "network config"
        "reactor config" "shutdown config"]
    show ?thesis
    proof (cases "TcpServer_init wakeup flags (host config) (port config) (sweepInterval config) (network config)
        (reactor config) (shutdown config)")
      case (Inl e)
      then show ?thesis using r Inr wk channel_destroy [OF ok pair, of "[]"] by (simp add: serve_def released_def)
    next
      case init: (Inr server)
      have new: "only_channel calls server" using start init pair by (simp add: only_channel_def)
      obtain h world' where h: "TerminationSignalHandler_init (mc_sigaction calls) (StopNotificationFd server) world = (h, world')"
        by fastforce
      obtain res t where run: "TcpServer_Run (mc_run calls) (mc_ctl calls) (mc_inputs calls) (mc_force_writes calls)
          (mc_joined calls) server = (res, t)" by fastforce
      show ?thesis using r Inr wk init h run handler_init_cases [OF h assms(2)] leave_main_ends [OF new ok]
          run_ends [OF assms(1) pair init run, of world]
        by (cases h; cases res) (auto simp: serve_def split: if_splits)
    qed
  qed
qed

text \<open>What \<open>main\<close> throws before the server is made is caught.\<close>

named_theorems throws_intros \<open>operations that throw standard exceptions only\<close>

definition throws_std :: "'a result \<Rightarrow> bool" where
  "throws_std r \<longleftrightarrow> (case r of Inl e \<Rightarrow> is_std_exception e | Inr a \<Rightarrow> True)"

lemma throws_std_simps [simp]: "throws_std (Inr a)" "throws_std (Inl e) = is_std_exception e"
  by (simp_all add: throws_std_def)

lemma throws_std_bind [throws_intros]:
  "throws_std m \<Longrightarrow> (\<And>a. throws_std (f a)) \<Longrightarrow> throws_std (bind_result m f)"
  by (cases m) simp_all

lemma throws_std_if_present [throws_intros]:
  "throws_std r \<Longrightarrow> (\<And>x c. throws_std (assign x c)) \<Longrightarrow> throws_std (if_present r assign c)"
  unfolding if_present_def by (rule throws_std_bind) (simp_all split: option.split)

lemma parse_throws [throws_intros]:
  "throws_std (ParsePollerBackend v)" "throws_std (ParseLogLevel v)" "throws_std (ToSize n name)" "throws_std (Validate c)"
  "throws_std (ParseInteger_int v opt)" "throws_std (ParseInteger_size v opt)" "throws_std (RequireNextValue opt args)"
  "throws_std (NeedShowHelp argv)"
  by (simp_all add: ParsePollerBackend_def ParseLogLevel_def ToSize_def Validate_def ParseInteger_int_def
      ParseInteger_size_def ParseInteger_def RequireNextValue_def NeedShowHelp_def Let_def split: option.split list.split)

lemma read_throws [throws_intros]:
  "throws_std (ReadString toml doc section key)" "throws_std (ReadInteger toml doc section key)"
  "throws_std (ReadOptionValue argument opt args)"
  by (auto simp: ReadString_def ReadInteger_def FindNode_def FindTable_def ReadOptionValue_def ParseInlineValue_def Let_def
      intro!: throws_intros split: option.split)

lemma readers_throw [throws_intros]:
  "throws_std (ReadServerConfig toml table c)" "throws_std (ReadNetworkConfig toml hw table c)"
  "throws_std (read_limit toml table key setter c)" "throws_std (ReadShutdownConfig toml table c)"
  "throws_std (ReadTTLConfig toml table c)" "throws_std (ReadLogConfig toml table c)"
  by (auto simp: ReadServerConfig_def ReadNetworkConfig_def read_limit_def ReadShutdownConfig_def ReadTTLConfig_def
      ReadLogConfig_def Let_def intro!: throws_intros)

lemma ReadReactorConfig_throws [throws_intros]: "throws_std (ReadReactorConfig toml table c)"
  unfolding ReadReactorConfig_def by (intro throws_intros)

lemma LoadFromFile_throws:
  "(\<And>path. throws_std (parse_file path)) \<Longrightarrow> throws_std (LoadFromFile toml hw parse_file path)"
  unfolding LoadFromFile_def Let_def by (intro throws_intros) simp_all

lemma FindConfigPath_throws [throws_intros]: "throws_std (FindConfigPath argv)"
proof -
  have "throws_std (FindConfigPath_loop path args)" for path args
  proof (induction path args rule: FindConfigPath_loop.induct)
    case (2 configPath argument args)
    have "RequireNextValue opt args = Inl e \<Longrightarrow> is_std_exception e"
      "ReadOptionValue arg opt args = Inl e \<Longrightarrow> is_std_exception e" for arg opt e
      using parse_throws(7) [of opt args] read_throws(3) [of arg opt args] by simp_all
    with 2 show ?case by (auto split: sum.split)
  qed simp
  then show ?thesis by (simp add: FindConfigPath_def)
qed

lemma apply_option_throws: "throws_std (apply_option hw argument args c)"
  unfolding apply_option_def Let_def
  by (simp only: if_split) (auto intro!: throws_intros)

lemma ApplyCommandLineOverrides_throws [throws_intros]: "throws_std (ApplyCommandLineOverrides hw argv c)"
proof -
  have "throws_std (apply_options hw args c)" for args c
  proof (induction hw args c rule: apply_options.induct)
    case (2 hw argument args c)
    then show ?case using apply_option_throws [of hw argument args c] by (auto split: sum.split)
  qed simp
  then show ?thesis by (simp add: ApplyCommandLineOverrides_def)
qed

lemma server_config_throws:
  "(\<And>path. throws_std (parse_file path)) \<Longrightarrow> throws_std (server_config toml hw parse_file argv)"
  unfolding server_config_def Let_def
  by (auto intro!: throws_intros LoadFromFile_throws split: option.split)


text \<open>The server of \<^verbatim>\<open>tinykv_server --poller=poll --sub-reactors=1\<close>, which accepts the client 7 and then runs
  out of descriptors.\<close>

definition demo_main_config :: AppConfig where
  "demo_main_config = AppConfig_default\<lparr>reactor := \<lparr>pollerBackend = Poll, subReactorCount = 1\<rparr>\<rparr>"

definition demo_main_calls :: main_calls where
  "demo_main_calls = \<lparr>mc_pair = Ret (10, 11), mc_flags = \<lparr>status_flags = (\<lambda>_. 0), descriptor_flags = (\<lambda>_. 0)\<rparr>,
     mc_sigaction = (\<lambda>_. None), mc_run = demo_calls, mc_ctl = (\<lambda>_ _ _ _. None), mc_inputs = [demo_round],
     mc_force_writes = [[Ret 1]],
     mc_joined = (\<lambda>i. EventLoop LittleEndian (\<lambda>_ _ _ _. None) NetworkOptions_default []), mc_stop_writes = [Ret 1]\<rparr>"

definition demo_world :: SignalWorld where
  "demo_world = \<lparr>G_NOTIFY_FD = - 1, dispositions = (\<lambda>_. OtherAction 0)\<rparr>"

lemma demo_main_configured:
  "server_config no_toml 8 (\<lambda>_. Inr Map.empty) [''tinykv_server'', ''--poller=poll'', ''--sub-reactors=1''] =
     Inr (Some demo_main_config)"
  by (simp add: server_config_def NeedShowHelp_def FindConfigPath_def MatchesOption_def StartsWith_def
      ApplyCommandLineOverrides_def apply_option_def ReadOptionValue_def ParseInlineValue_def ParsePollerBackend_def
      ParseInteger_size_def ParseInteger_def from_chars_def IsDigit_def SIZE_MAX_def demo_main_config_def
      AppConfig_default_def auto_sub_reactors_def Validate_def NetworkOptions_default_def)

lemma demo_main_ok: "main_calls_ok demo_main_calls"
  using EventLoop_threads_keep [of LittleEndian "\<lambda>_ _ _ _. None" NetworkOptions_default "\<lambda>_. []"]
  by (auto simp: main_calls_ok_def demo_main_calls_def pair_ok_def pair_fds_def socket_ok_def demo_calls_def input_ok_def
      demo_round_def accepts_ok_def)

lemma demo_main_value:
  "\<exists>left. serve demo_main_calls demo_main_config demo_world = Some left \<and>
     ml_result left = Inl (SystemError ''accept failed'' 24) \<and> ml_opened left = [10, 11, 5, 7]"
  by (simp add: serve_def demo_main_calls_def demo_main_config_def demo_world_def AppConfig_default_def
      TerminationSignalHandler_init_def TerminationSignalHandler_destroy_def StopNotificationFd_def
      leave_main_def TcpServer_destroy_def TcpServer_Stop_def pair_fds_def WakeupChannel_destroy_def
      demo_calls_def demo_round_def TcpServer_init_def NetworkOptions_default_def
      TcpServer_Run_def run_start_def CreatePoller_def open_listener_def CreateListenSocket_def fresh_socket_def
      SetNonBlocking_def SetCloseOnExec_def main_poller_add_def PollPoller_Add_def PollPoller_init_def ValidateInterests_def
      IoEvent_defs WakeupChannel_init_def SubReactor_init_def Start_def PublishState_def StartSweeperThread_def
      main_loop.simps reactors_progress_def main_round_def stop_event_def CheckSubReactorHealth_def HasFailed_def
      AcceptNewClients_def accept_loop.simps hand_over_def EnqueClient_def EnqueClient_locked_def notify_control_def
      HasIoEvent_def ScopedFd_defs EINTR_def EAGAIN_def EWOULDBLOCK_def StopSweeperThread_def
      ForceStopAndJoinSubReactors_def JoinSubReactors_def ForceStop_def ForceStop_locked_def run_finish_def
      CleanupMainReactor_def PollPoller_Remove_def reactor_fds_def)


section \<open>Termination signals\<close>

text \<open>What may ask the server to stop between two rounds of its main loop: a call of \<open>Stop\<close> by a thread, with
  the returns of \<open>write\<close>, or a signal of the process, with the return of the one \<open>write\<close> of its handler.
  An action that the program did not set has no model.\<close>

datatype stop_source = StopCall "nat sysret list" | Signal signal "nat sysret"

fun deliver :: "SignalWorld \<Rightarrow> stop_source \<Rightarrow> TcpServer \<Rightarrow> TcpServer option" where
  "deliver world (StopCall writes) s = TcpServer_Stop writes s"
| "deliver world (Signal sig returned) s =
     (case dispositions world sig of
        HandleTerminationAction \<Rightarrow> Some (s\<lparr>s_stopWakeup := HandleTerminationSignal world returned (s_stopWakeup s)\<rparr>)
      | IgnoreAction \<Rightarrow> Some s
      | OtherAction action \<Rightarrow> None)"

fun source_ok :: "nat \<Rightarrow> stop_source \<Rightarrow> TcpServer \<Rightarrow> bool" where
  "source_ok cap (StopCall writes) s \<longleftrightarrow> notify_ok cap writes (s_stopWakeup s)"
| "source_ok cap (Signal sig returned) s \<longleftrightarrow> sig \<noteq> SIGPIPE \<and> notify_ok cap [returned] (s_stopWakeup s)"

text \<open>The actions while the handler is installed on the channel of the server.\<close>

definition installed_on :: "SignalWorld \<Rightarrow> TcpServer \<Rightarrow> bool" where
  "installed_on world s \<longleftrightarrow> G_NOTIFY_FD world = wk_writeFd (s_stopWakeup s) \<and> 0 \<le> G_NOTIFY_FD world \<and>
     (\<forall>sig. dispositions world sig = (if sig = SIGPIPE then IgnoreAction else HandleTerminationAction))"

definition only_woken :: "TcpServer \<Rightarrow> TcpServer \<Rightarrow> bool" where
  "only_woken s s' \<longleftrightarrow> same_ends (s_stopWakeup s) (s_stopWakeup s') \<and>
     s' = s\<lparr>s_stopWakeup := s_stopWakeup s', s_stopRequested := s_stopRequested s'\<rparr>"

lemma HandleTerminationSignal_ends: "same_ends w (HandleTerminationSignal world q w)"
  by (auto simp: HandleTerminationSignal_def Let_def split: sysret.split)

lemma HandleTerminationSignal_wakes:
  assumes "installed_on world s" "notify_ok cap [q] (s_stopWakeup s)"
  shows "0 < wk_queue (HandleTerminationSignal world q (s_stopWakeup s))"
  using assms by (cases q) (auto simp: HandleTerminationSignal_def installed_on_def notify_ok_def Let_def split: if_splits)

interpretation sv: wake_contract "deliver world" "\<lambda>r s. installed_on world s \<and> source_ok cap r s"
    "\<lambda>s. wk_queue (s_stopWakeup s)" only_woken
  for world cap
proof unfold_locales
  fix r s assume ok: "installed_on world s \<and> source_ok cap r s"
  show "\<exists>s'. deliver world r s = Some s' \<and> 0 < wk_queue (s_stopWakeup s') \<and> only_woken s s'"
  proof (cases r)
    case (StopCall writes)
    with ok have "notify_ok cap writes (s_stopWakeup s)" by simp
    from wc.wake_law [OF this] StopCall show ?thesis by (auto simp: TcpServer_Stop_def only_woken_def)
  next
    case (Signal sig q)
    then show ?thesis
      using ok HandleTerminationSignal_wakes [of world s cap q] HandleTerminationSignal_ends [of world q "s_stopWakeup s"]
      by (auto simp: installed_on_def only_woken_def)
  qed
next
  show "only_woken s s" for s by (simp add: only_woken_def)
  show "only_woken s s''" if "only_woken s s'" "only_woken s' s''" for s s' s''
    using that by (cases s; cases s'; cases s'') (simp add: only_woken_def)
qed

lemma installed_stays: "only_woken s s' \<Longrightarrow> installed_on world s \<Longrightarrow> installed_on world s'"
  by (simp add: only_woken_def installed_on_def)

lemma sources_installed:
  "wake_ok (deliver world) (source_ok cap) sources s \<Longrightarrow> installed_on world s \<Longrightarrow>
   wake_ok (deliver world) (\<lambda>r s. installed_on world s \<and> source_ok cap r s) sources s"
proof (induction sources arbitrary: s)
  case (Cons r sources)
  obtain s' where "deliver world r s = Some s'" "only_woken s s'"
    using sv.wake_law [of world s cap r] Cons.prems by auto
  with Cons show ?case by (simp add: installed_stays)
qed simp

text \<open>The poller is level-triggered: it reports the channel as long as bytes are in it; \<open>read\<close> follows its
  contract.\<close>

definition channel_reported :: "main_input \<Rightarrow> TcpServer \<Rightarrow> bool" where
  "channel_reported inp s \<longleftrightarrow> read_returns_ok (mi_reads inp) (wk_queue (s_stopWakeup s)) \<and>
     (0 < wk_queue (s_stopWakeup s) \<longrightarrow> list_ex (\<lambda>rEvent. ready_fd rEvent = wk_readFd (s_stopWakeup s)) (mi_ready inp))"

lemma woken_round_stops:
  assumes "0 < wk_queue (s_stopWakeup s)" "channel_reported inp s"
  shows "\<exists>w. stop_event inp s = (Inr True, s\<lparr>s_stopWakeup := w\<rparr>)"
proof -
  have "read_returns_ok (mi_reads inp) (wk_queue (s_stopWakeup s))" using assms(2) by (simp add: channel_reported_def)
  from wc.drain_law [OF this] obtain w where "Drain (mi_reads inp) (s_stopWakeup s) = Some (Inr (), w)" by blast
  with assms have "stop_event inp s = (Inr True, s\<lparr>s_stopWakeup := w\<rparr>)" by (simp add: stop_event_def channel_reported_def)
  then show ?thesis by blast
qed

lemma all_signals: "(\<forall>sig. P sig) \<longleftrightarrow> P SIGINT \<and> P SIGTERM \<and> P SIGPIPE"
  by (metis signal.exhaust)

lemma handler_installed:
  "TerminationSignalHandler_init fails (StopNotificationFd s) w = (Inr handler, world) \<Longrightarrow> installed_on world s"
  by (auto simp: TerminationSignalHandler_init_def installed_on_def StopNotificationFd_def all_signals Let_def
      split: option.splits if_splits)

text \<open>Claim C11: while the signal handler is installed, any number of SIGINT, SIGTERM and calls of \<open>Stop\<close>, in any order,
  stop the running server: they leave its channel readable, even when it is full, so that the next
  round stops accepting, closes the listening socket, and asks every reactor to stop by the
  deadline; SIGPIPE changes nothing.\<close>

theorem termination_stops_server:
  assumes "TerminationSignalHandler_init fails (StopNotificationFd s) w = (Inr handler, world)"
    and "s_state s = Running" "poller_good (the (s_poller s))" "ScopedFd_Valid (s_listenFd s)"
    and "sources \<noteq> []" "wake_ok (deliver world) (source_ok cap) sources s"
  shows "deliver world (Signal SIGPIPE q) s = Some s \<and>
    (\<exists>s1. wake_all (deliver world) sources s = Some s1 \<and>
      (\<forall>inp s2 s'. s2 = reactors_progress (mi_reactors inp) s1 \<and> channel_reported inp s2 \<and>
         main_round ctl inp s2 = (Inr (), s') \<longrightarrow>
         s_state s' \<in> {Draining, Stopped} \<and> s_openedFds s' = s_openedFds s \<and>
         s_listenFd s' = INVALID_FD \<and> s_closedFds s' = s_closedFds s @ [s_listenFd s] \<and>
         poller_registry (the (s_poller s')) (s_listenFd s) = None \<and>
         s_shutdownDeadline s' = deadline_after (mi_begin_now inp) (gracefulTimeout (s_shutdownOptions s)) \<and>
         length (s_subReactors s') = length (s_subReactors s) \<and>
         (\<forall>r \<in> set (s_subReactors s'). r_stopRequested r \<and> r_requestedShutdownDeadline r \<le> s_shutdownDeadline s')))"
proof -
  have inst: "installed_on world s" by (rule handler_installed [OF assms(1)])
  obtain s1 where s1: "wake_all (deliver world) sources s = Some s1" "0 < wk_queue (s_stopWakeup s1)" "only_woken s s1"
    using sv.woken [OF sources_installed [OF assms(6) inst]] assms(5) by blast
  have round: "s_state s' \<in> {Draining, Stopped} \<and> s_openedFds s' = s_openedFds s \<and>
         s_listenFd s' = INVALID_FD \<and> s_closedFds s' = s_closedFds s @ [s_listenFd s] \<and>
         poller_registry (the (s_poller s')) (s_listenFd s) = None \<and>
         s_shutdownDeadline s' = deadline_after (mi_begin_now inp) (gracefulTimeout (s_shutdownOptions s)) \<and>
         length (s_subReactors s') = length (s_subReactors s) \<and>
         (\<forall>r \<in> set (s_subReactors s'). r_stopRequested r \<and> r_requestedShutdownDeadline r \<le> s_shutdownDeadline s')"
    if "channel_reported inp (reactors_progress (mi_reactors inp) s1)"
      "main_round ctl inp (reactors_progress (mi_reactors inp) s1) = (Inr (), s')" for inp s'
  proof -
    let ?s = "reactors_progress (mi_reactors inp) s1"
    have same: "s_state ?s = Running" "s_listenFd ?s = s_listenFd s" "s_poller ?s = s_poller s" "s_openedFds ?s = s_openedFds s"
      "s_closedFds ?s = s_closedFds s" "length (s_subReactors ?s) = length (s_subReactors s)"
      "s_shutdownOptions ?s = s_shutdownOptions s" "s_stopWakeup ?s = s_stopWakeup s1"
      using s1(3) assms(2) by (cases s; cases s1; simp add: only_woken_def reactors_progress_def)+
    have "0 < wk_queue (s_stopWakeup ?s)" using s1(2) same(8) by simp
    from woken_round_stops [OF this that(1)]
    obtain w where "stop_event inp ?s = (Inr True, ?s\<lparr>s_stopWakeup := w\<rparr>)" by blast
    from stop_round [OF same(1) this that(2)] same assms(3,4) show ?thesis by auto
  qed
  show ?thesis using inst s1(1) round by (auto simp: installed_on_def)
qed

text \<open>A running server at whose door a client waits gets a SIGINT.\<close>

definition demo_running :: TcpServer where
  "demo_running = demo_stopping\<lparr>s_stopRequested := False\<rparr>"

definition demo_stop_round :: main_input where
  "demo_stop_round = demo_round\<lparr>mi_begin_writes := [[Ret 1]], mi_reads := [Ret 1, Fail EAGAIN], mi_reactors := (\<lambda>i r. r),
     mi_ready := [\<lparr>ready_fd = 5, ready_events = IoEvent_Read\<rparr>, \<lparr>ready_fd = 10, ready_events = IoEvent_Read\<rparr>]\<rparr>"

theorem termination_stops_server_witness:
  "\<exists>handler world s1 s'. TerminationSignalHandler_init (\<lambda>_. None) (StopNotificationFd demo_running) demo_world = (Inr handler, world) \<and>
    wake_all (deliver world) [Signal SIGINT (Ret 1)] demo_running = Some s1 \<and>
    main_round (\<lambda>_ _ _ _. None) demo_stop_round s1 = (Inr (), s') \<and>
    s_state s' \<in> {Draining, Stopped} \<and> s_openedFds s' = [5] \<and> s_closedFds s' = [5]"
proof -
  note defs = demo_running_def demo_stopping_def demo_server_def TcpServer_init_def NetworkOptions_default_def
  have d: "s_state demo_running = Running" "s_listenFd demo_running = 5" "s_openedFds demo_running = [5]"
    "s_closedFds demo_running = []" "poller_good (the (s_poller demo_running))"
    by (auto simp: defs pp_good_def um_ok_def IoEvent_defs valid_interest_def um_find_def HasIoEvent_def split: if_splits)
  obtain handler world where h:
    "TerminationSignalHandler_init (\<lambda>_. None) (StopNotificationFd demo_running) demo_world = (Inr handler, world)"
    by (simp add: TerminationSignalHandler_init_def demo_world_def StopNotificationFd_def defs)
  note inst = handler_installed [OF h]
  let ?s1 = "demo_running\<lparr>s_stopWakeup := \<lparr>wk_readFd = 10, wk_writeFd = 11, wk_queue = 1\<rparr>\<rparr>"
  have s1: "deliver world (Signal SIGINT (Ret 1)) demo_running = Some ?s1"
    using inst by (simp add: installed_on_def HandleTerminationSignal_def defs)
  have ok: "wake_ok (deliver world) (source_ok 1) [Signal SIGINT (Ret 1)] demo_running"
    unfolding wake_ok.simps s1 by (simp add: notify_ok_def defs)
  have same: "reactors_progress (mi_reactors demo_stop_round) ?s1 = ?s1"
    by (simp add: demo_stop_round_def reactors_progress_def defs)
  have reported: "channel_reported demo_stop_round ?s1"
    by (simp add: channel_reported_def demo_stop_round_def DRAIN_SIZE_def EAGAIN_def EINTR_def)
  have "fst (main_round (\<lambda>_ _ _ _. None) demo_stop_round ?s1) = Inr ()"
    by (simp add: main_round_def stop_event_def demo_stop_round_def demo_round_def defs EAGAIN_def EINTR_def
        Server_BeginGracefulShutdown_def drop_listener_def stop_reactors_def
        ScopedFd_defs PollPoller_Remove_def IoEvent_defs Stop_def Stop_locked_def notify_control_def SubReactor_init_def
        CheckSubReactorHealth_def Server_CheckShutdownProgress_def IsStopped_def deadline_after_def milliseconds_def)
  then obtain s' where run: "main_round (\<lambda>_ _ _ _. None) demo_stop_round ?s1 = (Inr (), s')" by (metis prod.collapse)
  have "ScopedFd_Valid (s_listenFd demo_running)" using d(2) by (simp add: ScopedFd_Valid_def)
  from termination_stops_server [OF h d(1,5) this _ ok, of "Ret 0" "\<lambda>_ _ _ _. None"]
  obtain t where t: "wake_all (deliver world) [Signal SIGINT (Ret 1)] demo_running = Some t"
    and stops: "reactors_progress (mi_reactors inp) t = s2 \<Longrightarrow> channel_reported inp s2 \<Longrightarrow>
      main_round (\<lambda>_ _ _ _. None) inp s2 = (Inr (), s') \<Longrightarrow>
      s_state s' \<in> {Draining, Stopped} \<and> s_openedFds s' = s_openedFds demo_running \<and>
      s_closedFds s' = s_closedFds demo_running @ [s_listenFd demo_running]" for inp s2 s'
    by (simp only: list.simps simp_thms) blast
  have "t = ?s1" using t unfolding wake_all.simps s1 by simp
  with stops [OF _ reported run] same t h run d show ?thesis by auto
qed

end
