(* ===== verification/Connection_Stream.thy ===== *)
theory Connection_Stream
  imports Connection_Properties "HOL-Library.Sublist"
begin

text \<open>
  A connection over its whole life: whatever events it is ready for, and whatever other clients do to the
  store in between, what it sends is the framed answers to what it received, as one sequential history
  of the store.
\<close>

section \<open>The history of the store\<close>

text \<open>A request that was executed: whether it came over this connection, its text, the reading of the
  clock, and the answer.\<close>

record request =
  rq_mine :: bool
  rq_line :: string
  rq_time :: time_point
  rq_reply :: string

text \<open>The history is executed one request after the other; STATS, whose report the reactor makes itself,
  leaves the store alone.\<close>

fun replay :: "KVStore \<Rightarrow> request list \<Rightarrow> KVStore \<Rightarrow> bool" where
  "replay s [] s' \<longleftrightarrow> s' = s"
| "replay s (q # qs) s' \<longleftrightarrow>
     (if is_stats (rq_line q) then replay s qs s'
      else case CommandExecutor_Execute s (ParseCommand (rq_line q)) (rq_time q) of
             Inl e \<Rightarrow> False
           | Inr (r, s1) \<Rightarrow> r = rq_reply q \<and> replay s1 qs s')"

lemma replay_append: "replay s (qs @ qs') s' \<longleftrightarrow> (\<exists>s1. replay s qs s1 \<and> replay s1 qs' s')"
  by (induction qs arbitrary: s) (auto split: sum.split)

text \<open>The history as the abstract map of values and deadlines prescribes it.\<close>

fun history_ok :: "kv_spec \<Rightarrow> request list \<Rightarrow> bool" where
  "history_ok m [] \<longleftrightarrow> True"
| "history_ok m (q # qs) \<longleftrightarrow>
     (is_stats (rq_line q) \<or> response_ok m (ParseCommand (rq_line q)) (rq_time q) (rq_reply q)) \<and>
     history_ok (spec_command m (ParseCommand (rq_line q)) (rq_time q)) qs"

lemma replay_history:
  assumes "replay s qs s'" "kv_good (length qs) s" "simulates t0 s m" "sorted (t0 # map rq_time qs)"
  shows "history_ok m qs"
  using assms
proof (induction qs arbitrary: s t0 m)
  case (Cons q qs)
  let ?c = "ParseCommand (rq_line q)"
  show ?case
  proof (cases "is_stats (rq_line q)")
    case True
    have "spec_command m ?c (rq_time q) = m" using True by (simp add: spec_command_def command_op_def is_stats_def)
    moreover have "kv_good (length qs) s" using Cons.prems(2) by (simp add: kv_good_def)
    ultimately show ?thesis using Cons.IH [of s t0 m] Cons.prems True by auto
  next
    case False
    obtain r s1 where e: "CommandExecutor_Execute s ?c (rq_time q) = Inr (r, s1)" "response_ok m ?c (rq_time q) r"
      "kv_good (length qs) s1" "simulates (rq_time q) s1 (spec_command m ?c (rq_time q))"
      using Execute_refines [of "length qs" s t0 m "rq_time q" ?c] Cons.prems by auto
    then show ?thesis using Cons.IH [OF _ e(3,4)] Cons.prems False by auto
  qed
qed simp

section \<open>The life of a connection\<close>

text \<open>The reactor begins to shut down: the connection reads no more, and is closed when nothing is left to
  send.  This is what \<open>BeginGracefulShutdown\<close> does with each of its connections.\<close>

definition drain_conn :: "ctl_oracle \<Rightarrow> NetworkOptions \<Rightarrow> ConnCtx \<Rightarrow> unit handled" where
  "drain_conn ctl opts x =
     (let x = upd_conn (\<lambda>conn. conn\<lparr>readPaused := True\<rparr>) x;
          x = upd_conn (\<lambda>conn. conn\<lparr>closeAfterWrite := True\<rparr>) x
      in if OutputBuffer_Empty (writeBuffer (x_conn x)) then (Inr (), upd_conn MarkClosed x)
         else RefreshConnectionInterest ctl opts x)"

text \<open>The connection is ready for some events, with the returns of its calls; or its reactor begins to shut
  down; or others have requests executed on the shared store, and change the metrics and the registrations
  of other connections.\<close>

datatype conn_step =
    Ready ServerState IoEvent io_results
  | Draining_begins
  | Others "(string \<times> time_point) list" ServerMetrics Poller

text \<open>The bytes that \<open>recv\<close> gives to the connection in an event, the connection after the read, and the
  bytes that \<open>send\<close> takes from it.\<close>

definition bytes_read :: "NetworkOptions \<Rightarrow> string sysret list \<Rightarrow> ConnCtx \<Rightarrow> string" where
  "bytes_read opts recvs x =
     (let conn = x_conn x
      in if conn_closed conn \<or> readPaused conn \<or> closeAfterWrite conn \<or> length (readBuffer conn) \<ge> maxReadBufferBytes opts then []
         else case retry_eintr recvs of Some (Ret bytes) \<Rightarrow> bytes | _ \<Rightarrow> [])"

definition bytes_written :: "nat sysret list \<Rightarrow> ConnCtx \<Rightarrow> string" where
  "bytes_written sends x =
     (if conn_closed (x_conn x) \<or> OutputBuffer_Empty (writeBuffer (x_conn x)) then []
      else case retry_eintr sends of Some (Ret n) \<Rightarrow> take n (OutputBuffer_Data (writeBuffer (x_conn x))) | _ \<Rightarrow> [])"

definition event_reads :: "ServerState \<Rightarrow> IoEvent \<Rightarrow> bool" where
  "event_reads state events \<longleftrightarrow> \<not> HasIoEvent events IoEvent_Error \<and> state = Running \<and> HasIoEvent events IoEvent_Read"

definition event_writes :: "IoEvent \<Rightarrow> bool" where
  "event_writes events \<longleftrightarrow> \<not> HasIoEvent events IoEvent_Error \<and> HasIoEvent events IoEvent_Write"

definition after_read :: "endianness \<Rightarrow> NetworkOptions \<Rightarrow> ServerState \<Rightarrow> IoEvent \<Rightarrow> io_results \<Rightarrow> ConnCtx \<Rightarrow> ConnCtx" where
  "after_read h opts state events io x =
     (if event_reads state events then snd (HandleClientRead h opts (io_recvs io) (io_clks io) x) else x)"

text \<open>What was received, what was sent, and the context at the end.  An exception ends the reactor and with
  it the connection.\<close>

fun conn_run ::
  "endianness \<Rightarrow> ctl_oracle \<Rightarrow> NetworkOptions \<Rightarrow> conn_step list \<Rightarrow> ConnCtx \<Rightarrow> string \<times> string \<times> ConnCtx" where
  "conn_run h ctl opts [] x = ([], [], x)"
| "conn_run h ctl opts (Ready state events io # steps) x =
     (let received = (if event_reads state events then bytes_read opts (io_recvs io) x else []);
          sent = (if event_writes events then bytes_written (io_sends io) (after_read h opts state events io x) else [])
      in case HandleReadyEvent h ctl opts state events io x of
           (Inl e, x') \<Rightarrow> (received, sent, x')
         | (Inr _, x') \<Rightarrow>
             let (received', sent', x'') = conn_run h ctl opts steps x'
             in (received @ received', sent @ sent', x''))"
| "conn_run h ctl opts (Draining_begins # steps) x =
     (case drain_conn ctl opts x of
        (Inl e, x') \<Rightarrow> ([], [], x')
      | (Inr _, x') \<Rightarrow> conn_run h ctl opts steps x')"
| "conn_run h ctl opts (Others requests metrics p # steps) x =
     (case session (x_store x) requests of
        Inl e \<Rightarrow> ([], [], x)
      | Inr (replies, store) \<Rightarrow>
          conn_run h ctl opts steps (x\<lparr>x_store := store, x_metrics := metrics, x_poller := p\<rparr>))"

text \<open>The contracts of the calls in all events, and a bound on the requests executed.\<close>

fun steps_ok :: "endianness \<Rightarrow> ctl_oracle \<Rightarrow> NetworkOptions \<Rightarrow> conn_step list \<Rightarrow> ConnCtx \<Rightarrow> bool" where
  "steps_ok h ctl opts [] x \<longleftrightarrow> True"
| "steps_ok h ctl opts (Ready state events io # steps) x \<longleftrightarrow>
     io_ok h opts state events io x \<and> steps_ok h ctl opts steps (snd (HandleReadyEvent h ctl opts state events io x))"
| "steps_ok h ctl opts (Draining_begins # steps) x \<longleftrightarrow>
     \<not> conn_closed (x_conn x) \<and> steps_ok h ctl opts steps (snd (drain_conn ctl opts x))"
| "steps_ok h ctl opts (Others requests metrics p # steps) x \<longleftrightarrow>
     (\<forall>(line, now) \<in> set requests. length line \<le> frame_limit) \<and> poller_good p \<and> registered (x_conn x) p \<and>
     (case session (x_store x) requests of
        Inl e \<Rightarrow> True
      | Inr (replies, store) \<Rightarrow>
          steps_ok h ctl opts steps (x\<lparr>x_store := store, x_metrics := metrics, x_poller := p\<rparr>))"

fun step_budget :: "NetworkOptions \<Rightarrow> conn_step \<Rightarrow> nat" where
  "step_budget opts (Ready state events io) = maxReadBufferBytes opts"
| "step_budget opts Draining_begins = 0"
| "step_budget opts (Others requests metrics p) = length requests"

abbreviation frames :: "string list \<Rightarrow> string" where
  "frames ps \<equiv> concat (map wire_frame ps)"

definition my_lines :: "request list \<Rightarrow> string list" where
  "my_lines qs = map rq_line (filter rq_mine qs)"

definition my_replies :: "request list \<Rightarrow> string list" where
  "my_replies qs = map rq_reply (filter rq_mine qs)"

lemma my_append [simp]:
  "my_lines (qs @ qs') = my_lines qs @ my_lines qs'" "my_replies (qs @ qs') = my_replies qs @ my_replies qs'"
  by (simp_all add: my_lines_def my_replies_def)

section \<open>Payloads\<close>

text \<open>The clock is read in order, between two times.\<close>

definition between :: "time_point \<Rightarrow> time_point list \<Rightarrow> time_point \<Rightarrow> bool" where
  "between t0 ts t1 \<longleftrightarrow> sorted (t0 # ts @ [t1])"

lemma between_simps [simp]:
  "between t0 [] t1 \<longleftrightarrow> t0 \<le> t1"
  "between t0 (t # ts) t1 \<longleftrightarrow> t0 \<le> t \<and> between t ts t1"
  by (auto simp: between_def)

lemma between_append: "between t0 ts t1 \<Longrightarrow> between t1 ts' t2 \<Longrightarrow> between t0 (ts @ ts') t2"
proof (induction ts arbitrary: t0)
  case Nil
  then show ?case by (cases ts') auto
qed simp

lemma between_le: "between t0 ts t1 \<Longrightarrow> t0 \<le> t1"
  by (simp add: between_def)

lemma between_sorted: "between t0 ts t1 \<Longrightarrow> sorted (t0 # ts)"
  unfolding between_def by (metis append_Cons sorted_append)

definition served_ok :: "request list \<Rightarrow> bool" where
  "served_ok qs \<longleftrightarrow> (\<forall>q \<in> set qs. rq_mine q \<longrightarrow> length (rq_line q) \<le> frame_limit \<and> length (rq_reply q) \<le> frame_limit)"

lemma process_payloads_stream:
  assumes "opts_ok opts" "conn_inv opts (x_conn x)" "\<not> conn_closed (x_conn x)" "\<not> closeAfterWrite (x_conn x)"
    and "store_ready (n + length ps) (x_store x)" "\<forall>(clk, p) \<in> set ps. length p \<le> frame_limit"
    and "between t0 (map (\<lambda>(clk, p). clk_store clk) ps) t1"
  shows "\<exists>qs x'. process_payloads h opts ps x = (Inr (), x') \<and> replay (x_store x) qs (x_store x') \<and>
    list_all rq_mine qs \<and> served_ok qs \<and> between t0 (map rq_time qs) t1 \<and> prefix (my_lines qs) (map snd ps) \<and>
    prefix (map (\<lambda>q. (rq_line q, rq_time q)) qs) (map (\<lambda>(clk, p). (p, clk_store clk)) ps) \<and>
    (\<not> conn_closed (x_conn x') \<longrightarrow> pending_data (x_conn x') = pending_data (x_conn x) @ frames (my_replies qs) \<and>
      (\<not> closeAfterWrite (x_conn x') \<longrightarrow> my_lines qs = map snd ps \<and> readBuffer (x_conn x') = readBuffer (x_conn x)))"
  using assms(2-)
proof (induction ps arbitrary: x t0)
  case Nil
  then show ?case by (intro exI [of _ "[]"] exI [of _ x]) (simp add: served_ok_def my_lines_def my_replies_def)
next
  case (Cons cp ps)
  obtain clk p where cp: "cp = (clk, p)" by (cases cp)
  have p: "length p \<le> frame_limit" and ready: "store_ready (Suc (n + length ps)) (x_store x)"
    and t: "t0 \<le> clk_store clk" "between (clk_store clk) (map (\<lambda>(clk, p). clk_store clk) ps) t1"
    using Cons.prems cp by auto
  have one: "replay (x_store x) [\<lparr>rq_mine = True, rq_line = p, rq_time = clk_store clk, rq_reply = r\<rparr>] s'"
    if "payload_response x (clk_store clk) p = Inr (r, s')" for r s'
    using that by (auto simp: payload_response_def is_stats_def)
  have size: "length r \<le> frame_limit" if "payload_response x (clk_store clk) p = Inr (r, s')" for r s'
    using payload_response_ok [OF ready p, of "clk_store clk"] that by auto
  from assms(1) Cons.prems(1,2) ready p show ?case
  proof (cases rule: ProcessPayload_cases [where clk = clk and h = h])
    case (Answered r s' x')
    let ?q = "\<lparr>rq_mine = True, rq_line = p, rq_time = clk_store clk, rq_reply = r\<rparr>"
    show ?thesis
    proof (cases "is_quit p")
      case True
      then show ?thesis using Answered cp one [OF Answered(1)] size [OF Answered(1)] p t between_le [OF t(2)]
        by (intro exI [of _ "[?q]"] exI [of _ x']) (simp add: served_ok_def my_lines_def my_replies_def del: replay.simps)
    next
      case False
      obtain qs x'' where IH: "process_payloads h opts ps x' = (Inr (), x'')" "replay (x_store x') qs (x_store x'')"
        "list_all rq_mine qs" "served_ok qs" "between (clk_store clk) (map rq_time qs) t1" "prefix (my_lines qs) (map snd ps)"
        "prefix (map (\<lambda>q. (rq_line q, rq_time q)) qs) (map (\<lambda>(clk, p). (p, clk_store clk)) ps)"
        "\<not> conn_closed (x_conn x'') \<longrightarrow> pending_data (x_conn x'') = pending_data (x_conn x') @ frames (my_replies qs) \<and>
          (\<not> closeAfterWrite (x_conn x'') \<longrightarrow> my_lines qs = map snd ps \<and> readBuffer (x_conn x'') = readBuffer (x_conn x'))"
        using Cons.IH [of x' "clk_store clk"] Answered(3,4,6,7,8) False Cons.prems(3,5) t(2) by auto
      have "replay (x_store x) ([?q] @ qs) (x_store x'')"
        unfolding replay_append using one [OF Answered(1)] IH(2) Answered(6) by blast
      then show ?thesis using Answered False cp IH size [OF Answered(1)] p t
        by (intro exI [of _ "?q # qs"] exI [of _ x''])
          (simp add: served_ok_def my_lines_def my_replies_def del: replay.simps)
    qed
  next
    case (Slow r s' x')
    let ?q = "\<lparr>rq_mine = True, rq_line = p, rq_time = clk_store clk, rq_reply = r\<rparr>"
    show ?thesis using Slow cp one [OF Slow(1)] size [OF Slow(1)] p t between_le [OF t(2)]
      by (intro exI [of _ "[?q]"] exI [of _ x']) (simp add: served_ok_def my_lines_def my_replies_def del: replay.simps)
  qed
qed

section \<open>The invariant of the streams\<close>

abbreviation protocol_error :: string where "protocol_error \<equiv> ''-ERR protocol error''"
abbreviation too_large :: string where "too_large \<equiv> ''-ERR request buffer too large''"

text \<open>What is sent after the last reply: nothing; an error, when the bytes received do not decode; or one,
  when a read limit below the largest frame was reached.\<close>

definition tail_ok :: "endianness \<Rightarrow> NetworkOptions \<Rightarrow> string \<Rightarrow> string list \<Rightarrow> bool" where
  "tail_ok h opts received tail \<longleftrightarrow> tail = [] \<or>
     tail = [protocol_error] \<and> (\<exists>e. fst (FrameCodec_Decode h received) = Inl e) \<or>
     tail = [too_large] \<and> maxReadBufferBytes opts < 4 + frame_limit"

definition stream_inv ::
  "endianness \<Rightarrow> NetworkOptions \<Rightarrow> KVStore \<Rightarrow> time_point \<Rightarrow> time_point \<Rightarrow> request list \<Rightarrow> string \<Rightarrow> string \<Rightarrow> string list \<Rightarrow>
   ConnCtx \<Rightarrow> bool" where
  "stream_inv h opts s0 t0 t qs received sent tail x \<longleftrightarrow>
     conn_inv opts (x_conn x) \<and> replay s0 qs (x_store x) \<and> served_ok qs \<and> between t0 (map rq_time qs) t \<and>
     prefix (frames (my_lines qs)) received \<and> tail_ok h opts received tail \<and>
     (\<exists>unsent. frames (my_replies qs @ tail) = sent @ unsent \<and>
        (\<not> conn_closed (x_conn x) \<longrightarrow> unsent = pending_data (x_conn x))) \<and>
     (\<not> conn_closed (x_conn x) \<and> \<not> closeAfterWrite (x_conn x) \<longrightarrow>
        tail = [] \<and> received = frames (my_lines qs) @ readBuffer (x_conn x))"

lemma stream_init:
  assumes "conn_inv opts (x_conn x)" "readBuffer (x_conn x) = []" "pending_data (x_conn x) = []"
  shows "stream_inv h opts (x_store x) t t [] [] [] [] x"
  using assms by (simp add: stream_inv_def served_ok_def tail_ok_def my_lines_def my_replies_def)

text \<open>Steps that execute nothing and keep the buffers of an open connection.\<close>

lemma stream_quiet:
  assumes "stream_inv h opts s0 t0 t qs received sent tail x" "conn_inv opts (x_conn x')" "x_store x' = x_store x" "t \<le> t'"
    and "\<not> conn_closed (x_conn x') \<Longrightarrow> \<not> conn_closed (x_conn x) \<and> pending_data (x_conn x') = pending_data (x_conn x)"
    and "\<not> conn_closed (x_conn x') \<Longrightarrow> \<not> closeAfterWrite (x_conn x') \<Longrightarrow>
      \<not> closeAfterWrite (x_conn x) \<and> readBuffer (x_conn x') = readBuffer (x_conn x)"
  shows "stream_inv h opts s0 t0 t' qs received sent tail x'"
proof -
  have "between t0 (map rq_time qs) t'"
    using between_append [of t0 "map rq_time qs" t "[]" t'] assms(1,4) by (simp add: stream_inv_def)
  moreover obtain unsent where "frames (my_replies qs @ tail) = sent @ unsent"
    "\<not> conn_closed (x_conn x) \<longrightarrow> unsent = pending_data (x_conn x)" using assms(1) by (auto simp: stream_inv_def)
  moreover have "unsent = pending_data (x_conn x')" if "\<not> conn_closed (x_conn x')"
    using calculation(3) assms(5) [OF that] by simp
  ultimately show ?thesis using assms(1-3,5,6) unfolding stream_inv_def by auto
qed

lemma Queue_effect:
  assumes "ob_inv (writeBuffer (x_conn x))" "\<not> conn_closed (x_conn x)" "length response \<le> frame_limit"
  shows "\<exists>b x'. QueueResponse h opts response x = (Inr b, x') \<and> x_store x' = x_store x \<and>
    (if b then \<not> conn_closed (x_conn x') \<and> pending_data (x_conn x') = pending_data (x_conn x) @ wire_frame response
     else conn_closed (x_conn x'))"
  using assms Encode_wire_frame [OF assms(3), of h] by (auto simp: QueueResponse_def Let_def)

text \<open>An error answer, after which the connection is closed.\<close>

lemma stream_error:
  assumes "stream_inv h opts s0 t0 t qs received sent [] x" "\<not> conn_closed (x_conn x)" "t \<le> t'"
    and "tail_ok h opts received' [err]" "length err \<le> frame_limit" "prefix received received'"
    and "QueueResponse h opts err y = (Inr b, z)" "x_store y = x_store x" "writeBuffer (x_conn y) = writeBuffer (x_conn x)"
      "\<not> conn_closed (x_conn y)"
    and "conn_inv opts (x_conn x')" "x_store x' = x_store z"
    and "\<not> conn_closed (x_conn x') \<Longrightarrow> b \<and> pending_data (x_conn x') = pending_data (x_conn z) \<and> closeAfterWrite (x_conn x')"
  shows "stream_inv h opts s0 t0 t' qs received' sent [err] x'"
proof -
  have ob: "ob_inv (writeBuffer (x_conn y))" using assms(1,9) by (simp add: stream_inv_def conn_inv_def)
  have z: "x_store z = x_store x" "b \<Longrightarrow> pending_data (x_conn z) = pending_data (x_conn x) @ wire_frame err"
    using Queue_effect [OF ob assms(10,5), of h opts] assms(7-9) by (auto split: if_splits)
  have "between t0 (map rq_time qs) t'"
    using between_append [of t0 "map rq_time qs" t "[]" t'] assms(1,3) by (simp add: stream_inv_def)
  moreover have "prefix (frames (my_lines qs)) received'"
    using assms(1,6) prefix_order.trans by (auto simp: stream_inv_def)
  ultimately show ?thesis using assms(1,2,4,11-13) z unfolding stream_inv_def by auto
qed

section \<open>Reading and writing\<close>

text \<open>The readings of the clock in one event.\<close>

definition clocks_ok :: "time_point \<Rightarrow> (nat \<Rightarrow> clock_readings) \<Rightarrow> time_point \<Rightarrow> bool" where
  "clocks_ok t clks t' \<longleftrightarrow> t \<le> t' \<and> mono (\<lambda>i. clk_store (clks i)) \<and> (\<forall>i. t \<le> clk_store (clks i) \<and> clk_store (clks i) \<le> t')"

lemma clocks_between:
  assumes "clocks_ok t clks t'"
  shows "between t (map (\<lambda>(clk, p). clk_store clk) (zip (map clks [0..<length ps]) ps)) t'"
proof -
  have "map (\<lambda>(clk, p). clk_store clk) (zip (map clks [0..<length ps]) ps) = map (\<lambda>i. clk_store (clks i)) [0..<length ps]"
    by (rule nth_equalityI) simp_all
  moreover have "sorted (map (\<lambda>i. clk_store (clks i)) [0..<length ps])"
    using assms by (auto simp: clocks_ok_def sorted_iff_nth_mono dest: incseqD)
  ultimately show ?thesis using assms by (auto simp: clocks_ok_def between_def sorted_append)
qed

lemma stream_read_frames:
  assumes inv: "stream_inv h opts s0 t0 t qs received sent [] x" and opts: "opts_ok opts"
    and "\<not> conn_closed (x_conn x)" "\<not> closeAfterWrite (x_conn x)" "clocks_ok t clks t'"
    and y: "conn_inv opts (x_conn y)" "x_store y = x_store x" "writeBuffer (x_conn y) = writeBuffer (x_conn x)"
      "\<not> conn_closed (x_conn y)" "\<not> closeAfterWrite (x_conn y)" "readBuffer (x_conn y) = rest"
    and buf: "readBuffer (x_conn x) @ bs = frames ps @ rest" "\<forall>p \<in> set ps. length p \<le> frame_limit"
    and ready: "store_ready (n + length ps) (x_store x)"
    and run: "process_payloads h opts (zip (map clks [0..<length ps]) ps) y = (Inr (), x')"
    and inv': "conn_inv opts (x_conn x')"
  shows "\<exists>qs'. list_all rq_mine qs' \<and> length qs' \<le> length ps \<and>
    stream_inv h opts s0 t0 t' (qs @ qs') (received @ bs) sent [] x'"
proof -
  let ?ps = "zip (map clks [0..<length ps]) ps"
  have all: "\<forall>(clk, p) \<in> set ?ps. length p \<le> frame_limit" using buf(2) by (auto dest: set_zip_rightD)
  have "store_ready (n + length ?ps) (x_store y)" using ready y(2) by simp
  from process_payloads_stream [OF opts y(1,4,5) this all clocks_between [OF assms(5)], of h] run
  obtain qs' where qs': "replay (x_store y) qs' (x_store x')" "list_all rq_mine qs'" "served_ok qs'"
    "between t (map rq_time qs') t'" "prefix (my_lines qs') (map snd ?ps)"
    "\<not> conn_closed (x_conn x') \<longrightarrow> pending_data (x_conn x') = pending_data (x_conn y) @ frames (my_replies qs') \<and>
      (\<not> closeAfterWrite (x_conn x') \<longrightarrow> my_lines qs' = map snd ?ps \<and> readBuffer (x_conn x') = readBuffer (x_conn y))"
    by auto
  have received: "received = frames (my_lines qs) @ readBuffer (x_conn x)" using inv assms(3,4) by (simp add: stream_inv_def)
  obtain more where "ps = my_lines qs' @ more" using qs'(5) by (auto simp: prefix_def)
  then have "prefix (frames (my_lines (qs @ qs'))) (received @ bs)" using received buf(1) by simp
  moreover have "between t0 (map rq_time (qs @ qs')) t'"
    using between_append [OF _ qs'(4)] inv by (simp add: stream_inv_def)
  moreover have "replay s0 (qs @ qs') (x_store x')" unfolding replay_append using inv qs'(1) y(2) by (auto simp: stream_inv_def)
  moreover have "frames (my_replies qs) = sent @ pending_data (x_conn x)" using inv assms(3) by (simp add: stream_inv_def)
  ultimately have "stream_inv h opts s0 t0 t' (qs @ qs') (received @ bs) sent [] x'"
    using qs'(3,6) inv inv' received buf(1) y(3,6) by (auto simp: stream_inv_def served_ok_def tail_ok_def)
  moreover have "my_lines qs' = map rq_line qs'" using qs'(2) by (induction qs') (simp_all add: my_lines_def)
  then have "length qs' \<le> length ps" using prefix_length_le [OF qs'(5)] by simp
  ultimately show ?thesis using qs'(2) by blast
qed

text \<open>How a read ends: nothing is executed; or an error is queued; or the frames that are complete are.\<close>

lemma Read_cases:
  assumes conn: "conn_inv opts (x_conn x)" and recv: "recv_ok opts (x_conn x) recvs"
    and run: "HandleClientRead h opts recvs clks x = (Inr (), x')"
  obtains (Quiet) "x_store x' = x_store x" "bytes_read opts recvs x = []" "conn_closed (x_conn x') \<or> x' = x"
  | (Rejected) err y b z where "\<not> conn_closed (x_conn x)" "\<not> closeAfterWrite (x_conn x)"
      "err = too_large \<and> bytes_read opts recvs x = [] \<and> maxReadBufferBytes opts \<le> length (readBuffer (x_conn x)) \<or>
       err = protocol_error \<and> (\<exists>ps rest. readBuffer (x_conn x) @ bytes_read opts recvs x = frames ps @ rest \<and>
         (\<forall>p \<in> set ps. length p \<le> frame_limit) \<and> oversized rest)"
      "QueueResponse h opts err y = (Inr b, z)" "x_store y = x_store x" "writeBuffer (x_conn y) = writeBuffer (x_conn x)"
      "\<not> conn_closed (x_conn y)" "x_store z = x_store x" "x_store x' = x_store z"
      "\<not> conn_closed (x_conn x') \<Longrightarrow> b \<and> pending_data (x_conn x') = pending_data (x_conn z) \<and> closeAfterWrite (x_conn x')"
  | (Frames) ps rest y where "\<not> conn_closed (x_conn x)" "\<not> closeAfterWrite (x_conn x)"
      "readBuffer (x_conn x) @ bytes_read opts recvs x = frames ps @ rest" "\<forall>p \<in> set ps. length p \<le> frame_limit"
      "FrameCodec_Decode h (readBuffer (x_conn x) @ bytes_read opts recvs x) = (Inr ps, rest)"
      "length ps \<le> maxReadBufferBytes opts" "conn_inv opts (x_conn y)" "x_store y = x_store x"
      "writeBuffer (x_conn y) = writeBuffer (x_conn x)" "\<not> conn_closed (x_conn y)" "\<not> closeAfterWrite (x_conn y)"
      "readBuffer (x_conn y) = rest" "process_payloads h opts (zip (map clks [0..<length ps]) ps) y = (Inr (), x')"
proof (cases "conn_closed (x_conn x) \<or> readPaused (x_conn x) \<or> closeAfterWrite (x_conn x)")
  case True
  then have "x' = x" using run by (simp add: HandleClientRead_def)
  with True show thesis by (intro Quiet) (auto simp: bytes_read_def)
next
  case reading: False
  let ?conn = "x_conn x"
  have ob: "ob_inv (writeBuffer ?conn)" using conn by (simp add: conn_inv_def)
  show thesis
  proof (cases "maxReadBufferBytes opts \<le> length (readBuffer ?conn)")
    case True
    obtain b z where z: "QueueResponse h opts too_large x = (Inr b, z)" "b \<or> conn_closed (x_conn z)" "x_store z = x_store x"
      using Queue_effect [OF ob, of too_large h opts] reading by (auto simp: frame_limit_def split: if_splits)
    have "x' = (if b then upd_conn (\<lambda>conn. conn\<lparr>closeAfterWrite := True\<rparr>) z else upd_conn MarkClosed z)"
      using run reading True z by (auto simp: HandleClientRead_def RejectOversizedReadBuffer_def split: if_splits)
    then show thesis using reading True z by (intro Rejected [OF _ _ _ z(1)]) (auto simp: bytes_read_def split: if_splits)
  next
    case room: False
    consider (fail) e where "retry_eintr recvs = Some (Fail e)" | (eof) "retry_eintr recvs = Some (Ret [])"
      | (data) bs where "retry_eintr recvs = Some (Ret bs)" "bs \<noteq> []" "length bs \<le> read_size opts ?conn"
      using recv by (fastforce simp: recv_ok_def split: option.splits sysret.splits)
    then show thesis
    proof cases
      case fail
      then show thesis using run reading room by (intro Quiet) (auto simp: HandleClientRead_def bytes_read_def split: if_splits)
    next
      case eof
      then show thesis using run reading room by (intro Quiet) (auto simp: HandleClientRead_def bytes_read_def Let_def)
    next
      case data
      let ?buf = "readBuffer ?conn @ bs" and ?x1 = "upd_metrics (AddBytesReceived (length bs)) x"
      have read: "bytes_read opts recvs x = bs" using data reading room by (simp add: bytes_read_def)
      have len: "length ?buf \<le> maxReadBufferBytes opts" using data(3) room by (simp add: read_size_def Let_def, arith)
      show thesis
      proof (cases h ?buf rule: Decode_cases)
        case D: (Frames ps rest)
        let ?y = "upd_metrics (AddFramesReceived (length ps)) (upd_conn (\<lambda>conn. conn\<lparr>readBuffer := rest\<rparr>) ?x1)"
        have pp: "process_payloads h opts (zip (map clks [0..<length ps]) ps) ?y = (Inr (), x')"
          using run reading room data D by (simp add: HandleClientRead_def DecodeAppend_all Let_def)
        have "length ps \<le> maxReadBufferBytes opts" and rest: "length rest \<le> maxReadBufferBytes opts"
          using len D(2) length_frames [of ps] by simp_all
        moreover have "conn_inv opts (x_conn ?y)" using conn_inv_buffer [OF conn _ rest] reading D(4) by simp
        ultimately show thesis using reading D read by (intro Frames [OF _ _ _ _ _ _ _ _ _ _ _ _ pp]) simp_all
      next
        case D: (Oversized ps rest)
        let ?y = "upd_metrics OnProtocolError (upd_conn (\<lambda>conn. conn\<lparr>readBuffer := rest\<rparr>) ?x1)"
        have oby: "ob_inv (writeBuffer (x_conn ?y))" "\<not> conn_closed (x_conn ?y)" using ob reading by simp_all
        obtain b z where z: "QueueResponse h opts protocol_error ?y = (Inr b, z)" "b \<or> conn_closed (x_conn z)" "x_store z = x_store x"
          using Queue_effect [OF oby, of protocol_error h opts] by (auto simp: frame_limit_def split: if_splits)
        have "x' = (if b then upd_conn (\<lambda>conn. conn\<lparr>closeAfterWrite := True\<rparr>) z else z)"
          using run reading room data D z by (auto simp: HandleClientRead_def DecodeAppend_all Let_def split: if_splits)
        then show thesis using reading D read z by (intro Rejected [OF _ _ _ z(1)]) (auto split: if_splits)
      qed
    qed
  qed
qed

lemma stream_read:
  assumes inv: "stream_inv h opts s0 t0 t qs received sent tail x" and opts: "opts_ok opts"
    and recv: "recv_ok opts (x_conn x) recvs" and ready: "store_ready (n + maxReadBufferBytes opts) (x_store x)"
    and clks: "clocks_ok t clks t'" and run: "HandleClientRead h opts recvs clks x = (Inr (), x')"
  shows "\<exists>qs' tail'. list_all rq_mine qs' \<and> length qs' \<le> maxReadBufferBytes opts \<and>
    stream_inv h opts s0 t0 t' (qs @ qs') (received @ bytes_read opts recvs x) sent tail' x'"
proof -
  let ?conn = "x_conn x" and ?bs = "bytes_read opts recvs x"
  have conn: "conn_inv opts ?conn" using inv by (simp add: stream_inv_def)
  have inv': "conn_inv opts (x_conn x')" using HandleClientRead_ok [OF opts conn recv ready, of h clks] run by simp
  have t: "t \<le> t'" using clks by (simp add: clocks_ok_def)
  have tail: "tail = []" "received = frames (my_lines qs) @ readBuffer ?conn" "incomplete (readBuffer ?conn)"
    if "\<not> conn_closed ?conn" "\<not> closeAfterWrite ?conn" using inv conn that by (simp_all add: stream_inv_def conn_inv_def)
  from conn recv run show ?thesis
  proof (cases rule: Read_cases)
    case Quiet
    then show ?thesis using stream_quiet [OF inv inv' Quiet(1) t] by (intro exI [of _ "[]"] exI [of _ tail]) auto
  next
    case (Rejected err y b z)
    note tail = tail [OF Rejected(1,2)]
    have "tail_ok h opts (received @ ?bs) [err] \<and> length err \<le> frame_limit" using Rejected(3)
    proof (elim disjE conjE exE)
      fix ps rest assume err: "err = protocol_error" and buf: "readBuffer ?conn @ ?bs = frames ps @ rest"
        and small: "\<forall>p \<in> set ps. length p \<le> frame_limit" and over: "oversized rest"
      have "received @ ?bs = frames (my_lines qs @ ps) @ rest" using tail(2) buf by simp
      moreover have "\<forall>p \<in> set (my_lines qs @ ps). length p \<le> frame_limit"
        using inv small by (auto simp: stream_inv_def served_ok_def my_lines_def)
      ultimately show ?thesis using Decode_decomposed(2) [of "my_lines qs @ ps" rest h] over err
        by (simp add: tail_ok_def frame_limit_def del: map_append concat_append)
    qed (use incomplete_bound [OF tail(3)] in \<open>simp add: tail_ok_def frame_limit_def\<close>)
    then have "stream_inv h opts s0 t0 t' qs (received @ ?bs) sent [err] x'"
      using Rejected inv' by (intro stream_error [OF inv [unfolded tail(1)] _ t _ _ _ Rejected(4-7)]) auto
    then show ?thesis by (intro exI [of _ "[]"] exI [of _ "[err]"]) simp
  next
    case (Frames ps rest y)
    have ready': "store_ready (n + length ps) (x_store x)" using store_ready_mono [OF ready] Frames(6) by simp
    from stream_read_frames [OF inv [unfolded tail(1) [OF Frames(1,2)]] opts Frames(1,2) clks Frames(7-12,3,4) ready' Frames(13) inv']
    show ?thesis using Frames(6) by fastforce
  qed
qed

lemma stream_write:
  assumes inv: "stream_inv h opts s0 t0 t qs received sent tail x" and opts: "opts_ok opts"
    and send: "send_ok opts (x_conn x) sends" and run: "HandleClientWrite opts sends x = (Inr (), x')"
  shows "stream_inv h opts s0 t0 t qs received (sent @ bytes_written sends x) tail x'"
proof -
  have conn: "conn_inv opts (x_conn x)" using inv by (simp add: stream_inv_def)
  obtain inv': "conn_inv opts (x_conn x')" "x_store x' = x_store x"
    using HandleClientWrite_ok [OF opts conn send] run by auto
  from opts conn send show ?thesis
  proof (cases rule: HandleClientWrite_cases)
    case Idle
    then show ?thesis using inv run by (simp add: bytes_written_def)
  next
    case (Nothing y)
    then have "bytes_written sends x = []" by (simp add: bytes_written_def Empty_iff)
    moreover have "conn_closed (x_conn x') \<or> writeBuffer (x_conn x') = writeBuffer (x_conn x) \<and>
        readBuffer (x_conn x') = readBuffer (x_conn x) \<and> (closeAfterWrite (x_conn x) \<longrightarrow> closeAfterWrite (x_conn x'))"
      using run Nothing(2,3) by (auto simp: HandleClientWrite_def Let_def Empty_iff split: if_splits)
    then have "stream_inv h opts s0 t0 t qs received sent tail x'"
      by (intro stream_quiet [OF inv inv' order_refl]) (use Nothing(2) in auto)
    ultimately show ?thesis by simp
  next
    case (Failed y e)
    then have "bytes_written sends x = []" by (auto simp: bytes_written_def)
    moreover have "x' = x \<or> conn_closed (x_conn x')" using Failed run by auto
    ultimately show ?thesis using stream_quiet [OF inv inv' order_refl] by auto
  next
    case (Sent y n)
    have x': "x' = y" using Sent(1) run by simp
    have w: "bytes_written sends x = take n (pending_data (x_conn x))"
      using Sent by (simp add: bytes_written_def Empty_iff)
    have split: "pending_data (x_conn x) = take n (pending_data (x_conn x)) @ pending_data (x_conn x')"
      using Sent(6) x' by simp
    have unsent: "frames (my_replies qs @ tail) = sent @ pending_data (x_conn x)" using inv Sent(2) by (simp add: stream_inv_def)
    have closing: "closeAfterWrite (x_conn x')" if "closeAfterWrite (x_conn x)" "\<not> conn_closed (x_conn x')"
      using Sent(5,10,11) that x' by auto
    have buffer: "readBuffer (x_conn x') = readBuffer (x_conn x)" if "\<not> conn_closed (x_conn x')"
      using run Sent(2-5) that by (auto simp: HandleClientWrite_def Let_def Empty_iff split: sum.splits if_splits)
    have "frames (my_replies qs @ tail) = (sent @ bytes_written sends x) @ pending_data (x_conn x')"
      by (simp only: w unsent append_assoc split [symmetric])
    moreover have "tail = [] \<and> received = frames (my_lines qs) @ readBuffer (x_conn x')"
      if "\<not> conn_closed (x_conn x')" "\<not> closeAfterWrite (x_conn x')"
      using inv Sent(2) closing buffer that by (auto simp: stream_inv_def)
    moreover have "replay s0 qs (x_store x') \<and> served_ok qs \<and> between t0 (map rq_time qs) t \<and>
        prefix (frames (my_lines qs)) received \<and> tail_ok h opts received tail"
      using inv inv'(2) by (simp add: stream_inv_def)
    ultimately show ?thesis unfolding stream_inv_def using inv'(1) by blast
  qed
qed

section \<open>Whole lives\<close>

definition same_buffers :: "ConnCtx \<Rightarrow> ConnCtx \<Rightarrow> bool" where
  "same_buffers x x' \<longleftrightarrow> x_store x' = x_store x \<and>
     (conn_closed (x_conn x') \<or> \<not> conn_closed (x_conn x) \<and> writeBuffer (x_conn x') = writeBuffer (x_conn x) \<and>
        readBuffer (x_conn x') = readBuffer (x_conn x) \<and> (closeAfterWrite (x_conn x) \<longrightarrow> closeAfterWrite (x_conn x')))"

lemma stream_same:
  "stream_inv h opts s0 t0 t qs received sent tail x \<Longrightarrow> same_buffers x x' \<Longrightarrow> conn_inv opts (x_conn x') \<Longrightarrow> t \<le> t' \<Longrightarrow>
   stream_inv h opts s0 t0 t' qs received sent tail x'"
  by (erule stream_quiet) (auto simp: same_buffers_def)

lemma hangup_buffers: "\<not> conn_closed (x_conn x) \<Longrightarrow> same_buffers x (begin_hangup x)"
  by (simp add: same_buffers_def begin_hangup_def Let_def)

lemma Refresh_buffers:
  "\<not> conn_closed (x_conn x) \<Longrightarrow> RefreshConnectionInterest ctl opts x = (r, x') \<Longrightarrow> same_buffers x x'"
  by (auto simp: same_buffers_def RefreshConnectionInterest_def Let_def split: if_splits prod.splits option.splits)

lemma same_buffers_trans: "same_buffers x y \<Longrightarrow> same_buffers y z \<Longrightarrow> same_buffers x z"
  by (auto simp: same_buffers_def)

lemma same_buffers_refl: "same_buffers x x"
  by (auto simp: same_buffers_def)

text \<open>The event in phases: the read, the write, and what keeps the buffers.\<close>

lemma HandleReadyEvent_phases:
  assumes "HandleReadyEvent h ctl opts state events io x = (r, x')" "\<not> HasIoEvent events IoEvent_Error"
    and "(if event_reads state events then HandleClientRead h opts (io_recvs io) (io_clks io) x else (Inr (), x)) = (Inr (), x1)"
    and "(if \<not> conn_closed (x_conn x1) \<and> event_writes events then HandleClientWrite opts (io_sends io) x1 else (Inr (), x1)) = (Inr (), x2)"
  shows "same_buffers x2 x'"
proof -
  define x3 where "x3 = (if \<not> conn_closed (x_conn x2) \<and> HasIoEvent events IoEvent_Hangup then begin_hangup x2 else x2)"
  have x3: "same_buffers x2 x3" using hangup_buffers [of x2] same_buffers_refl [of x2] by (simp add: x3_def)
  have rd: "(if state = Running \<and> HasIoEvent events IoEvent_Read
      then HandleClientRead h opts (io_recvs io) (io_clks io) x else (Inr (), x)) = (Inr (), x1)"
    using assms(2,3) by (simp add: event_reads_def)
  have wr: "(if \<not> conn_closed (x_conn x1) \<and> HasIoEvent events IoEvent_Write then HandleClientWrite opts (io_sends io) x1
      else (Inr (), x1)) = (Inr (), x2)"
    using assms(2,4) by (simp add: event_writes_def)
  have "(r, x') = (if \<not> conn_closed (x_conn x3) then RefreshConnectionInterest ctl opts x3 else (Inr (), x3))"
    using assms(1) unfolding HandleReadyEvent_def if_not_P [OF assms(2)] rd bind_handled.simps wr Let_def x3_def by simp
  then have "same_buffers x3 x'"
    using Refresh_buffers [of x3 ctl opts r x'] same_buffers_refl [of x3] by (auto split: if_splits)
  with x3 show ?thesis by (rule same_buffers_trans)
qed

lemma stream_event:
  assumes inv: "stream_inv h opts s0 t0 t qs received sent tail x" and opts: "opts_ok opts"
    and ok: "conn_ok opts (n + maxReadBufferBytes opts) x" and io: "io_ok h opts state events io x"
    and clks: "clocks_ok t (io_clks io) t'" and run: "HandleReadyEvent h ctl opts state events io x = (r, x')"
  shows "\<exists>qs' tail'. list_all rq_mine qs' \<and> length qs' \<le> maxReadBufferBytes opts \<and> stream_inv h opts s0 t0 t' (qs @ qs')
    (received @ (if event_reads state events then bytes_read opts (io_recvs io) x else []))
    (sent @ (if event_writes events then bytes_written (io_sends io) (after_read h opts state events io x) else [])) tail' x'"
proof -
  have t: "t \<le> t'" using clks by (simp add: clocks_ok_def)
  have inv': "conn_inv opts (x_conn x')" using HandleReadyEvent_ok [OF opts ok io, of ctl] run by auto
  show ?thesis
  proof (cases "HasIoEvent events IoEvent_Error")
    case True
    then have "same_buffers x x'" using run by (auto simp: HandleReadyEvent_def same_buffers_def)
    from stream_same [OF inv this inv' t] True show ?thesis
      by (intro exI [of _ "[]"] exI [of _ tail]) (simp add: event_reads_def event_writes_def)
  next
    case False
    have inv0: "conn_inv opts (x_conn x)" and ready: "store_ready (n + maxReadBufferBytes opts) (x_store x)"
      using ok by (simp_all add: conn_ok_def)
    have recv: "recv_ok opts (x_conn x) (io_recvs io)" using io by (simp add: io_ok_def)
    obtain x1 qs' tail' where x1: "(if event_reads state events then HandleClientRead h opts (io_recvs io) (io_clks io) x else (Inr (), x)) = (Inr (), x1)"
      and q: "list_all rq_mine qs' \<and> length qs' \<le> maxReadBufferBytes opts" "stream_inv h opts s0 t0 t' (qs @ qs')
        (received @ (if event_reads state events then bytes_read opts (io_recvs io) x else [])) sent tail' x1"
    proof (cases "event_reads state events")
      case True
      obtain y where y: "HandleClientRead h opts (io_recvs io) (io_clks io) x = (Inr (), y)"
        using HandleClientRead_ok [OF opts inv0 recv ready, of h "io_clks io"] by blast
      from stream_read [OF inv opts recv ready clks y] True y that show thesis by auto
    next
      case False
      have "stream_inv h opts s0 t0 t' qs received sent tail x" by (rule stream_same [OF inv same_buffers_refl inv0 t])
      with False that [of x "[]" tail] show thesis by simp
    qed
    have after: "after_read h opts state events io x = x1"
      using x1 by (cases "event_reads state events") (simp_all add: after_read_def)
    have send: "send_ok opts (x_conn x1) (io_sends io)" using io x1 False by (simp add: io_ok_def event_reads_def)
    have inv1: "conn_inv opts (x_conn x1)" using q(2) by (simp add: stream_inv_def)
    obtain x2 where x2: "(if \<not> conn_closed (x_conn x1) \<and> event_writes events then HandleClientWrite opts (io_sends io) x1 else (Inr (), x1)) = (Inr (), x2)"
      and w: "stream_inv h opts s0 t0 t' (qs @ qs') (received @ (if event_reads state events then bytes_read opts (io_recvs io) x else []))
        (sent @ (if event_writes events then bytes_written (io_sends io) x1 else [])) tail' x2"
    proof (cases "\<not> conn_closed (x_conn x1) \<and> event_writes events")
      case True
      obtain y where y: "HandleClientWrite opts (io_sends io) x1 = (Inr (), y)"
        using HandleClientWrite_ok [OF opts inv1 send] by blast
      from stream_write [OF q(2) opts send y] True y that show thesis by auto
    next
      case False
      then have "(if event_writes events then bytes_written (io_sends io) x1 else []) = []" by (auto simp: bytes_written_def)
      moreover have "(if \<not> conn_closed (x_conn x1) \<and> event_writes events then HandleClientWrite opts (io_sends io) x1 else (Inr (), x1)) = (Inr (), x1)"
        by (simp only: False if_False)
      ultimately show thesis using that [of x1] q(2) by simp
    qed
    from stream_same [OF w HandleReadyEvent_phases [OF run False x1 x2] inv' order_refl] q(1) show ?thesis
      unfolding after by blast
  qed
qed

text \<open>Beginning to drain executes nothing and drops nothing that is still to be sent.\<close>

lemma drain_conn_ok:
  assumes "opts_ok opts" "conn_ok opts n x" "\<not> conn_closed (x_conn x)" "drain_conn ctl opts x = (r, x')"
  shows "same_buffers x x'" "conn_inv opts (x_conn x')" "r = Inr u \<Longrightarrow> conn_ok opts n x'"
proof -
  let ?y = "upd_conn (\<lambda>conn. conn\<lparr>closeAfterWrite := True\<rparr>) (upd_conn (\<lambda>conn. conn\<lparr>readPaused := True\<rparr>) x)"
  have ok: "conn_inv opts (x_conn x)" "poller_good (x_poller x)" "registered (x_conn x) (x_poller x)" "store_ready n (x_store x)"
    using assms(2) by (simp_all add: conn_ok_def)
  have "same_buffers x x' \<and> conn_inv opts (x_conn x') \<and> (r = Inr u \<longrightarrow> conn_ok opts n x')"
  proof (cases "OutputBuffer_Empty (writeBuffer (x_conn x))")
    case True
    then have "x' = upd_conn MarkClosed ?y" using assms(4) by (simp add: drain_conn_def Let_def)
    moreover have "registeredEvents (MarkClosed conn) = registeredEvents conn" for conn by (simp add: MarkClosed_def)
    ultimately show ?thesis using ok by (simp add: same_buffers_def conn_ok_def registered_def)
  next
    case False
    then have x': "RefreshConnectionInterest ctl opts ?y = (r, x')" using assms(4) by (simp add: drain_conn_def Let_def)
    have y: "conn_inv opts (x_conn ?y)" "poller_good (x_poller ?y)" "registered (x_conn ?y) (x_poller ?y)"
      using ok False by (auto simp: conn_inv_def registered_def Empty_iff)
    have same: "same_buffers x x'"
      using same_buffers_trans [of x ?y x'] Refresh_buffers [OF _ x'] assms(3) by (simp add: same_buffers_def)
    from assms(1) y show ?thesis
    proof (cases rule: RefreshConnectionInterest_cases [where ctl = ctl])
      case (Ok x'')
      then show ?thesis using x' same ok(4) by (simp add: conn_ok_def)
    next
      case (Failed x'' e)
      then show ?thesis using x' same by auto
    qed
  qed
  then show "same_buffers x x'" "conn_inv opts (x_conn x')" "r = Inr u \<Longrightarrow> conn_ok opts n x'" by blast+
qed

text \<open>The requests of others, as entries of the history.\<close>

definition others :: "(string \<times> time_point) list \<Rightarrow> string list \<Rightarrow> request list" where
  "others requests replies =
     map (\<lambda>((line, now), r). \<lparr>rq_mine = False, rq_line = line, rq_time = now, rq_reply = r\<rparr>) (zip requests replies)"

definition not_mine :: "request list \<Rightarrow> (string \<times> time_point) list" where
  "not_mine qs = map (\<lambda>q. (rq_line q, rq_time q)) (filter (\<lambda>q. \<not> rq_mine q) qs)"

lemma not_mine_append [simp]: "not_mine (qs @ qs') = not_mine qs @ not_mine qs'"
  by (simp add: not_mine_def)

lemma not_mine_mine: "list_all rq_mine qs \<Longrightarrow> not_mine qs = []"
  by (induction qs) (simp_all add: not_mine_def)

lemma others_simps:
  assumes "length replies = length requests"
  shows "not_mine (others requests replies) = requests" "my_lines (others requests replies) = []"
    "my_replies (others requests replies) = []" "map rq_time (others requests replies) = map snd requests"
    "served_ok (others requests replies)"
  using assms
  by (induction replies requests rule: list_induct2)
    (auto simp: others_def not_mine_def my_lines_def my_replies_def served_ok_def)

lemma session_replay:
  assumes "store_ready (n + length requests) s" "\<forall>(line, now) \<in> set requests. length line \<le> frame_limit"
  shows "\<exists>rs s'. session s requests = Inr (rs, s') \<and> length rs = length requests \<and> store_ready n s' \<and>
    replay s (others requests rs) s'"
  using assms
proof (induction requests arbitrary: s)
  case (Cons q requests)
  obtain line now where q: "q = (line, now)" by fastforce
  have good: "kv_good (Suc (n + length requests)) s" and fits: "store_fits s" and len: "length line \<le> frame_limit"
    using Cons.prems q by (simp_all add: store_ready_def)
  obtain r s1 where e: "CommandExecutor_Execute s (ParseCommand line) now = Inr (r, s1)" "kv_good (n + length requests) s1"
    using Execute_refines [OF good simulates_self order_refl] by blast
  have "store_ready (n + length requests) s1" using e Execute_fits [OF e(1) fits len] by (simp add: store_ready_def)
  from Cons.IH [OF this] Cons.prems(2) obtain rs s' where IH: "session s1 requests = Inr (rs, s')"
    "length rs = length requests" "store_ready n s'" "replay s1 (others requests rs) s'" by auto
  have "s1 = s" if "is_stats line" using e(1) that by (simp add: CommandExecutor_Execute_def is_stats_def)
  then have "replay s (others (q # requests) (r # rs)) s'" using e(1) IH(4) by (auto simp: q others_def)
  with e(1) IH show ?case by (intro exI [of _ "r # rs"] exI [of _ s']) (simp add: q)
qed (simp add: others_def)

text \<open>The readings of the clock along the steps.\<close>

fun timed :: "time_point \<Rightarrow> conn_step list \<Rightarrow> time_point \<Rightarrow> bool" where
  "timed t [] T \<longleftrightarrow> t \<le> T"
| "timed t (Ready state events io # steps) T \<longleftrightarrow> (\<exists>t'. clocks_ok t (io_clks io) t' \<and> timed t' steps T)"
| "timed t (Draining_begins # steps) T \<longleftrightarrow> timed t steps T"
| "timed t (Others requests metrics p # steps) T \<longleftrightarrow> (\<exists>t'. between t (map snd requests) t' \<and> timed t' steps T)"

lemma timed_le: "timed t steps T \<Longrightarrow> t \<le> T"
proof (induction t steps T rule: timed.induct)
  case (2 t state events io steps T)
  then show ?case by (fastforce simp: clocks_ok_def)
next
  case (4 t requests metrics p steps T)
  then show ?case using between_le by fastforce
qed simp_all

fun others_of :: "conn_step list \<Rightarrow> (string \<times> time_point) list" where
  "others_of [] = []"
| "others_of (Ready state events io # steps) = others_of steps"
| "others_of (Draining_begins # steps) = others_of steps"
| "others_of (Others requests metrics p # steps) = requests @ others_of steps"

text \<open>Runs in which nothing is thrown; they can be put together.\<close>

fun conn_goes :: "endianness \<Rightarrow> ctl_oracle \<Rightarrow> NetworkOptions \<Rightarrow> conn_step list \<Rightarrow> ConnCtx \<Rightarrow> ConnCtx \<Rightarrow> bool" where
  "conn_goes h ctl opts [] x x' \<longleftrightarrow> x' = x"
| "conn_goes h ctl opts (Ready state events io # steps) x x' \<longleftrightarrow>
     io_ok h opts state events io x \<and>
     (\<exists>y. HandleReadyEvent h ctl opts state events io x = (Inr (), y) \<and> conn_goes h ctl opts steps y x')"
| "conn_goes h ctl opts (Draining_begins # steps) x x' \<longleftrightarrow>
     \<not> conn_closed (x_conn x) \<and> (\<exists>y. drain_conn ctl opts x = (Inr (), y) \<and> conn_goes h ctl opts steps y x')"
| "conn_goes h ctl opts (Others requests metrics p # steps) x x' \<longleftrightarrow>
     (\<forall>(line, now) \<in> set requests. length line \<le> frame_limit) \<and> poller_good p \<and> registered (x_conn x) p \<and>
     (\<exists>replies store. session (x_store x) requests = Inr (replies, store) \<and>
        conn_goes h ctl opts steps (x\<lparr>x_store := store, x_metrics := metrics, x_poller := p\<rparr>) x')"

lemma conn_goes_append:
  "conn_goes h ctl opts steps x y \<Longrightarrow> conn_goes h ctl opts steps' y z \<Longrightarrow> conn_goes h ctl opts (steps @ steps') x z"
  by (induction h ctl opts steps x y rule: conn_goes.induct) auto

lemma conn_run_append:
  "conn_goes h ctl opts steps x y \<Longrightarrow> conn_run h ctl opts steps x = (received, sent, y) \<Longrightarrow>
   conn_run h ctl opts (steps @ steps') x =
     (let (received', sent', z) = conn_run h ctl opts steps' y in (received @ received', sent @ sent', z))"
  by (induction h ctl opts steps x y arbitrary: received sent rule: conn_goes.induct)
    (fastforce simp: Let_def split: prod.splits)+

lemma timed_append: "timed t steps t' \<Longrightarrow> timed t' steps' T \<Longrightarrow> timed t (steps @ steps') T"
proof (induction t steps t' rule: timed.induct)
  case (1 t t')
  then show ?case
  proof (induction t' steps' T rule: timed.induct)
    case (2 t' state events io steps T)
    then show ?case by (auto simp: clocks_ok_def intro: order_trans)
  next
    case (4 t' requests metrics p steps T)
    then show ?case using between_append [of t "[]" t'] by fastforce
  qed auto
qed auto

lemma conn_goes_run:
  "conn_goes h ctl opts steps x x' \<Longrightarrow>
   steps_ok h ctl opts steps x \<and> (\<exists>received sent. conn_run h ctl opts steps x = (received, sent, x'))"
  by (induction h ctl opts steps x x' rule: conn_goes.induct) (fastforce simp: Let_def)+

lemma others_of_append [simp]: "others_of (steps @ steps') = others_of steps @ others_of steps'"
  by (induction steps rule: others_of.induct) simp_all

lemma conn_run_stream:
  assumes "stream_inv h opts s0 t0 t qs received sent tail x" "opts_ok opts"
    and "conn_ok opts (n + sum_list (map (step_budget opts) steps)) x" "steps_ok h ctl opts steps x" "timed t steps T"
    and "conn_run h ctl opts steps x = (received', sent', x')"
  shows "\<exists>qs' tail'. stream_inv h opts s0 t0 T (qs @ qs') (received @ received') (sent @ sent') tail' x' \<and>
    prefix (not_mine qs') (others_of steps) \<and> length qs' \<le> sum_list (map (step_budget opts) steps)"
  using assms
proof (induction steps arbitrary: t qs received sent tail x received' sent')
  case Nil
  then have "stream_inv h opts s0 t0 T qs received sent tail x"
    by (intro stream_same [OF Nil.prems(1) same_buffers_refl]) (simp_all add: conn_ok_def)
  with Nil show ?case by (intro exI [of _ "[]"] exI [of _ tail]) (simp add: not_mine_def)
next
  case (Cons step steps)
  let ?n = "n + sum_list (map (step_budget opts) steps)"
  show ?case
  proof (cases step)
    case (Ready state events io)
    obtain r y where y: "HandleReadyEvent h ctl opts state events io x = (r, y)" by fastforce
    let ?rd = "if event_reads state events then bytes_read opts (io_recvs io) x else []"
      and ?wr = "if event_writes events then bytes_written (io_sends io) (after_read h opts state events io x) else []"
    have ok: "conn_ok opts (?n + maxReadBufferBytes opts) x" and io: "io_ok h opts state events io x"
      using Cons.prems(3,4) Ready by (simp_all add: ac_simps)
    obtain t' where t': "clocks_ok t (io_clks io) t'" "timed t' steps T" using Cons.prems(5) Ready by auto
    obtain qs' tail' where q: "list_all rq_mine qs'" "length qs' \<le> maxReadBufferBytes opts" "stream_inv h opts s0 t0 t' (qs @ qs') (received @ ?rd) (sent @ ?wr) tail' y"
      using stream_event [OF Cons.prems(1,2) ok io t'(1) y] by blast
    show ?thesis
    proof (cases r)
      case (Inl e)
      then have end': "received' = ?rd" "sent' = ?wr" "x' = y" using Cons.prems(6) Ready y by (simp_all add: Let_def)
      have "conn_inv opts (x_conn y)" using q(3) by (simp add: stream_inv_def)
      from stream_same [OF q(3) same_buffers_refl this timed_le [OF t'(2)]] show ?thesis
        unfolding end' using not_mine_mine [OF q(1)] q(2) Ready by (intro exI [of _ qs'] exI [of _ tail']) simp
    next
      case (Inr u)
      have ok': "conn_ok opts ?n y" using HandleReadyEvent_ok [OF Cons.prems(2) ok io, of ctl] y Inr by auto
      obtain rd wr z where run: "conn_run h ctl opts steps y = (rd, wr, z)" by (metis prod_cases3)
      then have end': "received' = ?rd @ rd" "sent' = ?wr @ wr" "x' = z" using Cons.prems(6) Ready y Inr by (simp_all add: Let_def)
      have "steps_ok h ctl opts steps y" using Cons.prems(4) Ready y by simp
      from Cons.IH [OF q(3) Cons.prems(2) ok' this t'(2)] run end'(3) obtain qs'' tail'' where
        "stream_inv h opts s0 t0 T ((qs @ qs') @ qs'') ((received @ ?rd) @ rd) ((sent @ ?wr) @ wr) tail'' x'"
        "prefix (not_mine qs'') (others_of steps)" "length qs'' \<le> sum_list (map (step_budget opts) steps)" by blast
      then show ?thesis unfolding end' using not_mine_mine [OF q(1)] q(2) Ready
        by (intro exI [of _ "qs' @ qs''"] exI [of _ tail'']) simp
    qed
  next
    case Draining_begins
    obtain r y where y: "drain_conn ctl opts x = (r, y)" by fastforce
    have ok: "conn_ok opts ?n x" "\<not> conn_closed (x_conn x)" and t: "timed t steps T"
      using Cons.prems(3-5) Draining_begins by simp_all
    note d = drain_conn_ok [OF Cons.prems(2) ok y]
    show ?thesis
    proof (cases r)
      case (Inl e)
      then have end': "received' = []" "sent' = []" "x' = y" using Cons.prems(6) Draining_begins y by simp_all
      from stream_same [OF Cons.prems(1) d(1,2) timed_le [OF t]] show ?thesis
        unfolding end' by (intro exI [of _ "[]"] exI [of _ tail]) (simp add: not_mine_def)
    next
      case (Inr u)
      then have "steps_ok h ctl opts steps y" "conn_run h ctl opts steps y = (received', sent', x')"
        using Cons.prems(4,6) Draining_begins y by simp_all
      from Cons.IH [OF stream_same [OF Cons.prems(1) d(1,2) order_refl] Cons.prems(2) _ this(1) t this(2)] d(3) Inr
      show ?thesis by (auto simp: Draining_begins)
    qed
  next
    case (Others requests metrics p)
    have "store_ready (?n + length requests) (x_store x)" using Cons.prems(3) Others by (simp add: conn_ok_def ac_simps)
    moreover have "\<forall>(line, now) \<in> set requests. length line \<le> frame_limit" using Cons.prems(4) Others by simp
    ultimately obtain rs s' where s: "session (x_store x) requests = Inr (rs, s')" "length rs = length requests"
      "store_ready ?n s'" "replay (x_store x) (others requests rs) s'" using session_replay by blast
    obtain t' where t': "between t (map snd requests) t'" "timed t' steps T" using Cons.prems(5) Others by auto
    let ?y = "x\<lparr>x_store := s', x_metrics := metrics, x_poller := p\<rparr>" and ?q = "others requests rs"
    note o = others_simps [OF s(2)]
    have "between t0 (map rq_time (qs @ ?q)) t'"
      using between_append [OF _ t'(1), of t0 "map rq_time qs"] Cons.prems(1) o(4) by (simp add: stream_inv_def)
    moreover have "served_ok (qs @ ?q)" using Cons.prems(1) o(5) by (auto simp: stream_inv_def served_ok_def)
    moreover have "replay s0 (qs @ ?q) s'" unfolding replay_append using Cons.prems(1) s(4) by (auto simp: stream_inv_def)
    ultimately have "stream_inv h opts s0 t0 t' (qs @ ?q) received sent tail ?y"
      using Cons.prems(1) o(2,3) by (auto simp: stream_inv_def)
    moreover have "conn_ok opts ?n ?y" using Cons.prems(3,4) s(3) Others by (simp add: conn_ok_def)
    moreover have "steps_ok h ctl opts steps ?y" "conn_run h ctl opts steps ?y = (received', sent', x')"
      using Cons.prems(4,6) Others s(1) by simp_all
    ultimately obtain qs'' tail'' where
      "stream_inv h opts s0 t0 T ((qs @ ?q) @ qs'') (received @ received') (sent @ sent') tail'' x'"
      "prefix (not_mine qs'') (others_of steps)" "length qs'' \<le> sum_list (map (step_budget opts) steps)"
      using Cons.IH [OF _ Cons.prems(2) _ _ t'(2), of "qs @ ?q" received sent tail ?y] by blast
    moreover have "length ?q = length requests" using s(2) by (simp add: others_def)
    ultimately show ?thesis using o(1) Others by (intro exI [of _ "?q @ qs''"] exI [of _ tail'']) simp
  qed
qed

lemma conn_ok_good: "conn_ok opts n x \<Longrightarrow> k \<le> n \<Longrightarrow> kv_good k (x_store x)"
  by (auto simp: conn_ok_def store_ready_def kv_good_def)

text \<open>The life of a new connection over a store whose live keys an abstract map describes.\<close>

lemma conn_run_history:
  assumes "opts_ok opts" "conn_ok opts (sum_list (map (step_budget opts) steps)) x" "simulates t (x_store x) m"
    and "readBuffer (x_conn x) = []" "OutputBuffer_Data (writeBuffer (x_conn x)) = []"
    and "steps_ok h ctl opts steps x" "timed t steps T" "conn_run h ctl opts steps x = (received, sent, x')"
  shows "\<exists>qs tail. stream_inv h opts (x_store x) t T qs received sent tail x' \<and> history_ok m qs \<and>
    prefix (not_mine qs) (others_of steps)"
proof -
  have "conn_inv opts (x_conn x)" using assms(2) by (simp add: conn_ok_def)
  from conn_run_stream [OF stream_init [OF this assms(4,5)] assms(1) _ assms(6-8), of 0] assms(2) obtain qs tail where
    inv: "stream_inv h opts (x_store x) t T qs received sent tail x'" and
    rest: "prefix (not_mine qs) (others_of steps)" "length qs \<le> sum_list (map (step_budget opts) steps)" by auto
  have "replay (x_store x) qs (x_store x')" "sorted (t # map rq_time qs)"
    using inv between_sorted by (auto simp: stream_inv_def)
  then have "history_ok m qs" by (rule replay_history [OF _ conn_ok_good [OF assms(2) rest(2)] assms(3)])
  with inv rest(1) show ?thesis by blast
qed

text \<open>A connection answers what it receives, whatever happens to it and to the store in the meantime.  The
  requests executed on it and those that others had executed form one sequential history, in the order
  of the clock, which the abstract map of values and deadlines explains; the requests of the
  connection in it are the first that were received, and what was sent is, from the start and without
  a gap, their framed answers.  An open connection that reads has answered every complete request;
  and only a stream that does not decode, or a read limit below the largest frame, is answered with
  something else.  This holds for every way in which the bytes are cut, delayed, or sent back
  partially, under back pressure, and until the connection is closed or its reactor fails.\<close>

lemma connection_history:
  assumes "opts_ok opts" "conn_ok opts (sum_list (map (step_budget opts) steps)) x" "simulates t (x_store x) m"
    and "readBuffer (x_conn x) = []" "OutputBuffer_Data (writeBuffer (x_conn x)) = []"
    and "steps_ok h ctl opts steps x" "timed t steps T" "conn_run h ctl opts steps x = (received, sent, x')"
  shows "\<exists>qs tail. replay (x_store x) qs (x_store x') \<and> history_ok m qs \<and> sorted (map rq_time qs) \<and>
    prefix (not_mine qs) (others_of steps) \<and> prefix (frames (my_lines qs)) received \<and>
    prefix sent (frames (my_replies qs @ tail)) \<and> tail_ok h opts received tail \<and>
    (\<not> conn_closed (x_conn x') \<and> \<not> closeAfterWrite (x_conn x') \<longrightarrow>
       tail = [] \<and> FrameCodec_Decode h received = (Inr (my_lines qs), readBuffer (x_conn x')) \<and>
       sent @ OutputBuffer_Data (writeBuffer (x_conn x')) = frames (my_replies qs))"
proof -
  obtain qs tail where inv: "stream_inv h opts (x_store x) t T qs received sent tail x'" and history: "history_ok m qs"
    and rest: "prefix (not_mine qs) (others_of steps)" using conn_run_history [OF assms] by blast
  have times: "sorted (t # map rq_time qs)" using inv between_sorted by (auto simp: stream_inv_def)
  have "FrameCodec_Decode h received = (Inr (my_lines qs), readBuffer (x_conn x'))"
    if "\<not> conn_closed (x_conn x')" "\<not> closeAfterWrite (x_conn x')"
  proof -
    have "received = frames (my_lines qs) @ readBuffer (x_conn x')" "incomplete (readBuffer (x_conn x'))"
      "\<forall>p \<in> set (my_lines qs). length p \<le> frame_limit"
      using inv that by (auto simp: stream_inv_def conn_inv_def served_ok_def my_lines_def)
    then show ?thesis using Decode_decomposed(1) by simp
  qed
  with inv times history rest show ?thesis
    by (intro exI [of _ qs] exI [of _ tail]) (auto simp: stream_inv_def)
qed

end
