(* ===== verification/Reactor_Stream.thy ===== *)
theory Reactor_Stream
  imports Connection_Stream Reactor_Properties
begin

text \<open>
  A sub-reactor seen from one of its connections: whatever the reactor does, for this connection or for
  others, is a step of the life of the connection as \<open>Connection_Stream\<close> has it.
\<close>

section \<open>What an event of another connection is for this one\<close>

text \<open>The requests that an event executes, as a session on the store.\<close>

lemma replay_session:
  "replay s qs s' \<Longrightarrow>
   \<exists>rs. session s (map (\<lambda>q. (rq_line q, rq_time q)) (filter (\<lambda>q. \<not> is_stats (rq_line q)) qs)) = Inr (rs, s')"
  by (induction qs arbitrary: s) (fastforce split: if_splits sum.splits)+

lemma between_filter: "between t (map f qs) t' \<Longrightarrow> between t (map f (filter P qs)) t'"
  by (auto simp: between_def sorted_append intro: sorted_filter)

text \<open>The frames that complete in a read, and the clock readings at which their requests are executed, as far as they are.\<close>

definition read_frames ::
  "endianness \<Rightarrow> NetworkOptions \<Rightarrow> string sysret list \<Rightarrow> (nat \<Rightarrow> clock_readings) \<Rightarrow> ConnCtx \<Rightarrow> (string \<times> time_point) list" where
  "read_frames h opts recvs clks x =
     (case FrameCodec_Decode h (readBuffer (x_conn x) @ bytes_read opts recvs x) of
        (Inr ps, rest) \<Rightarrow> zip ps (map (\<lambda>i. clk_store (clks i)) [0..<length ps])
      | (Inl e, rest) \<Rightarrow> [])"

lemma Read_requests:
  assumes opts: "opts_ok opts" and conn: "conn_inv opts (x_conn x)" and recv: "recv_ok opts (x_conn x) recvs"
    and ready: "store_ready (n + maxReadBufferBytes opts) (x_store x)" and clks: "clocks_ok t clks t'"
    and run: "HandleClientRead h opts recvs clks x = (Inr (), x')"
  shows "\<exists>qs. replay (x_store x) qs (x_store x') \<and> list_all rq_mine qs \<and> served_ok qs \<and>
    between t (map rq_time qs) t' \<and> length qs \<le> maxReadBufferBytes opts \<and>
    prefix (map (\<lambda>q. (rq_line q, rq_time q)) qs) (read_frames h opts recvs clks x)"
proof -
  have t: "t \<le> t'" using clks by (simp add: clocks_ok_def)
  have quiet: ?thesis if "x_store x' = x_store x"
    using that t by (intro exI [of _ "[]"]) (simp add: served_ok_def)
  from conn recv run show ?thesis
  proof (cases rule: Read_cases)
    case (Frames ps rest y)
    let ?ps = "zip (map clks [0..<length ps]) ps"
    have ready': "store_ready (n + length ?ps) (x_store y)" using store_ready_mono [OF ready] Frames(6,8) by simp
    have small: "\<forall>(clk, p) \<in> set ?ps. length p \<le> frame_limit" using Frames(4) by (auto dest: set_zip_rightD)
    from process_payloads_stream [OF opts Frames(7,10,11) ready' small clocks_between [OF clks], of h] Frames(8,13)
    obtain qs where qs: "replay (x_store x) qs (x_store x')" "list_all rq_mine qs" "served_ok qs"
      "between t (map rq_time qs) t'" "prefix (my_lines qs) (map snd ?ps)"
      "prefix (map (\<lambda>q. (rq_line q, rq_time q)) qs) (map (\<lambda>(clk, p). (p, clk_store clk)) ?ps)" by auto
    have "map (\<lambda>(clk, p). (p, clk_store clk)) ?ps = zip ps (map (\<lambda>i. clk_store (clks i)) [0..<length ps])"
      by (rule nth_equalityI) simp_all
    then have "prefix (map (\<lambda>q. (rq_line q, rq_time q)) qs) (read_frames h opts recvs clks x)"
      using qs(6) Frames(5) by (simp add: read_frames_def)
    moreover have "length qs \<le> length ps" using prefix_length_le [OF qs(6)] by simp
    ultimately show ?thesis using qs(1-4) Frames(6) by (intro exI [of _ qs]) simp
  next
    case Quiet
    from Quiet(1) show ?thesis by (rule quiet)
  next
    case (Rejected err y b z)
    from Rejected(9) [unfolded Rejected(8)] show ?thesis by (rule quiet)
  qed
qed

definition event_frames ::
  "endianness \<Rightarrow> NetworkOptions \<Rightarrow> ServerState \<Rightarrow> IoEvent \<Rightarrow> io_results \<Rightarrow> ConnCtx \<Rightarrow> (string \<times> time_point) list" where
  "event_frames h opts state events io x =
     (if event_reads state events then read_frames h opts (io_recvs io) (io_clks io) x else [])"

lemma subseq_filter_prefix: "prefix (map f xs) ys \<Longrightarrow> subseq (map f (filter P xs)) ys"
  by (meson prefix_imp_subseq subseq_filter_left subseq_map subseq_order.trans)

lemma event_requests:
  assumes opts: "opts_ok opts" and ok: "conn_ok opts (n + maxReadBufferBytes opts) x" and io: "io_ok h opts state events io x"
    and clks: "clocks_ok t (io_clks io) t'" and run: "HandleReadyEvent h ctl opts state events io x = (r, x')"
  shows "\<exists>requests rs. session (x_store x) requests = Inr (rs, x_store x') \<and> length requests \<le> maxReadBufferBytes opts \<and>
    (\<forall>(line, now) \<in> set requests. length line \<le> frame_limit) \<and> between t (map snd requests) t' \<and>
    subseq requests (event_frames h opts state events io x)"
proof -
  have t: "t \<le> t'" using clks by (simp add: clocks_ok_def)
  have conn: "conn_inv opts (x_conn x)" and ready: "store_ready (n + maxReadBufferBytes opts) (x_store x)"
    using ok by (simp_all add: conn_ok_def)
  have recv: "recv_ok opts (x_conn x) (io_recvs io)" using io by (simp add: io_ok_def)
  obtain qs where qs: "replay (x_store x) qs (x_store x')" "list_all rq_mine qs" "served_ok qs"
    "between t (map rq_time qs) t'" "length qs \<le> maxReadBufferBytes opts"
    "prefix (map (\<lambda>q. (rq_line q, rq_time q)) qs) (event_frames h opts state events io x)"
  proof (cases "HasIoEvent events IoEvent_Error")
    case True
    then show thesis using run t by (intro that [of "[]"]) (auto simp: HandleReadyEvent_def served_ok_def)
  next
    case False
    obtain x1 where x1: "(if event_reads state events then HandleClientRead h opts (io_recvs io) (io_clks io) x else (Inr (), x)) = (Inr (), x1)"
      and inv1: "conn_inv opts (x_conn x1)"
      using HandleClientRead_ok [OF opts conn recv ready, of h "io_clks io"] conn by (cases "event_reads state events") auto
    have send: "send_ok opts (x_conn x1) (io_sends io)" using io x1 False by (simp add: io_ok_def event_reads_def)
    obtain x2 where x2: "(if \<not> conn_closed (x_conn x1) \<and> event_writes events then HandleClientWrite opts (io_sends io) x1 else (Inr (), x1)) = (Inr (), x2)"
      and "x_store x2 = x_store x1"
      using HandleClientWrite_ok [OF opts inv1 send] by (cases "\<not> conn_closed (x_conn x1) \<and> event_writes events") auto
    then have store: "x_store x' = x_store x1" using HandleReadyEvent_phases [OF run False x1 x2] by (simp add: same_buffers_def)
    show thesis
    proof (cases "event_reads state events")
      case True
      then show thesis using Read_requests [OF opts conn recv ready clks, of h x1] x1 store that by (auto simp: event_frames_def)
    next
      case False
      then show thesis using x1 store t by (intro that [of "[]"]) (simp_all add: served_ok_def)
    qed
  qed
  let ?qs = "filter (\<lambda>q. \<not> is_stats (rq_line q)) qs"
  obtain rs where "session (x_store x) (map (\<lambda>q. (rq_line q, rq_time q)) ?qs) = Inr (rs, x_store x')"
    using replay_session [OF qs(1)] by blast
  moreover have "\<forall>(line, now) \<in> set (map (\<lambda>q. (rq_line q, rq_time q)) ?qs). length line \<le> frame_limit"
    using qs(2,3) by (auto simp: served_ok_def list_all_iff)
  moreover have "between t (map snd (map (\<lambda>q. (rq_line q, rq_time q)) ?qs)) t'"
    using between_filter [OF qs(4)] by (simp add: o_def)
  moreover have "length (map (\<lambda>q. (rq_line q, rq_time q)) ?qs) \<le> maxReadBufferBytes opts"
    using le_trans [OF length_filter_le qs(5)] by simp
  moreover have "subseq (map (\<lambda>q. (rq_line q, rq_time q)) ?qs) (event_frames h opts state events io x)"
    using subseq_filter_prefix [OF qs(6)] .
  ultimately show ?thesis by blast
qed

section \<open>Following a connection\<close>

text \<open>What goes over a connection, and what others have executed in the meantime, at most.\<close>

record traffic =
  t_received :: string
  t_sent :: string
  t_others :: "(string \<times> time_point) list"

definition quiet :: traffic where
  "quiet = \<lparr>t_received = [], t_sent = [], t_others = []\<rparr>"

definition join :: "traffic \<Rightarrow> traffic \<Rightarrow> traffic" where
  "join tr tr' = \<lparr>t_received = t_received tr @ t_received tr', t_sent = t_sent tr @ t_sent tr',
     t_others = t_others tr @ t_others tr'\<rparr>"

lemma join_quiet [simp]: "join quiet tr = tr" "join tr quiet = tr"
  by (simp_all add: join_def quiet_def)

text \<open>The context moves on by steps of the life of the connection, with this traffic, in which at most \<open>n\<close>
  requests are executed.\<close>

definition follows ::
  "endianness \<Rightarrow> ctl_oracle \<Rightarrow> NetworkOptions \<Rightarrow> nat \<Rightarrow> time_point \<Rightarrow> time_point \<Rightarrow> traffic \<Rightarrow> ConnCtx \<Rightarrow> ConnCtx \<Rightarrow> bool" where
  "follows h ctl opts n t T tr x x' \<longleftrightarrow>
     (\<exists>steps. conn_goes h ctl opts steps x x' \<and> conn_run h ctl opts steps x = (t_received tr, t_sent tr, x') \<and>
        timed t steps T \<and> sum_list (map (step_budget opts) steps) \<le> n \<and> subseq (others_of steps) (t_others tr))"

lemma follows_refl: "t \<le> T \<Longrightarrow> follows h ctl opts n t T quiet x x"
  unfolding follows_def by (intro exI [of _ "[]"]) (simp add: quiet_def)

lemma follows_trans:
  assumes "follows h ctl opts n t t' tr x y" "follows h ctl opts n' t' T tr' y z"
  shows "follows h ctl opts (n + n') t T (join tr tr') x z"
proof -
  obtain steps where 1: "conn_goes h ctl opts steps x y" "conn_run h ctl opts steps x = (t_received tr, t_sent tr, y)"
    "timed t steps t'" "sum_list (map (step_budget opts) steps) \<le> n" "subseq (others_of steps) (t_others tr)"
    using assms(1) by (auto simp: follows_def)
  obtain steps' where 2: "conn_goes h ctl opts steps' y z" "conn_run h ctl opts steps' y = (t_received tr', t_sent tr', z)"
    "timed t' steps' T" "sum_list (map (step_budget opts) steps') \<le> n'" "subseq (others_of steps') (t_others tr')"
    using assms(2) by (auto simp: follows_def)
  show ?thesis unfolding follows_def join_def
    using conn_goes_append [OF 1(1) 2(1)] conn_run_append [OF 1(1,2)] 2(2) timed_append [OF 1(3) 2(3)] 1(4) 2(4)
      list_emb_append_mono [OF 1(5) 2(5)]
    by (intro exI [of _ "steps @ steps'"]) simp
qed

text \<open>Whatever leaves the connection as it is and has requests executed is a step of others.\<close>

lemma elsewhere_follows:
  assumes "reactor_ok opts n r'" "um_find (r_clients r') fd = Some conn"
    and "session (r_store r) requests = Inr (rs, r_store r')" "\<forall>(line, now) \<in> set requests. length line \<le> frame_limit"
    and "between t (map snd requests) T" "length requests \<le> k" "subseq requests reqs"
  shows "follows h ctl opts k t T (quiet\<lparr>t_others := reqs\<rparr>) (ctx_of r conn) (ctx_of r' conn)"
proof -
  have "conn_ok opts n (ctx_of r' conn)" using reactor_ok_client [OF assms(1,2)] by simp
  then have "poller_good (poller_of r')" "registered conn (poller_of r')"
    by (simp_all add: conn_ok_def ctx_of_def poller_of_def)
  then show ?thesis unfolding follows_def using assms(3-7)
    by (intro exI [of _ "[Others requests (r_metrics r') (poller_of r')]"]) (auto simp: ctx_of_def poller_of_def quiet_def)
qed

lemma quiet_follows:
  assumes "reactor_ok opts n r'" "um_find (r_clients r') fd = Some conn" "r_store r' = r_store r" "t \<le> T"
  shows "follows h ctl opts k t T quiet (ctx_of r conn) (ctx_of r' conn)"
  using elsewhere_follows [OF assms(1,2), of r "[]" "[]" t T k "[]" h ctl] assms(3,4) by (simp add: quiet_def)

section \<open>Serving\<close>

text \<open>The traffic of a connection in an event, and in a list of events of the reactor.\<close>

definition event_traffic :: "endianness \<Rightarrow> NetworkOptions \<Rightarrow> ServerState \<Rightarrow> IoEvent \<Rightarrow> io_results \<Rightarrow> ConnCtx \<Rightarrow> traffic" where
  "event_traffic h opts state events io x =
     \<lparr>t_received = if event_reads state events then bytes_read opts (io_recvs io) x else [],
      t_sent = if event_writes events then bytes_written (io_sends io) (after_read h opts state events io x) else [],
      t_others = []\<rparr>"

fun client_traffic ::
  "endianness \<Rightarrow> ctl_oracle \<Rightarrow> NetworkOptions \<Rightarrow> int \<Rightarrow> (ReadyEvent \<times> io_results) list \<Rightarrow> SubReactor \<Rightarrow> traffic" where
  "client_traffic h ctl opts fd [] r = quiet"
| "client_traffic h ctl opts fd ((rEvent, io) # rest) r =
     (if ready_fd rEvent = control_fd r then client_traffic h ctl opts fd rest r
      else
        case um_find (r_clients r) (ready_fd rEvent) of
          None \<Rightarrow> client_traffic h ctl opts fd rest r
        | Some conn \<Rightarrow>
            let x = ctx_of r conn;
                (res, x') = HandleReadyEvent h ctl opts (r_state r) (ready_events rEvent) io x
            in join (if ready_fd rEvent = fd then event_traffic h opts (r_state r) (ready_events rEvent) io x
                     else quiet\<lparr>t_others := event_frames h opts (r_state r) (ready_events rEvent) io x\<rparr>)
                 (client_traffic h ctl opts fd rest (put_ctx (ready_fd rEvent) x' r)))"

text \<open>The readings of the clock along a list of events.\<close>

fun items_timed :: "time_point \<Rightarrow> (ReadyEvent \<times> io_results) list \<Rightarrow> time_point \<Rightarrow> bool" where
  "items_timed t [] T \<longleftrightarrow> t \<le> T"
| "items_timed t ((ev, io) # items) T \<longleftrightarrow> (\<exists>t'. clocks_ok t (io_clks io) t' \<and> items_timed t' items T)"

lemma ctx_of_put [simp]: "r_poller r \<noteq> None \<Longrightarrow> ctx_of (put_ctx fd x r) (x_conn x) = x"
  by (simp add: ctx_of_def put_ctx_def)

lemma event_follow:
  assumes opts: "opts_ok opts" and ok: "reactor_ok opts (n + maxReadBufferBytes opts) r" and set: "settled r"
    and c0: "um_find (r_clients r) k = Some c0" and io: "io_ok h opts (r_state r) events io (ctx_of r c0)"
    and x: "HandleReadyEvent h ctl opts (r_state r) events io (ctx_of r c0) = (Inr (), x)"
    and clks: "clocks_ok t (io_clks io) t'" and conn: "um_find (r_clients r) fd = Some conn"
  shows "\<exists>c. um_find (r_clients (put_ctx k x r)) fd = Some c \<and>
    follows h ctl opts (maxReadBufferBytes opts) t t'
      (if k = fd then event_traffic h opts (r_state r) events io (ctx_of r c0)
       else quiet\<lparr>t_others := event_frames h opts (r_state r) events io (ctx_of r c0)\<rparr>)
      (ctx_of r conn) (ctx_of (put_ctx k x r) c)"
proof (cases "k = fd")
  case True
  let ?tr = "event_traffic h opts (r_state r) events io (ctx_of r conn)" and ?step = "Ready (r_state r) events io"
  have same: "c0 = conn" and poller: "r_poller r \<noteq> None" using True c0 conn ok by (simp_all add: reactor_ok_def)
  have "t \<le> t'" using clks by (simp add: clocks_ok_def)
  then have "timed t [?step] t'" using clks by auto
  moreover have "conn_goes h ctl opts [?step] (ctx_of r conn) x" using io x same by simp
  moreover have "conn_run h ctl opts [?step] (ctx_of r conn) = (t_received ?tr, t_sent ?tr, x)"
    using x same by (simp add: event_traffic_def Let_def)
  ultimately have "follows h ctl opts (maxReadBufferBytes opts) t t' ?tr (ctx_of r conn) x"
    unfolding follows_def by (intro exI [of _ "[?step]"]) simp
  moreover have "um_find (r_clients (put_ctx k x r)) fd = Some (x_conn x)" using True by (simp add: put_ctx_def)
  ultimately show ?thesis using True same poller by auto
next
  case False
  have kept: "um_find (r_clients (put_ctx k x r)) fd = Some conn" using False conn by (simp add: put_ctx_def)
  obtain requests rs where q: "session (x_store (ctx_of r c0)) requests = Inr (rs, x_store x)" "length requests \<le> maxReadBufferBytes opts"
    "\<forall>(line, now) \<in> set requests. length line \<le> frame_limit" "between t (map snd requests) t'"
    "subseq requests (event_frames h opts (r_state r) events io (ctx_of r c0))"
    using event_requests [OF opts reactor_ok_client(1) [OF ok c0] io clks x] by blast
  have "session (r_store r) requests = Inr (rs, r_store (put_ctx k x r))" using q(1) by (simp add: ctx_of_def put_ctx_def)
  moreover have "reactor_ok opts n (put_ctx k x r)" using client_event_step [OF opts ok set c0 io x] by simp
  ultimately show ?thesis using elsewhere_follows [OF _ kept _ q(3,4,2,5)] kept False by auto
qed

lemma client_events_follow:
  assumes "opts_ok opts"
  shows "reactor_ok opts (n + length items * maxReadBufferBytes opts) r \<Longrightarrow> settled r \<Longrightarrow> events_io_ok h ctl opts items r \<Longrightarrow>
    items_timed t items T \<Longrightarrow> client_events h ctl opts items r = (Inr (), r') \<Longrightarrow> um_find (r_clients r) fd = Some conn \<Longrightarrow>
    \<exists>conn'. um_find (r_clients r') fd = Some conn' \<and>
      follows h ctl opts (length items * maxReadBufferBytes opts) t T (client_traffic h ctl opts fd items r) (ctx_of r conn) (ctx_of r' conn')"
proof (induction items arbitrary: r t conn)
  case Nil
  then show ?case by (simp add: follows_refl)
next
  case (Cons item items)
  obtain ev io where item: "item = (ev, io)" by (cases item)
  obtain t' where t': "clocks_ok t (io_clks io) t'" "items_timed t' items T" using Cons.prems(4) item by auto
  have less: "reactor_ok opts (n + length items * maxReadBufferBytes opts) r"
    and budget: "reactor_ok opts ((n + length items * maxReadBufferBytes opts) + maxReadBufferBytes opts) r"
    using Cons.prems(1) reactor_ok_mono by (force, simp add: ac_simps)
  show ?case
  proof (cases "ready_fd ev = control_fd r \<or> um_find (r_clients r) (ready_fd ev) = None")
    case True
    have "t \<le> t'" using t'(1) by (simp add: clocks_ok_def)
    moreover obtain conn' where c: "um_find (r_clients r') fd = Some conn'"
      "follows h ctl opts (length items * maxReadBufferBytes opts) t' T (client_traffic h ctl opts fd items r) (ctx_of r conn) (ctx_of r' conn')"
      using Cons.IH [OF less Cons.prems(2) _ t'(2) _ Cons.prems(6)] Cons.prems(3,5) True item by (auto split: if_splits)
    moreover have "client_traffic h ctl opts fd (item # items) r = client_traffic h ctl opts fd items r" using True item by auto
    ultimately show ?thesis using follows_trans [OF follows_refl c(2), where n = "maxReadBufferBytes opts"] by auto
  next
    case False
    then obtain c0 where c0: "um_find (r_clients r) (ready_fd ev) = Some c0" by blast
    obtain s x where x: "HandleReadyEvent h ctl opts (r_state r) (ready_events ev) io (ctx_of r c0) = (s, x)" by fastforce
    let ?r = "put_ctx (ready_fd ev) x r"
    have "bind_reacted (s, ?r) (\<lambda>_ r. client_events h ctl opts items r) = (Inr (), r')"
      using Cons.prems(5) False c0 x item by simp
    then have s: "s = Inr ()" "client_events h ctl opts items ?r = (Inr (), r')" by (cases s; simp)+
    have io: "io_ok h opts (r_state r) (ready_events ev) io (ctx_of r c0)" "events_io_ok h ctl opts items ?r"
      using Cons.prems(3) False c0 item x s(1) by simp_all
    have step: "reactor_ok opts (n + length items * maxReadBufferBytes opts) ?r" "settled ?r"
      using client_event_step [OF assms budget Cons.prems(2) c0 io(1) x] s(1) by simp_all
    obtain c where c: "um_find (r_clients ?r) fd = Some c"
      and one: "follows h ctl opts (maxReadBufferBytes opts) t t'
        (if ready_fd ev = fd then event_traffic h opts (r_state r) (ready_events ev) io (ctx_of r c0)
         else quiet\<lparr>t_others := event_frames h opts (r_state r) (ready_events ev) io (ctx_of r c0)\<rparr>) (ctx_of r conn) (ctx_of ?r c)"
      using event_follow [OF assms budget Cons.prems(2) c0 io(1) x [unfolded s(1)] t'(1) Cons.prems(6)] by blast
    obtain conn' where "um_find (r_clients r') fd = Some conn'"
      "follows h ctl opts (length items * maxReadBufferBytes opts) t' T (client_traffic h ctl opts fd items ?r) (ctx_of ?r c) (ctx_of r' conn')"
      using Cons.IH [OF step io(2) t'(2) s(2) c] by blast
    with follows_trans [OF one this(2)] show ?thesis using item x s(1) c0 False by (simp add: Let_def)
  qed
qed

section \<open>Control requests\<close>

text \<open>One round of the loop of \<open>BeginGracefulShutdown\<close> is \<open>drain_conn\<close>.\<close>

lemma drain_loop_conn:
  assumes "um_find (r_clients r) fd = Some conn" "r_poller r \<noteq> None" "drain_conn ctl opts (ctx_of r conn) = (s, x)"
  shows "drain_loop ctl opts (fd # fds) r = bind_reacted (s, put_ctx fd x r) (\<lambda>_ r. drain_loop ctl opts fds r)"
proof (cases "OutputBuffer_Empty (writeBuffer conn)")
  case True
  let ?c = "MarkClosed (conn\<lparr>readPaused := True, closeAfterWrite := True\<rparr>)"
  have "s = Inr ()" "x = ctx_of r ?c" using assms(3) True by (auto simp: drain_conn_def ctx_of_def Let_def)
  then show ?thesis using assms(1) True put_ctx_self [OF assms(2), of fd ?c] by simp
next
  case False
  have "RefreshConnectionInterest ctl opts (ctx_of r (conn\<lparr>readPaused := True, closeAfterWrite := True\<rparr>)) = (s, x)"
    using assms(3) False by (simp add: drain_conn_def ctx_of_def Let_def)
  then show ?thesis using assms(1) False by simp
qed

lemma drain_conn_put:
  assumes "opts_ok opts" "reactor_ok opts n r" "r_state r = Draining" "um_find (r_clients r) fd = Some conn"
    and "drain_conn ctl opts (ctx_of r conn) = (Inr u, x)"
  shows "reactor_ok opts n (put_ctx fd x r)"
proof (cases "OutputBuffer_Empty (writeBuffer conn)")
  case True
  let ?c = "MarkClosed (conn\<lparr>readPaused := True, closeAfterWrite := True\<rparr>)"
  have x: "x = ctx_of r ?c" using assms(5) True by (auto simp: drain_conn_def ctx_of_def Let_def)
  have "conn_ok opts n (ctx_of r ?c)" "conn_fd (x_conn (ctx_of r ?c)) = fd" "x_poller (ctx_of r ?c) = poller_of r"
    using reactor_ok_client [OF assms(2,4)] by (auto simp: conn_ok_def ctx_of_def registered_def poller_of_def)
  then show ?thesis using put_ctx_ok [OF assms(2,4)] by (simp add: x registry_of_def)
next
  case False
  have "RefreshConnectionInterest ctl opts (ctx_of r (conn\<lparr>readPaused := True, closeAfterWrite := True\<rparr>)) = (Inr u, x)"
    using assms(5) False by (simp add: drain_conn_def ctx_of_def Let_def)
  from drain_step [OF assms(1-4) False this] show ?thesis by simp
qed

lemma drain_loop_follow:
  assumes "opts_ok opts" "t \<le> T"
  shows "reactor_ok opts n r \<Longrightarrow> r_state r = Draining \<Longrightarrow> distinct fds \<Longrightarrow>
    \<forall>k \<in> set fds. \<forall>c. um_find (r_clients r) k = Some c \<longrightarrow> \<not> conn_closed c \<Longrightarrow>
    drain_loop ctl opts fds r = (Inr (), r') \<Longrightarrow> um_find (r_clients r) fd = Some conn \<Longrightarrow>
    \<exists>conn'. um_find (r_clients r') fd = Some conn' \<and> follows h ctl opts 0 t T quiet (ctx_of r conn) (ctx_of r' conn')"
proof (induction fds arbitrary: r conn)
  case Nil
  then show ?case using assms(2) by (simp add: follows_refl)
next
  case (Cons k fds)
  show ?case
  proof (cases "um_find (r_clients r) k")
    case None
    then show ?thesis using Cons.IH [OF Cons.prems(1,2) _ _ _ Cons.prems(6)] Cons.prems(3-5) by simp
  next
    case (Some c)
    obtain s x where x: "drain_conn ctl opts (ctx_of r c) = (s, x)" by fastforce
    let ?r = "put_ctx k x r"
    have poller: "r_poller r \<noteq> None" using Cons.prems(1) by (simp add: reactor_ok_def)
    have run: "s = Inr ()" "drain_loop ctl opts fds ?r = (Inr (), r')"
      using Cons.prems(5) drain_loop_conn [OF Some poller x, of fds] by (cases s; simp)+
    have ok: "reactor_ok opts n ?r" "r_state ?r = Draining"
      using drain_conn_put [OF assms(1) Cons.prems(1,2) Some] x run(1) Cons.prems(2) by simp_all
    have open': "\<forall>k' \<in> set fds. \<forall>c. um_find (r_clients ?r) k' = Some c \<longrightarrow> \<not> conn_closed c"
      using Cons.prems(3,4) by (auto simp: put_ctx_def)
    have opn: "\<not> conn_closed (x_conn (ctx_of r c))" using Cons.prems(4) Some by (simp add: ctx_of_def)
    have store: "r_store ?r = r_store r"
      using drain_conn_ok(1) [OF assms(1) reactor_ok_client(1) [OF Cons.prems(1) Some] opn x]
      by (simp add: same_buffers_def put_ctx_def ctx_of_def)
    define c' where "c' = (if k = fd then x_conn x else conn)"
    have c': "um_find (r_clients ?r) fd = Some c'" using Cons.prems(6) by (simp add: c'_def put_ctx_def)
    have "follows h ctl opts 0 t t quiet (ctx_of r conn) (ctx_of ?r c')"
    proof (cases "k = fd")
      case True
      then have "conn_goes h ctl opts [Draining_begins] (ctx_of r conn) (ctx_of ?r c')"
        using opn x run(1) Some Cons.prems(6) poller by (simp add: c'_def)
      then show ?thesis unfolding follows_def by (intro exI [of _ "[Draining_begins]"]) (simp add: quiet_def)
    next
      case False
      then show ?thesis using quiet_follows [OF ok(1) c' store] by (simp add: c'_def)
    qed
    moreover obtain conn' where "um_find (r_clients r') fd = Some conn'"
      "follows h ctl opts 0 t T quiet (ctx_of ?r c') (ctx_of r' conn')"
      using Cons.IH [OF ok _ open' run(2) c'] Cons.prems(3) by auto
    ultimately show ?thesis using follows_trans [of h ctl opts 0 t t "quiet" "ctx_of r conn"] by fastforce
  qed
qed

lemma Cleanup_follow:
  assumes "reactor_ok opts n r" "settled r" "um_find (r_clients (CleanupClosedConnections ctl r)) fd = Some conn" "t \<le> T"
  shows "um_find (r_clients r) fd = Some conn \<and>
    follows h ctl opts 0 t T quiet (ctx_of r conn) (ctx_of (CleanupClosedConnections ctl r) conn)"
proof -
  have wf: "reactor_wf r" "um_ok (r_clients r)" using assms(1) by (simp_all add: reactor_ok_def reactor_wf_def)
  note c = Cleanup_cleaned [OF wf(1), of ctl]
  have "(fd, conn) \<in> set (r_clients r)" using um_find_SomeD [OF assms(3)] c(1) by (simp add: open_items_def)
  moreover have "reactor_ok opts n (CleanupClosedConnections ctl r)"
    using Cleanup_ok(1) [OF assms(1,2), of ctl] by (simp add: phase_ok_def)
  moreover have "r_store (CleanupClosedConnections ctl r) = r_store r" using c(2) by (simp add: cleaned_def)
  ultimately show ?thesis using quiet_follows [OF _ assms(3)] um_find_iff_mem [OF wf(2)] assms(4) by blast
qed

lemma add_clients_same:
  "um_find (r_clients r) fd = Some conn \<Longrightarrow>
   um_find (r_clients (add_clients ctl fds r)) fd = Some conn \<and> r_store (add_clients ctl fds r) = r_store r"
proof (induction fds arbitrary: r)
  case (Cons k fds)
  obtain s r1 where r1: "AddClientInLoop ctl k r = (s, r1)" by fastforce
  then have "um_find (r_clients r1) fd = Some conn \<and> r_store r1 = r_store r"
    using Cons.prems by (auto simp: AddClientInLoop_def Let_def split: if_splits prod.splits option.splits)
  then show ?case using Cons.IH [of r1] r1 by (cases s) simp_all
qed simp

lemma BeginGraceful_follow:
  assumes opts: "opts_ok opts" and ok: "reactor_ok opts n r" and opn: "all_open r" and t: "t \<le> T"
    and run: "BeginGracefulShutdown ctl opts deadline r = (Inr u, r')"
    and conn: "um_find (r_clients r) fd = Some conn" "um_find (r_clients r') fd = Some conn'"
  shows "follows h ctl opts 0 t T quiet (ctx_of r conn) (ctx_of r' conn')"
proof (cases "r_state r = Running")
  case False
  then show ?thesis using run conn t by (simp add: BeginGracefulShutdown_def follows_refl)
next
  case True
  let ?r = "PublishState Draining (r\<lparr>r_shutdownDeadline := deadline\<rparr>)"
  have frame: "r_clients ?r = r_clients r" "ctx_of ?r = ctx_of r" by (simp_all add: PublishState_def ctx_of_def fun_eq_iff)
  have ok': "reactor_ok opts n ?r" "r_state ?r = Draining"
    using ok by (simp_all add: reactor_ok_def reactor_wf_def PublishState_def registry_of_def poller_of_def)
  have unset: "\<forall>(fd, conn) \<in> set (r_clients ?r). fd \<notin> set (map fst (r_clients r)) \<longrightarrow> conn_settled Draining conn"
    by (auto simp: PublishState_def rev_image_eqI)
  obtain s r1 where r1: "drain_loop ctl opts (map fst (r_clients r)) ?r = (s, r1)" by fastforce
  have p: "phase_ok opts n ?r (s, r1)" using drain_loop_ok [OF opts ok' unset, of ctl] r1 by simp
  let ?r2 = "CleanupClosedConnections ctl r1"
  have s: "s = Inr ()" and r': "r' = (if r_clients ?r2 = [] then PublishState Stopped ?r2 else ?r2)"
    using run True r1 by (cases s; auto simp: BeginGracefulShutdown_def PublishState_def Let_def)+
  have r2: "r' = ?r2" "um_find (r_clients ?r2) fd = Some conn'" using conn(2) r' by (auto simp: PublishState_def split: if_splits)
  have "distinct (map fst (r_clients r))" using ok by (simp add: reactor_ok_def reactor_wf_def um_ok_def)
  moreover have "\<forall>k \<in> set (map fst (r_clients r)). \<forall>c. um_find (r_clients ?r) k = Some c \<longrightarrow> \<not> conn_closed c"
    using opn by (auto simp: frame all_open_def dest!: um_find_SomeD)
  moreover have "um_find (r_clients ?r) fd = Some conn" using conn(1) frame(1) by simp
  ultimately obtain c where c: "um_find (r_clients r1) fd = Some c" "follows h ctl opts 0 t t quiet (ctx_of r conn) (ctx_of r1 c)"
    using drain_loop_follow [OF opts order_refl ok' _ _ r1 [unfolded s]] unfolding frame(2) by blast
  have "reactor_ok opts n r1" "settled r1" using p s by (simp_all add: phase_ok_def)
  from Cleanup_follow [OF this r2(2) t, of h] c r2(1) show ?thesis
    using follows_trans [of h ctl opts 0 t t "quiet" "ctx_of r conn" "ctx_of r1 c" 0 T "quiet"] by simp
qed

lemma control_follow:
  assumes opts: "opts_ok opts" and serving: "serving opts n r" and t: "t \<le> T"
    and run: "loop_control ctl opts evs r = (Inr u, r')"
    and conn: "um_find (r_clients r) fd = Some conn" "um_find (r_clients r') fd = Some conn'"
  shows "follows h ctl opts 0 t T quiet (ctx_of r conn) (ctx_of r' conn') \<and> serving opts n r'"
proof -
  have after: "serving opts n r'" using loop_control_ok [OF opts serving, of ctl evs] run conn(2) by (auto simp: goes_on_def halted_def)
  let ?taken = "r\<lparr>r_pendingClients := []\<rparr>"
  let ?dropped = "?taken\<lparr>r_closedFds := r_closedFds r @ r_pendingClients r\<rparr>"
  have s: "reactor_ok opts n r" "all_open r" "reactor_ok opts n r'" using serving after by (simp_all add: serving_def)
  have d: "reactor_ok opts n ?dropped" "all_open ?dropped"
    using s by (simp_all add: reactor_ok_def reactor_wf_def registry_of_def poller_of_def all_open_def)
  consider (none) "r' = r" | (force) "r' = PublishState Stopped (ForceCloseAllConnections ctl ?dropped)"
    | (stop) "BeginGracefulShutdown ctl opts (r_requestedShutdownDeadline r) ?dropped = (Inr u, r')"
    | (add) "r' = add_clients ctl (r_pendingClients r) ?taken"
  proof (cases "control_received r evs")
    case True
    then have "ProcessControlRequests ctl opts r = (Inr u, r')" using run by (simp add: loop_control_def)
    then show thesis using that(2-4) unfolding ProcessControlRequests_def Let_def
      by (cases "r_forceStopRequested r"; cases "r_stopRequested r"; simp)
  qed (use run that(1) in \<open>simp add: loop_control_def\<close>)
  then have "follows h ctl opts 0 t T quiet (ctx_of r conn) (ctx_of r' conn')"
  proof cases
    case none
    then show ?thesis using conn t by (simp add: follows_refl)
  next
    case force
    have "reactor_wf ?dropped" using d(1) by (simp add: reactor_ok_def)
    then show ?thesis using conn(2) force ForceClose_clients(1) [of ?dropped ctl] by (simp add: PublishState_def)
  next
    case stop
    have "um_find (r_clients ?dropped) fd = Some conn" "ctx_of ?dropped conn = ctx_of r conn" using conn(1) by (simp_all add: ctx_of_def)
    with BeginGraceful_follow [OF opts d t stop _ conn(2), of conn h] show ?thesis by simp
  next
    case add
    have "um_find (r_clients ?taken) fd = Some conn" using conn(1) by simp
    from add_clients_same [OF this, of ctl "r_pendingClients r"] have "conn' = conn" "r_store r' = r_store r"
      using conn(2) add by simp_all
    with quiet_follows [OF s(3) conn(2) _ t] show ?thesis by simp
  qed
  with after show ?thesis by simp
qed

lemma clients_follow:
  assumes opts: "opts_ok opts" and serving: "serving opts (n + length evs * maxReadBufferBytes opts) r"
    and io: "events_io_ok h ctl opts (zip evs (map (li_io inp) [0..<length evs])) r"
    and t: "items_timed t (zip evs (map (li_io inp) [0..<length evs])) T"
    and run: "loop_clients h ctl opts inp evs r = (Inr u, r')"
    and conn: "um_find (r_clients r) fd = Some conn" "um_find (r_clients r') fd = Some conn'"
  shows "follows h ctl opts (length evs * maxReadBufferBytes opts) t T
      (client_traffic h ctl opts fd (zip evs (map (li_io inp) [0..<length evs])) r) (ctx_of r conn) (ctx_of r' conn') \<and> serving opts n r'"
proof -
  let ?items = "zip evs (map (li_io inp) [0..<length evs])"
  have after: "serving opts n r'"
    using loop_clients_ok [OF opts serving io] run conn(2) by (auto simp: goes_on_def halted_def)
  have s: "reactor_ok opts (n + length ?items * maxReadBufferBytes opts) r" "settled r" "r_state r \<noteq> Stopped"
    using serving by (auto simp: serving_def)
  obtain q r1 where r1: "client_events h ctl opts ?items r = (q, r1)" by fastforce
  let ?r2 = "CleanupClosedConnections ctl r1"
  have q: "q = Inr ()" "r' = CheckShutdownProgress ctl (li_now inp) ?r2"
    using run r1 s(3) by (cases q; simp add: loop_clients_def Let_def)+
  have p: "reactor_ok opts n r1" "settled r1"
    using client_events_ok [OF opts s(1,2) io] r1 q(1) by (simp_all add: phase_ok_def)
  have wf: "reactor_wf ?r2" using Cleanup_ok(1) [OF p, of ctl] by (simp add: phase_ok_def reactor_ok_def)
  have r2: "r' = ?r2" using q(2) conn(2) ForceClose_clients(1) [OF wf, of ctl]
    by (auto simp: CheckShutdownProgress_def PublishState_def split: if_splits)
  obtain c where c: "um_find (r_clients r1) fd = Some c"
    "follows h ctl opts (length ?items * maxReadBufferBytes opts) t T (client_traffic h ctl opts fd ?items r) (ctx_of r conn) (ctx_of r1 c)"
    using client_events_follow [OF opts s(1,2) io t r1 [unfolded q(1)] conn(1)] by blast
  from Cleanup_follow [OF p conn(2) [unfolded r2] order_refl, of h T] c(1)
  have "follows h ctl opts 0 T T quiet (ctx_of r1 c) (ctx_of r' conn')" by (simp add: r2)
  from follows_trans [OF c(2) this] after show ?thesis by simp
qed

section \<open>Everything a reactor does\<close>

text \<open>The phases of its rounds; the control methods that other threads call on it, and the bytes they write to
  its channel; and the requests that other reactors have executed on the store they share.\<close>

datatype activity =
    Waits loop_input "ReadyEvent list"
  | Controls "ReadyEvent list"
  | Serves loop_input "ReadyEvent list"
  | Enqueues int
  | Stops time_point
  | Forces
  | Notifies "nat sysret list"
  | Elsewhere "(string \<times> time_point) list" ServerMetrics

abbreviation inputs :: "loop_input \<Rightarrow> ReadyEvent list \<Rightarrow> (ReadyEvent \<times> io_results) list" where
  "inputs inp evs \<equiv> zip evs (map (li_io inp) [0..<length evs])"

text \<open>An activity that goes well, with the contracts of the calls it makes.\<close>

fun act :: "endianness \<Rightarrow> ctl_oracle \<Rightarrow> NetworkOptions \<Rightarrow> activity \<Rightarrow> SubReactor \<Rightarrow> SubReactor \<Rightarrow> bool" where
  "act h ctl opts (Waits inp evs) r r' \<longleftrightarrow>
     read_returns_ok (li_reads inp) (wk_queue (r_wakeup r)) \<and> loop_wait inp r = (Inr evs, r')"
| "act h ctl opts (Controls evs) r r' \<longleftrightarrow> loop_control ctl opts evs r = (Inr (), r')"
| "act h ctl opts (Serves inp evs) r r' \<longleftrightarrow>
     events_io_ok h ctl opts (inputs inp evs) r \<and> loop_clients h ctl opts inp evs r = (Inr (), r')"
| "act h ctl opts (Enqueues fd) r r' \<longleftrightarrow>
     ScopedFd_Valid fd \<and> fd \<noteq> control_fd r \<and> EnqueClient_locked fd r = (True, r')"
| "act h ctl opts (Stops deadline) r r' \<longleftrightarrow> r' = Stop_locked deadline r"
| "act h ctl opts Forces r r' \<longleftrightarrow> r' = ForceStop_locked r"
| "act h ctl opts (Notifies results) r r' \<longleftrightarrow> notify_control results r = Some r'"
| "act h ctl opts (Elsewhere requests metrics) r r' \<longleftrightarrow>
     (\<forall>(line, now) \<in> set requests. length line \<le> frame_limit) \<and>
     (\<exists>replies store. session (r_store r) requests = Inr (replies, store) \<and>
        r' = r\<lparr>r_store := store, r_metrics := metrics\<rparr>)"

fun act_budget :: "NetworkOptions \<Rightarrow> activity \<Rightarrow> nat" where
  "act_budget opts (Serves inp evs) = length evs * maxReadBufferBytes opts"
| "act_budget opts (Elsewhere requests metrics) = length requests"
| "act_budget opts a = 0"

fun act_timed :: "time_point \<Rightarrow> activity \<Rightarrow> time_point \<Rightarrow> bool" where
  "act_timed t (Serves inp evs) t' \<longleftrightarrow> items_timed t (inputs inp evs) t'"
| "act_timed t (Elsewhere requests metrics) t' \<longleftrightarrow> between t (map snd requests) t'"
| "act_timed t a t' \<longleftrightarrow> t \<le> t'"

fun act_traffic :: "endianness \<Rightarrow> ctl_oracle \<Rightarrow> NetworkOptions \<Rightarrow> int \<Rightarrow> activity \<Rightarrow> SubReactor \<Rightarrow> traffic" where
  "act_traffic h ctl opts fd (Serves inp evs) r = client_traffic h ctl opts fd (inputs inp evs) r"
| "act_traffic h ctl opts fd (Elsewhere requests metrics) r = quiet\<lparr>t_others := requests\<rparr>"
| "act_traffic h ctl opts fd a r = quiet"

lemma Notify_readFd: "Notify results w = Some w' \<Longrightarrow> wk_readFd w' = wk_readFd w"
  by (induction results w rule: Notify.induct) (auto split: if_splits)

lemma serving_frame:
  assumes "serving opts n r" "r_clients r' = r_clients r" "r_poller r' = r_poller r" "control_fd r' = control_fd r"
    "r_state r' = r_state r" "r_publishedState r' = r_publishedState r" "r_failed r' = r_failed r"
    "r_stopRequested r \<longrightarrow> r_stopRequested r'" "store_ready m (r_store r')"
    "\<forall>fd \<in> set (r_pendingClients r'). fd \<in> set (r_pendingClients r) \<or> 0 \<le> fd \<and> fd \<noteq> control_fd r"
  shows "serving opts m r'"
  using assms by (auto simp: serving_def reactor_ok_def reactor_wf_def settled_def all_open_def registry_of_def poller_of_def)

lemma act_follows:
  assumes opts: "opts_ok opts" and serving: "serving opts (n + act_budget opts a) r" and run: "act h ctl opts a r r'"
    and t: "act_timed t a t'" and conn: "um_find (r_clients r) fd = Some conn" "um_find (r_clients r') fd = Some conn'"
  shows "follows h ctl opts (act_budget opts a) t t' (act_traffic h ctl opts fd a r) (ctx_of r conn) (ctx_of r' conn') \<and>
    serving opts n r'"
proof -
  have store: "store_ready (n + act_budget opts a) (r_store r)" using serving by (simp add: serving_def reactor_ok_def)
  have quiet: ?thesis if "serving opts n r'" "r_clients r' = r_clients r" "r_store r' = r_store r" "t \<le> t'"
      "act_traffic h ctl opts fd a r = quiet"
  proof -
    have "reactor_ok opts n r'" "conn' = conn" using that conn by (simp_all add: serving_def)
    from quiet_follows [OF this(1) conn(2) that(3,4)] this(2) that show ?thesis by simp
  qed
  have call: ?thesis
    if "r_clients r' = r_clients r" "r_poller r' = r_poller r" "control_fd r' = control_fd r" "r_state r' = r_state r"
      "r_publishedState r' = r_publishedState r" "r_failed r' = r_failed r" "r_stopRequested r \<longrightarrow> r_stopRequested r'"
      "\<forall>k \<in> set (r_pendingClients r'). k \<in> set (r_pendingClients r) \<or> 0 \<le> k \<and> k \<noteq> control_fd r"
      "r_store r' = r_store r" "t \<le> t'" "act_traffic h ctl opts fd a r = quiet"
  proof -
    have "store_ready n (r_store r')" using store_ready_mono [OF store] that(9) by simp
    from serving_frame [OF serving that(1-7) this that(8)] show ?thesis by (rule quiet) (use that in simp_all)
  qed
  note defs = EnqueClient_locked_def ScopedFd_Valid_def Stop_locked_def ForceStop_locked_def Let_def
  show ?thesis
  proof (cases a)
    case (Waits inp evs)
    then have w: "loop_wait inp r = (Inr evs, r')" "read_returns_ok (li_reads inp) (wk_queue (r_wakeup r))" "serving opts n r"
      using run serving by simp_all
    have "r_clients r' = r_clients r \<and> r_store r' = r_store r"
      using w(1) by (auto simp: loop_wait_def Let_def split: option.splits sum.splits if_splits)
    then show ?thesis using loop_wait_keeps [OF w(3,2,1)] Waits t by (intro quiet) simp_all
  next
    case (Controls evs)
    then show ?thesis using control_follow [OF opts _ _ _ conn] serving run t by simp
  next
    case (Serves inp evs)
    then have "serving opts (n + length evs * maxReadBufferBytes opts) r" "events_io_ok h ctl opts (inputs inp evs) r"
      "items_timed t (inputs inp evs) t'" "loop_clients h ctl opts inp evs r = (Inr (), r')" using serving run t by simp_all
    from clients_follow [OF opts this conn] Serves show ?thesis by simp
  next
    case (Elsewhere requests metrics)
    obtain rs s where s: "session (r_store r) requests = Inr (rs, s)" "r' = r\<lparr>r_store := s, r_metrics := metrics\<rparr>"
      "\<forall>(line, now) \<in> set requests. length line \<le> frame_limit" using run Elsewhere by auto
    have "store_ready n s" using session_replay [OF _ s(3), of n "r_store r"] s(1) store Elsewhere by simp
    then have after: "serving opts n r'" using s(2) by (intro serving_frame [OF serving]) simp_all
    have "reactor_ok opts n r'" "conn' = conn" "session (r_store r) requests = Inr (rs, r_store r')"
      using after s(1,2) conn by (simp_all add: serving_def)
    from elsewhere_follows [OF this(1) conn(2) this(3) s(3) _ _ subseq_order.refl] this(2) after t Elsewhere show ?thesis by simp
  qed (rule call; use run t in \<open>auto simp: defs notify_control_def dest!: Notify_readFd split: if_splits\<close>)+
qed

section \<open>The life of a connection in a reactor\<close>

text \<open>A sequence of activities through which \<open>fd\<close> stays a client, with the bytes its connection received and
  sent.\<close>

fun acts_run ::
  "endianness \<Rightarrow> ctl_oracle \<Rightarrow> NetworkOptions \<Rightarrow> int \<Rightarrow> activity list \<Rightarrow> SubReactor \<Rightarrow> traffic \<Rightarrow> SubReactor \<Rightarrow> bool" where
  "acts_run h ctl opts fd [] r tr r' \<longleftrightarrow> tr = quiet \<and> r' = r"
| "acts_run h ctl opts fd (a # acts) r tr r' \<longleftrightarrow>
     (\<exists>r1 tr1. act h ctl opts a r r1 \<and> um_find (r_clients r1) fd \<noteq> None \<and> acts_run h ctl opts fd acts r1 tr1 r' \<and>
        tr = join (act_traffic h ctl opts fd a r) tr1)"

fun acts_timed :: "time_point \<Rightarrow> activity list \<Rightarrow> time_point \<Rightarrow> bool" where
  "acts_timed t [] T \<longleftrightarrow> t \<le> T"
| "acts_timed t (a # acts) T \<longleftrightarrow> (\<exists>t'. act_timed t a t' \<and> acts_timed t' acts T)"

text \<open>A serving reactor goes through the activities and then serves some more events, at whose end
  the connection may be closed.\<close>

definition reactor_life ::
  "endianness \<Rightarrow> ctl_oracle \<Rightarrow> NetworkOptions \<Rightarrow> int \<Rightarrow> activity list \<Rightarrow> (ReadyEvent \<times> io_results) list \<Rightarrow>
   time_point \<Rightarrow> time_point \<Rightarrow> SubReactor \<Rightarrow> traffic \<Rightarrow> SubReactor \<Rightarrow> bool" where
  "reactor_life h ctl opts fd acts items t T r tr r' \<longleftrightarrow>
     serving opts (sum_list (map (act_budget opts) acts) + length items * maxReadBufferBytes opts) r \<and>
     (\<exists>r1 tr1 t1. acts_run h ctl opts fd acts r tr1 r1 \<and> acts_timed t acts t1 \<and>
        events_io_ok h ctl opts items r1 \<and> items_timed t1 items T \<and> client_events h ctl opts items r1 = (Inr (), r') \<and>
        tr = join tr1 (client_traffic h ctl opts fd items r1))"

lemma acts_follow:
  assumes "opts_ok opts"
  shows "serving opts (n + sum_list (map (act_budget opts) acts)) r \<Longrightarrow> acts_run h ctl opts fd acts r tr r' \<Longrightarrow>
    acts_timed t acts T \<Longrightarrow> um_find (r_clients r) fd = Some conn \<Longrightarrow>
    \<exists>conn'. um_find (r_clients r') fd = Some conn' \<and> serving opts n r' \<and>
      follows h ctl opts (sum_list (map (act_budget opts) acts)) t T tr (ctx_of r conn) (ctx_of r' conn')"
proof (induction acts arbitrary: r tr t conn)
  case Nil
  then show ?case by (simp add: follows_refl)
next
  case (Cons a acts)
  let ?n = "n + sum_list (map (act_budget opts) acts)"
  obtain r1 tr1 conn1 where r1: "act h ctl opts a r r1" "um_find (r_clients r1) fd = Some conn1"
    "acts_run h ctl opts fd acts r1 tr1 r'" "tr = join (act_traffic h ctl opts fd a r) tr1" using Cons.prems(2) by auto
  obtain t1 where t1: "act_timed t a t1" "acts_timed t1 acts T" using Cons.prems(3) by auto
  have "serving opts (?n + act_budget opts a) r" using Cons.prems(1) by (simp add: ac_simps)
  from act_follows [OF assms this r1(1) t1(1) Cons.prems(4) r1(2)] have one:
    "follows h ctl opts (act_budget opts a) t t1 (act_traffic h ctl opts fd a r) (ctx_of r conn) (ctx_of r1 conn1)"
    "serving opts ?n r1" by simp_all
  obtain conn' where "um_find (r_clients r') fd = Some conn'" "serving opts n r'"
    "follows h ctl opts (sum_list (map (act_budget opts) acts)) t1 T tr1 (ctx_of r1 conn1) (ctx_of r' conn')"
    using Cons.IH [OF one(2) r1(3) t1(2) r1(2)] by blast
  with follows_trans [OF one(1) this(3)] r1(4) show ?case by auto
qed

lemma reactor_follow:
  assumes "opts_ok opts" "reactor_life h ctl opts fd acts items t T r tr r'" "um_find (r_clients r) fd = Some conn"
  shows "\<exists>conn' steps. um_find (r_clients r') fd = Some conn' \<and> steps_ok h ctl opts steps (ctx_of r conn) \<and>
    conn_run h ctl opts steps (ctx_of r conn) = (t_received tr, t_sent tr, ctx_of r' conn') \<and> timed t steps T \<and>
    subseq (others_of steps) (t_others tr) \<and> conn_ok opts (sum_list (map (step_budget opts) steps)) (ctx_of r conn)"
proof -
  let ?k = "sum_list (map (act_budget opts) acts)" and ?m = "length items * maxReadBufferBytes opts"
  obtain r1 tr1 t1 where life: "serving opts (?m + ?k) r" "acts_run h ctl opts fd acts r tr1 r1" "acts_timed t acts t1"
    "events_io_ok h ctl opts items r1" "items_timed t1 items T" "client_events h ctl opts items r1 = (Inr (), r')"
    "tr = join tr1 (client_traffic h ctl opts fd items r1)"
    using assms(2) by (auto simp: reactor_life_def ac_simps)
  obtain conn1 where c1: "um_find (r_clients r1) fd = Some conn1" "serving opts ?m r1"
    "follows h ctl opts ?k t t1 tr1 (ctx_of r conn) (ctx_of r1 conn1)"
    using acts_follow [OF assms(1) life(1-3) assms(3)] by blast
  have "reactor_ok opts (0 + ?m) r1" "settled r1" using c1(2) by (simp_all add: serving_def)
  from client_events_follow [OF assms(1) this life(4-6) c1(1)] obtain conn' where
    c2: "um_find (r_clients r') fd = Some conn'"
    "follows h ctl opts ?m t1 T (client_traffic h ctl opts fd items r1) (ctx_of r1 conn1) (ctx_of r' conn')" by blast
  from follows_trans [OF c1(3) c2(2)] life(7) obtain steps where steps:
    "conn_goes h ctl opts steps (ctx_of r conn) (ctx_of r' conn')"
    "conn_run h ctl opts steps (ctx_of r conn) = (t_received tr, t_sent tr, ctx_of r' conn')"
    "timed t steps T" "sum_list (map (step_budget opts) steps) \<le> ?k + ?m" "subseq (others_of steps) (t_others tr)"
    by (auto simp: follows_def)
  have "reactor_ok opts (?k + ?m) r" using life(1) by (simp add: serving_def ac_simps)
  then have "conn_ok opts (?k + ?m) (ctx_of r conn)" using reactor_ok_client(1) assms(3) by blast
  then have "conn_ok opts (sum_list (map (step_budget opts) steps)) (ctx_of r conn)"
    using steps(4) by (auto simp: conn_ok_def intro: store_ready_mono)
  with c2(1) steps conn_goes_run [OF steps(1)] show ?thesis by blast
qed

text \<open>A round of the loop is three activities.\<close>

lemma loop_round_acts:
  assumes "loop_round h ctl opts inp r = (Inr (), r')" "read_returns_ok (li_reads inp) (wk_queue (r_wakeup r))"
  shows "\<exists>evs r1 r2. act h ctl opts (Waits inp evs) r r1 \<and> act h ctl opts (Controls evs) r1 r2 \<and>
    (events_io_ok h ctl opts (inputs inp evs) r2 \<longrightarrow> act h ctl opts (Serves inp evs) r2 r')"
proof -
  obtain q r1 where r1: "loop_wait inp r = (q, r1)" by fastforce
  obtain evs where q: "q = Inr evs" using assms(1) r1 by (cases q) (auto simp: loop_round_def loop_guard_def split: if_splits)
  obtain u r2 where r2: "loop_control ctl opts evs r1 = (u, r2)" by fastforce
  then have "u = Inr ()" using assms(1) r1 q by (cases u) (auto simp: loop_round_def loop_guard_def split: if_splits)
  then have "loop_guard (loop_clients h ctl opts inp evs r2) = (Inr (), r')" using assms(1) r1 q r2 by (simp add: loop_round_def)
  then have "loop_clients h ctl opts inp evs r2 = (Inr (), r')" by (auto simp: loop_guard_def split: sum.splits prod.splits if_splits)
  with r1 q r2 \<open>u = Inr ()\<close> assms(2) show ?thesis by (intro exI [of _ evs] exI [of _ r1] exI [of _ r2]) simp
qed

text \<open>Claim C2: a reactor answers each of its clients as the store it shares prescribes, whatever it does for the others in
  the meantime.  A connection is followed from its start through rounds of the loop, control calls of
  other threads, a graceful shutdown, and requests that other connections and other reactors have
  executed.  Its requests and theirs form one sequential history, in the order of the clock, which leads
  to the store as it is and which the abstract map of values and deadlines explains; what is
  foreign in it are requests that other reactors or other clients of this one had executed, in order.  The
  requests of the connection in it are the first that were received, and what was sent is, from the start
  and without a gap, their framed answers.  An open connection that reads has answered every
  complete request; and only a stream that does not decode, or a read limit below the largest
  frame, is answered with something else.\<close>

theorem reactor_history:
  assumes "opts_ok opts" "reactor_life h ctl opts fd acts items t T r tr r'" "um_find (r_clients r) fd = Some conn"
    and "readBuffer conn = []" "OutputBuffer_Data (writeBuffer conn) = []" "simulates t (r_store r) m"
  shows "\<exists>conn' qs tail. um_find (r_clients r') fd = Some conn' \<and>
    replay (r_store r) qs (r_store r') \<and> history_ok m qs \<and> sorted (map rq_time qs) \<and>
    subseq (not_mine qs) (t_others tr) \<and> prefix (frames (my_lines qs)) (t_received tr) \<and>
    prefix (t_sent tr) (frames (my_replies qs @ tail)) \<and> tail_ok h opts (t_received tr) tail \<and>
    (\<not> conn_closed conn' \<and> \<not> closeAfterWrite conn' \<longrightarrow>
       tail = [] \<and> FrameCodec_Decode h (t_received tr) = (Inr (my_lines qs), readBuffer conn') \<and>
       t_sent tr @ OutputBuffer_Data (writeBuffer conn') = frames (my_replies qs))"
proof -
  obtain conn' steps where c: "um_find (r_clients r') fd = Some conn'" "steps_ok h ctl opts steps (ctx_of r conn)"
    "conn_run h ctl opts steps (ctx_of r conn) = (t_received tr, t_sent tr, ctx_of r' conn')" "timed t steps T"
    "subseq (others_of steps) (t_others tr)" "conn_ok opts (sum_list (map (step_budget opts) steps)) (ctx_of r conn)"
    using reactor_follow [OF assms(1-3)] by blast
  have "simulates t (x_store (ctx_of r conn)) m" "readBuffer (x_conn (ctx_of r conn)) = []"
    "OutputBuffer_Data (writeBuffer (x_conn (ctx_of r conn))) = []" using assms(4-6) by (simp_all add: ctx_of_def)
  from connection_history [OF assms(1) c(6) this c(2,4,3)] obtain qs tail where
    "replay (r_store r) qs (r_store r')" "history_ok m qs" "sorted (map rq_time qs)" "prefix (not_mine qs) (others_of steps)"
    "prefix (frames (my_lines qs)) (t_received tr)" "prefix (t_sent tr) (frames (my_replies qs @ tail))"
    "tail_ok h opts (t_received tr) tail"
    "\<not> conn_closed conn' \<and> \<not> closeAfterWrite conn' \<longrightarrow>
       tail = [] \<and> FrameCodec_Decode h (t_received tr) = (Inr (my_lines qs), readBuffer conn') \<and>
       t_sent tr @ OutputBuffer_Data (writeBuffer conn') = frames (my_replies qs)"
    by (auto simp: ctx_of_def)
  moreover from this(4) c(5) have "subseq (not_mine qs) (t_others tr)"
    using prefix_imp_subseq subseq_order.trans by blast
  ultimately show ?thesis using c(1) by blast
qed

section \<open>A concrete life for the witnesses\<close>

text \<open>The reactor of \<open>Reactor_Properties\<close>, with its client 7: another reactor has a key set, then a request
  arrives whole, and its answer leaves in the same event.\<close>

definition demo_ping :: io_results where
  "demo_ping = \<lparr>io_recvs = [Fail EINTR, Ret (wire_frame ''PING'')], io_sends = [Ret 9], io_clks = (\<lambda>_. demo_clk)\<rparr>"

abbreviation demo_ready :: IoEvent where "demo_ready \<equiv> IoEvent_Read OR IoEvent_Write"

definition demo_acts :: "activity list" where
  "demo_acts = [Elsewhere [(''SET k v'', 0)] ServerMetrics_init]"

definition demo_items :: "(ReadyEvent \<times> io_results) list" where
  "demo_items = [(\<lparr>ready_fd = 7, ready_events = demo_ready\<rparr>, demo_ping)]"

abbreviation demo_conn :: Connection where "demo_conn \<equiv> (Connection_init 7)\<lparr>registeredEvents := 1\<rparr>"

lemma demo_ping_read:
  assumes "x_conn x = demo_conn"
  shows "\<exists>y. HandleClientRead LittleEndian NetworkOptions_default (io_recvs demo_ping) (io_clks demo_ping) x = (Inr (), y) \<and>
     ob_inv (writeBuffer (x_conn y)) \<and> pending (x_conn y) = 9 \<and> pending_data (x_conn y) = wire_frame ''+PONG'' \<and>
     \<not> conn_closed (x_conn y) \<and> \<not> readPaused (x_conn y) \<and> \<not> closeAfterWrite (x_conn y) \<and> registeredEvents (x_conn y) = 1"
proof -
  have decode: "FrameCodec_Decode LittleEndian (wire_frame ''PING'') = (Inr [''PING''], [])"
    using Decode_decomposed(1) [of "[''PING'']" "[]" LittleEndian] by (simp add: frame_limit_def incomplete_def)
  have encode: "FrameCodec_Encode LittleEndian ''+PONG'' = Inr (wire_frame ''+PONG'')"
    by (rule Encode_wire_frame) (simp add: frame_limit_def)
  have parse: "cmd_type (ParseCommand ''PING'') = Ping" by code_simp
  have init: "OutputBuffer_Size OutputBuffer_init = 0" "OutputBuffer_Data OutputBuffer_init = []"
    by (simp_all add: OutputBuffer_init_def ob_defs)
  have "wire_frame ''PING'' \<noteq> []" "length (wire_frame ''+PONG'') = 9" by (simp_all add: wire_frame_def)
  then show ?thesis
    by (simp add: HandleClientRead_def demo_ping_def assms Connection_init_def DecodeAppend_all decode
        ProcessPayload_def parse CommandExecutor_Execute_def QueueResponse_def encode UpdateReadBackPressure_def
        NetworkOptions_default_def init ob.inv_fresh Let_def del: length_wire_frame)
qed

lemma demo_ready_simps:
  "event_reads Running demo_ready" "event_writes demo_ready" "\<not> HasIoEvent demo_ready IoEvent_Error"
  "HasIoEvent demo_ready IoEvent_Read" "HasIoEvent demo_ready IoEvent_Write" "\<not> HasIoEvent demo_ready IoEvent_Hangup"
  by (simp_all add: event_reads_def event_writes_def HasIoEvent_def IoEvent_defs)

lemma demo_event:
  assumes "x_conn x = demo_conn"
  shows "\<exists>z. HandleReadyEvent LittleEndian no_errors NetworkOptions_default Running demo_ready demo_ping x = (Inr (), z)"
    "event_traffic LittleEndian NetworkOptions_default Running demo_ready demo_ping x =
       \<lparr>t_received = wire_frame ''PING'', t_sent = wire_frame ''+PONG'', t_others = []\<rparr>"
    "io_ok LittleEndian NetworkOptions_default Running demo_ready demo_ping x"
proof -
  obtain y where y: "HandleClientRead LittleEndian NetworkOptions_default (io_recvs demo_ping) (io_clks demo_ping) x = (Inr (), y)"
    "ob_inv (writeBuffer (x_conn y))" "pending (x_conn y) = 9" "pending_data (x_conn y) = wire_frame ''+PONG''"
    "\<not> conn_closed (x_conn y)" "\<not> readPaused (x_conn y)" "\<not> closeAfterWrite (x_conn y)" "registeredEvents (x_conn y) = 1"
    using demo_ping_read [OF assms] by blast
  obtain b where b: "OutputBuffer_Consume (writeBuffer (x_conn y)) 9 = Inr b" "ob_inv b" "OutputBuffer_Data b = []"
    using Consume_keeps [OF y(2), of 9] y(3,4) by (auto simp: wire_frame_def)
  have empty: "OutputBuffer_Empty b" "OutputBuffer_Size b = 0" "\<not> OutputBuffer_Empty (writeBuffer (x_conn y))"
    using b y(2,3) by (simp_all add: Empty_iff Size_Data)
  let ?w = "upd_conn (\<lambda>conn. conn\<lparr>writeBuffer := b\<rparr>) (upd_metrics (AddBytesSent 9) y)"
  have update: "UpdateReadBackPressure NetworkOptions_default ?w = ?w"
    using y(5-7) empty(2) by (simp add: UpdateReadBackPressure_def NetworkOptions_default_def Let_def)
  have sends: "retry_eintr (io_sends demo_ping) = Some (Ret 9)" by (simp add: demo_ping_def)
  have w: "HandleClientWrite NetworkOptions_default (io_sends demo_ping) y = (Inr (), ?w)"
    unfolding HandleClientWrite_def sends using y(5,7) b(1) empty(3) update by (simp add: Let_def)
  have wo: "\<not> conn_closed (x_conn ?w)" using y(5) by simp
  have "DesiredEvents (x_conn ?w) = 1" using y(5-7) empty(1) by (simp add: DesiredEvents_def IoEvent_defs Let_def)
  then have refresh: "RefreshConnectionInterest no_errors NetworkOptions_default ?w = (Inr (), ?w)"
    unfolding RefreshConnectionInterest_def update using wo y(7,8) by (simp add: IoEvent_defs Let_def)
  show "\<exists>z. HandleReadyEvent LittleEndian no_errors NetworkOptions_default Running demo_ready demo_ping x = (Inr (), z)"
    unfolding HandleReadyEvent_def using y(1) w refresh by (simp add: demo_ready_simps Let_def wo)
  have "bytes_read NetworkOptions_default (io_recvs demo_ping) x = wire_frame ''PING''"
    by (simp add: bytes_read_def demo_ping_def assms Connection_init_def NetworkOptions_default_def)
  moreover have "bytes_written (io_sends demo_ping) y = wire_frame ''+PONG''"
    using y empty(3) by (simp add: bytes_written_def demo_ping_def)
  ultimately show "event_traffic LittleEndian NetworkOptions_default Running demo_ready demo_ping x =
       \<lparr>t_received = wire_frame ''PING'', t_sent = wire_frame ''+PONG'', t_others = []\<rparr>"
    by (simp add: event_traffic_def after_read_def demo_ready_simps y(1))
  have "recv_ok NetworkOptions_default (x_conn x) (io_recvs demo_ping)"
    using demo_recv by (simp add: demo_ping_def demo_io_def demo_ctx_def assms)
  moreover have "send_ok NetworkOptions_default (x_conn y) (io_sends demo_ping)"
    using y(3) by (simp add: send_ok_def demo_ping_def bytes_to_write_def NetworkOptions_default_def)
  ultimately show "io_ok LittleEndian NetworkOptions_default Running demo_ready demo_ping x"
    unfolding io_ok_def by (simp add: demo_ready_simps y(1))
qed

abbreviation demo_traffic :: traffic where
  "demo_traffic \<equiv> \<lparr>t_received = wire_frame ''PING'', t_sent = wire_frame ''+PONG'', t_others = [(''SET k v'', 0)]\<rparr>"

lemma demo_client: "um_find (r_clients (c_reactor demo_served)) 7 = Some demo_conn" "r_store (c_reactor demo_served) = KVStore_init"
  "r_state (c_reactor demo_served) = Running" "control_fd (c_reactor demo_served) = 3"
  by (simp_all add: demo_served_def demo_reactor_def SubReactor_init_def um_find_def)

lemma demo_serving: "n < 2 ^ 64 \<Longrightarrow> serving NetworkOptions_default n (c_reactor demo_served)"
proof -
  assume n: "n < 2 ^ 64"
  have "loop_inv NetworkOptions_default 1 demo_served" by (rule reaches_inv [OF default_opts_ok _ demo_reaches]) simp
  then have "serving NetworkOptions_default (c_budget demo_served) (c_reactor demo_served)"
    by (simp add: loop_inv_def demo_served_def)
  then show ?thesis
    by (rule serving_frame) (use n in \<open>simp_all add: demo_client store_ready_def store_fits_init kv_good_init\<close>)
qed

lemma demo_session: "session KVStore_init [(''SET k v'', 0)] = Inr ([''+OK''], KVStore_Set KVStore_init ''k'' ''v'')"
proof -
  have "cmd_type (ParseCommand ''SET k v'') = Set \<and> cmd_key (ParseCommand ''SET k v'') = ''k'' \<and>
      cmd_value (ParseCommand ''SET k v'') = ''v''" by code_simp
  then show ?thesis by (simp add: CommandExecutor_Execute_def)
qed

lemma demo_life:
  "\<exists>r'. reactor_life LittleEndian no_errors NetworkOptions_default 7 demo_acts demo_items 0 1 (c_reactor demo_served)
     demo_traffic r'"
proof -
  let ?r = "c_reactor demo_served"
  let ?r1 = "?r\<lparr>r_store := KVStore_Set KVStore_init ''k'' ''v'', r_metrics := ServerMetrics_init\<rparr>"
  note event = demo_event [of "ctx_of ?r1 demo_conn"]
  have conn: "x_conn (ctx_of ?r1 demo_conn) = demo_conn" by (simp add: ctx_of_def)
  obtain z where z: "HandleReadyEvent LittleEndian no_errors NetworkOptions_default Running demo_ready demo_ping
      (ctx_of ?r1 demo_conn) = (Inr (), z)" using event(1) [OF conn] by blast
  have r1: "um_find (r_clients ?r1) 7 = Some demo_conn" "r_state ?r1 = Running" "control_fd ?r1 = 3" using demo_client by simp_all
  have "act LittleEndian no_errors NetworkOptions_default (Elsewhere [(''SET k v'', 0)] ServerMetrics_init) ?r ?r1"
    using demo_session demo_client(2) by (simp add: frame_limit_def del: session.simps)
  then have run: "acts_run LittleEndian no_errors NetworkOptions_default 7 demo_acts ?r
      (quiet\<lparr>t_others := [(''SET k v'', 0)]\<rparr>) ?r1"
    unfolding demo_acts_def acts_run.simps by (intro exI [of _ ?r1] exI [of _ quiet]) (use r1(1) in simp)
  have traffic: "client_traffic LittleEndian no_errors NetworkOptions_default 7 demo_items ?r1 =
      \<lparr>t_received = wire_frame ''PING'', t_sent = wire_frame ''+PONG'', t_others = []\<rparr>"
    unfolding demo_items_def client_traffic.simps ReadyEvent.select_convs r1 using event(2) [OF conn] z by simp
  have io: "events_io_ok LittleEndian no_errors NetworkOptions_default demo_items ?r1"
    unfolding demo_items_def events_io_ok.simps ReadyEvent.select_convs r1 using event(3) [OF conn] z by simp
  have served: "client_events LittleEndian no_errors NetworkOptions_default demo_items ?r1 = (Inr (), put_ctx 7 z ?r1)"
    unfolding demo_items_def client_events.simps ReadyEvent.select_convs r1 using z by simp
  have "clocks_ok 0 (io_clks demo_ping) 1" by (simp add: clocks_ok_def demo_ping_def demo_clk_def mono_def)
  then have times: "acts_timed 0 demo_acts 0" "items_timed 0 demo_items 1"
    by (auto simp: demo_acts_def demo_items_def)
  have "serving NetworkOptions_default (sum_list (map (act_budget NetworkOptions_default) demo_acts) +
      length demo_items * maxReadBufferBytes NetworkOptions_default) ?r"
    by (rule demo_serving) (simp add: demo_acts_def demo_items_def NetworkOptions_default_def)
  moreover have "demo_traffic = join (quiet\<lparr>t_others := [(''SET k v'', 0)]\<rparr>)
      (client_traffic LittleEndian no_errors NetworkOptions_default 7 demo_items ?r1)"
    unfolding traffic by (simp add: join_def quiet_def)
  ultimately show ?thesis unfolding reactor_life_def using run times io served by blast
qed

theorem reactor_history_witness:
  "\<exists>r' conn' qs. reactor_life LittleEndian no_errors NetworkOptions_default 7 demo_acts demo_items 0 1 (c_reactor demo_served)
      demo_traffic r' \<and> um_find (r_clients r') 7 = Some conn' \<and> replay KVStore_init qs (r_store r') \<and> history_ok Map.empty qs \<and>
    subseq (not_mine qs) [(''SET k v'', 0)] \<and> prefix (wire_frame ''+PONG'') (frames (my_replies qs))"
proof -
  obtain r' where life: "reactor_life LittleEndian no_errors NetworkOptions_default 7 demo_acts demo_items 0 1
      (c_reactor demo_served) demo_traffic r'" using demo_life by blast
  have fresh: "readBuffer demo_conn = []" "OutputBuffer_Data (writeBuffer demo_conn) = []"
    "simulates 0 (r_store (c_reactor demo_served)) Map.empty"
    by (simp_all add: demo_client(2) simulates_init Connection_init_def OutputBuffer_init_def ob_defs)
  have "FrameCodec_Decode LittleEndian (wire_frame ''PING'') = (Inr [''PING''], [])"
    using Decode_decomposed(1) [of "[''PING'']" "[]" LittleEndian] by (simp add: frame_limit_def incomplete_def)
  then have tail: "tail = []" if "tail_ok LittleEndian NetworkOptions_default (wire_frame ''PING'') tail" for tail
    using that by (simp add: tail_ok_def NetworkOptions_default_def frame_limit_def)
  from reactor_history [OF default_opts_ok life demo_client(1) fresh] life tail show ?thesis
    unfolding demo_client(2) traffic.select_convs by (metis append_Nil2)
qed

end
