(* ===== verification/Client.thy ===== *)
theory Client
  imports Socket_Util Command_Executor
begin

text \<open>
  The interactive client (\<^verbatim>\<open>app/client_main.cpp\<close>): it sends each line as a frame and prints the first
  frame that comes back.  The lines typed in and the returns of \<open>send\<close> and \<open>recv\<close> are arguments; the
  bytes given to the kernel and the responses printed are results.
\<close>

section \<open>The functions of the client\<close>

text \<open>\<open>send\<close> may take less than asked for.\<close>

fun SendAll_loop :: "nat sysret list \<Rightarrow> string \<Rightarrow> nat \<Rightarrow> unit result \<times> string" where
  "SendAll_loop sends data sent =
     (if \<not> sent < length data then (Inr (), [])
      else
        case sends of
          [] \<Rightarrow> (Inl StillBlocked, [])
        | Fail errno # rest \<Rightarrow> (Inl (RuntimeError ''Failed to send data''), [])
        | Ret n # rest \<Rightarrow>
            if n = 0 then (Inl (RuntimeError ''Failed to send data''), [])
            else
              let (res, bytes) = SendAll_loop rest data (sent + n)
              in (res, take n (drop sent data) @ bytes))"

declare SendAll_loop.simps [simp del]

definition SendAll :: "nat sysret list \<Rightarrow> string \<Rightarrow> unit result \<times> string" where
  "SendAll sends data = SendAll_loop sends data 0"

definition RECV_SIZE :: nat where "RECV_SIZE = 4096"

fun RecvFrame_loop :: "endianness \<Rightarrow> string sysret list \<Rightarrow> string \<Rightarrow> string result" where
  "RecvFrame_loop h [] buffer = Inl StillBlocked"
| "RecvFrame_loop h (Fail errno # recvs) buffer = Inl (RuntimeError ''Failed to receive data'')"
| "RecvFrame_loop h (Ret temp # recvs) buffer =
     (if length temp = 0 then Inl (RuntimeError ''Failed to receive data'')
      else
        case FrameCodec_DecodeAppend h buffer (Some temp) (length temp) of
          (Inl e, buffer) \<Rightarrow> Inl e
        | (Inr frames, buffer) \<Rightarrow> if frames \<noteq> [] then Inr (hd frames) else RecvFrame_loop h recvs buffer)"

definition RecvFrame :: "endianness \<Rightarrow> string sysret list \<Rightarrow> string result" where
  "RecvFrame h recvs = RecvFrame_loop h recvs []"

section \<open>The session\<close>

text \<open>One line typed in, with what the calls for it return.\<close>

record exchange =
  ex_line :: string
  ex_sends :: "nat sysret list"
  ex_recvs :: "string sysret list"

text \<open>The loop: its result, the responses printed, and the bytes sent.  The input ends with the list.\<close>

fun client_loop :: "endianness \<Rightarrow> exchange list \<Rightarrow> unit result \<times> string list \<times> string" where
  "client_loop h [] = (Inr (), [], [])"
| "client_loop h (ex # rest) =
     (let line = ex_line ex in
      if line = [] then client_loop h rest
      else
        case FrameCodec_Encode h line of
          Inl e \<Rightarrow> (Inl e, [], [])
        | Inr frame \<Rightarrow>
            case SendAll (ex_sends ex) frame of
              (Inl e, bytes) \<Rightarrow> (Inl e, [], bytes)
            | (Inr _, bytes) \<Rightarrow>
                case RecvFrame h (ex_recvs ex) of
                  Inl e \<Rightarrow> (Inl e, [], bytes)
                | Inr response \<Rightarrow>
                    if line = ''QUIT'' \<or> line = ''quit'' then (Inr (), [response], bytes)
                    else
                      let (res, printed, more) = client_loop h rest
                      in (res, response # printed, bytes @ more))"

text \<open>\<open>std::stoi\<close>: blanks, a sign, and digits as far as they go.\<close>

definition stoi :: "string \<Rightarrow> int result" where
  "stoi t =
     (let t = dropWhile IsSpace t;
          neg = (t \<noteq> [] \<and> hd t = CHR ''-'');
          t = (if t \<noteq> [] \<and> (hd t = CHR ''-'' \<or> hd t = CHR ''+'') then tl t else t);
          digits = takeWhile IsDigit t;
          v = (if neg then - dec_value 0 digits else dec_value 0 digits)
      in if digits = [] then Inl (InvalidArgument ''stoi'')
         else if v < - (2 ^ 31) \<or> 2 ^ 31 - 1 < v then Inl (OutOfRange ''stoi'')
         else Inr v)"

text \<open>How the process ends: with an exit code, or by an exception that nobody catches.\<close>

datatype process_end = ExitCode nat | Uncaught cpp_exception

text \<open>\<open>main\<close>: the end, the peer of the socket, the responses printed and the bytes sent.  Exceptions
  that no handler of C++ catches end the process.\<close>

definition client_main ::
  "endianness \<Rightarrow> (string \<Rightarrow> u32 option) \<Rightarrow> socket_calls \<Rightarrow> exchange list \<Rightarrow> string list \<Rightarrow>
   process_end \<times> (u32 \<times> 16 word) option \<times> string list \<times> string" where
  "client_main h inet_pton calls exchanges argv =
     (if length argv \<noteq> 3 then (ExitCode 1, None, [], [])
      else
        let host = argv ! 1
        in case stoi (argv ! 2) of
             Inl e \<Rightarrow> (Uncaught e, None, [], [])
           | Inr port \<Rightarrow>
               case ConnectToServer inet_pton calls host port of
                 (Inl e, _) \<Rightarrow> (ExitCode 1, None, [], [])
               | (Inr socket, _) \<Rightarrow>
                   let (res, printed, bytes) = client_loop h exchanges
                   in case res of
                        Inr _ \<Rightarrow> (ExitCode 0, sock_peer socket, printed, bytes)
                      | Inl e \<Rightarrow> (if is_std_exception e then ExitCode 1 else Uncaught e, sock_peer socket, printed, bytes))"

section \<open>Frames through a byte stream\<close>

lemma SendAll_loop_sends:
  assumes "sent \<le> length data" "\<forall>n \<in> set ns. 0 < n" "sum_list ns = length data - sent"
  shows "SendAll_loop (map Ret ns @ rest) data sent = (Inr (), drop sent data)"
  using assms
proof (induction ns arbitrary: sent)
  case (Cons n ns)
  then have "SendAll_loop (map Ret ns @ rest) data (sent + n) = (Inr (), drop (sent + n) data)"
    by (intro Cons.IH) auto
  moreover have "sent < length data" "0 < n" using Cons.prems by auto
  moreover have "take n (drop sent data) @ drop (sent + n) data = drop sent data"
    by (metis append_take_drop_id drop_drop add.commute)
  ultimately show ?case by (simp add: SendAll_loop.simps [of "Ret n # _"])
qed (simp add: SendAll_loop.simps)

lemma frame_prefix_incomplete:
  assumes "wire_frame p = pre @ suf" "suf \<noteq> []" "length p \<le> frame_limit"
  shows "incomplete pre"
proof (cases "length pre < 4")
  case False
  then have "be32_value pre = be32_value (wire_frame p @ [])" using assms(1) be32_value_append [of pre suf] by simp
  also have "\<dots> = length p" using assms(3) by (simp add: wire_frame_def be32_value_be32 frame_limit_def)
  finally have v: "be32_value pre = length p" .
  have "length pre + length suf = 4 + length p" using arg_cong [OF assms(1), of length] by simp
  moreover have "0 < length suf" using assms(2) by simp
  ultimately have "length pre < 4 + length p" by linarith
  then show ?thesis using v assms(3) by (simp add: incomplete_def)
qed (simp add: incomplete_def)

lemma RecvFrame_loop_frame:
  assumes "wire_frame p = buffer @ concat chunks" "length p \<le> frame_limit" "[] \<notin> set chunks" "chunks \<noteq> []"
  shows "RecvFrame_loop h (map Ret chunks @ rest) buffer = Inr p"
  using assms
proof (induction chunks arbitrary: buffer)
  case (Cons chunk chunks)
  have d: "FrameCodec_DecodeAppend h buffer (Some chunk) (length chunk) = FrameCodec_Decode_loop h (buffer @ chunk) []"
    using Cons.prems(3) by (simp add: FrameCodec_DecodeAppend_def FrameCodec_Decode_def)
  show ?case
  proof (cases "chunks = []")
    case True
    then have "buffer @ chunk = wire_frame p @ []" using Cons.prems(1) by simp
    then have "FrameCodec_Decode_loop h (buffer @ chunk) [] = (Inr [p], [])"
      using Decode_loop_frame [OF Cons.prems(2), of h "[]" "[]"] by (simp only: Decode_loop_short) (simp add: Decode_loop_short)
    with d Cons.prems(3) show ?thesis by auto
  next
    case False
    then have "concat chunks \<noteq> []" using Cons.prems(3) by (cases chunks) auto
    then have "incomplete (buffer @ chunk)"
      using frame_prefix_incomplete [of p "buffer @ chunk" "concat chunks"] Cons.prems(1,2) by simp
    with d Cons False show ?thesis by (auto simp: Decode_loop_incomplete)
  qed
qed simp

section \<open>A session\<close>

text \<open>The requests of a session, with the answers to them: the lines that are sent, up to and including
  the first that quits.\<close>

fun requests :: "(string \<times> string) list \<Rightarrow> (string \<times> string) list" where
  "requests [] = []"
| "requests ((line, answer) # rest) =
     (if line = [] then requests rest
      else if line = ''QUIT'' \<or> line = ''quit'' then [(line, answer)]
      else (line, answer) # requests rest)"

text \<open>The network delivers a line and the answer to it, in pieces of any size.\<close>

definition delivered :: "string \<Rightarrow> exchange \<Rightarrow> bool" where
  "delivered answer ex \<longleftrightarrow>
     length (ex_line ex) \<le> frame_limit \<and> length answer \<le> frame_limit \<and>
     (\<exists>ns rest. ex_sends ex = map Ret ns @ rest \<and> (\<forall>n \<in> set ns. 0 < n) \<and>
        sum_list ns = length (wire_frame (ex_line ex))) \<and>
     (\<exists>chunks rest. ex_recvs ex = map Ret chunks @ rest \<and> [] \<notin> set chunks \<and> concat chunks = wire_frame answer)"

lemma delivered_exchange:
  assumes "delivered answer ex"
  shows "SendAll (ex_sends ex) (wire_frame (ex_line ex)) = (Inr (), wire_frame (ex_line ex))"
    "RecvFrame h (ex_recvs ex) = Inr answer"
proof -
  obtain ns rest where "ex_sends ex = map Ret ns @ rest" "\<forall>n \<in> set ns. 0 < n" "sum_list ns = length (wire_frame (ex_line ex))"
    using assms by (auto simp: delivered_def)
  with SendAll_loop_sends [of 0 "wire_frame (ex_line ex)" ns rest]
  show "SendAll (ex_sends ex) (wire_frame (ex_line ex)) = (Inr (), wire_frame (ex_line ex))" by (simp add: SendAll_def)
  obtain chunks more where c: "ex_recvs ex = map Ret chunks @ more" "[] \<notin> set chunks" "concat chunks = wire_frame answer"
    using assms by (auto simp: delivered_def)
  then have "chunks \<noteq> []" by (auto simp: wire_frame_def be32_def)
  with c RecvFrame_loop_frame [of answer "[]" chunks h more] assms
  show "RecvFrame h (ex_recvs ex) = Inr answer" by (simp add: RecvFrame_def delivered_def)
qed

lemma client_loop_delivered:
  assumes "list_all2 delivered answers exchanges"
  shows "client_loop h exchanges = (Inr (), map snd (requests (zip (map ex_line exchanges) answers)),
      concat (map wire_frame (map fst (requests (zip (map ex_line exchanges) answers))))) \<and>
    (\<forall>p \<in> set (map fst (requests (zip (map ex_line exchanges) answers))). length p \<le> frame_limit)"
  using assms
proof (induction rule: list_all2_induct)
  case (Cons answer answers ex exchanges)
  then have d: "delivered answer ex" and IH: "client_loop h exchanges =
      (Inr (), map snd (requests (zip (map ex_line exchanges) answers)),
       concat (map wire_frame (map fst (requests (zip (map ex_line exchanges) answers)))))"
    "\<forall>p \<in> set (map fst (requests (zip (map ex_line exchanges) answers))). length p \<le> frame_limit" by blast+
  have len: "length (ex_line ex) \<le> frame_limit" using d by (simp add: delivered_def)
  have ex: "SendAll (ex_sends ex) (wire_frame (ex_line ex)) = (Inr (), wire_frame (ex_line ex))"
    "RecvFrame h (ex_recvs ex) = Inr answer"
    "FrameCodec_Encode h (ex_line ex) = Inr (wire_frame (ex_line ex))"
    using delivered_exchange [OF d] Encode_wire_frame [OF len] by blast+
  note unfolds = client_loop.simps requests.simps list.map zip_Cons_Cons Let_def
  show ?case
  proof (cases "ex_line ex = []")
    case True
    with IH show ?thesis by simp
  next
    case line: False
    show ?thesis
    proof (cases "ex_line ex = ''QUIT'' \<or> ex_line ex = ''quit''")
      case True
      then show ?thesis unfolding unfolds ex
        by (simp only: line ex prod.case sum.case if_True if_False) (use len in simp)
    next
      case False
      then show ?thesis unfolding unfolds ex
        by (simp only: line ex IH(1) prod.case sum.case if_True if_False) (use len IH(2) in simp)
    qed
  qed
qed simp

text \<open>A client session over a network that delivers, in whatever pieces, prints the answers in
  order, one for every line that is not empty, and ends with the first \<^verbatim>\<open>QUIT\<close>; and what it sends is
  exactly the frames of those lines, so that a server decodes just them.\<close>

theorem client_session:
  assumes "list_all2 delivered answers exchanges"
  shows "let served = requests (zip (map ex_line exchanges) answers)
    in \<exists>bytes. client_loop h exchanges = (Inr (), map snd served, bytes) \<and>
      FrameCodec_Decode h' bytes = (Inr (map fst served), [])"
  using client_loop_delivered [OF assms, of h]
    Decode_loop_frames [of "map fst (requests (zip (map ex_line exchanges) answers))" h' "[]" "[]"]
  by (auto simp: FrameCodec_Decode_def Decode_loop_short Let_def)

definition demo_session :: "exchange list" where
  "demo_session =
     [\<lparr>ex_line = ''GET a'', ex_sends = [Ret 2, Ret 7], ex_recvs = [Ret (be32 4 @ ''$''), Ret ''nil'']\<rparr>,
      \<lparr>ex_line = [], ex_sends = [Ret 4], ex_recvs = [Ret (be32 0)]\<rparr>,
      \<lparr>ex_line = ''quit'', ex_sends = [Ret 8], ex_recvs = [Ret (be32 4 @ ''+BYE'')]\<rparr>]"

theorem client_session_witness:
  "\<exists>bytes. client_loop LittleEndian demo_session = (Inr (), [''$nil'', ''+BYE''], bytes)"
proof -
  have d: "delivered a \<lparr>ex_line = l, ex_sends = map Ret ns, ex_recvs = map Ret cs\<rparr>"
    if "length l \<le> 1000" "length a \<le> 1000" "\<forall>n \<in> set ns. 0 < n" "sum_list ns = 4 + length l" "[] \<notin> set cs"
      "concat cs = wire_frame a" for a l ns cs
  proof -
    have "map Ret ns = map Ret ns @ []" "map Ret cs = map Ret cs @ []" by simp_all
    with that show ?thesis unfolding delivered_def exchange.simps
      by (intro conjI exI [of _ ns] exI [of _ cs] exI [of _ "[]"]) (simp_all add: frame_limit_def)
  qed
  have "list_all2 delivered [''$nil'', [], ''+BYE''] demo_session"
    unfolding demo_session_def
    using d [of "''GET a''" "''$nil''" "[2, 7]" "[be32 4 @ ''$'', ''nil'']"] d [of "[]" "[]" "[4]" "[be32 0]"]
      d [of "''quit''" "''+BYE''" "[8]" "[be32 4 @ ''+BYE'']"]
    by (simp add: wire_frame_def be32_def)
  from client_session [OF this, of LittleEndian LittleEndian] show ?thesis by (auto simp: demo_session_def Let_def)
qed

text \<open>The port is cut to 16 bits: \<open>main\<close> checks only that it is an \<open>int\<close>.\<close>

lemma client_port_wraps:
  assumes "ConnectToServer inet_pton calls host (65536 + port) = (Inr s, fds)"
  shows "\<exists>addr. inet_pton host = Some addr \<and> sock_peer s = Some (addr, of_int port)"
proof -
  have "(of_int (65536 + port) :: 16 word) = of_int port" by (simp add: word_of_int_eq_iff take_bit_eq_mod)
  with assms show ?thesis
    by (auto simp: ConnectToServer_def throw_closing_def fresh_socket_def split: sysret.splits option.splits)
qed

end
