(* ===== verification/End_To_End.thy ===== *)
theory End_To_End
  imports Reactor_Stream Client
begin

text \<open>
  The client program against a connection of a reactor: what a session prints is what the abstract map
  of values and deadlines answers, first for a connection alone and then for one among others in a reactor.
\<close>

section \<open>The bytes on the wire\<close>

text \<open>A sequence of frames is known from its bytes, also when it is cut.\<close>

lemma frames_prefix:
  assumes "prefix (frames ps) (frames qs)" "\<forall>p \<in> set ps. length p \<le> frame_limit" "\<forall>q \<in> set qs. length q \<le> frame_limit"
  shows "prefix ps qs"
proof -
  obtain more where more: "frames qs = frames ps @ more" using assms(1) by (auto simp: prefix_def)
  have "incomplete []" by (simp add: incomplete_def)
  from Decode_decomposed(1) [OF assms(3) this, of LittleEndian] more
  have "FrameCodec_Decode LittleEndian (frames ps @ more) = (Inr qs, [])" by simp
  then show ?thesis unfolding Decode_prefix_frames [OF assms(2)]
    by (auto split: prod.splits sum.splits)
qed

lemma frames_prefix_decodes:
  assumes "prefix received (frames ps)" "\<forall>p \<in> set ps. length p \<le> frame_limit"
  shows "\<exists>qs rest. FrameCodec_Decode h received = (Inr qs, rest)"
proof -
  obtain more where more: "frames ps = received @ more" using assms(1) by (auto simp: prefix_def)
  have "incomplete []" by (simp add: incomplete_def)
  from Decode_decomposed(1) [OF assms(2) this, of h] more
  have "FrameCodec_Decode h (received @ more) = (Inr ps, [])" by simp
  then show ?thesis using Decode_append [of h received more] by (auto split: prod.splits sum.splits)
qed

lemma requests_answers:
  "list_all2 delivered answers exchanges \<Longrightarrow>
   \<forall>a \<in> set (map snd (requests (zip (map ex_line exchanges) answers))). length a \<le> frame_limit"
proof (induction rule: list_all2_induct)
  case (Cons answer answers ex exchanges)
  then show ?case by (cases "ex_line ex = []"; cases "ex_line ex = ''QUIT'' \<or> ex_line ex = ''quit''") (auto simp: delivered_def)
qed simp

section \<open>End to end\<close>

text \<open>On one connection, with the requests of others given.\<close>

lemma connection_end_to_end:
  assumes "opts_ok opts" "4 + frame_limit \<le> maxReadBufferBytes opts"
    and "conn_ok opts (sum_list (map (step_budget opts) steps)) x" "simulates t (x_store x) m"
    and "readBuffer (x_conn x) = []" "OutputBuffer_Data (writeBuffer (x_conn x)) = []"
    and "steps_ok h ctl opts steps x" "timed t steps T" "conn_run h ctl opts steps x = (received, sent, x')"
    and "list_all2 delivered answers exchanges" "client_loop h' exchanges = (res, printed, bytes)"
    and "prefix received bytes" "prefix (frames printed) sent"
  shows "res = Inr () \<and>
    (\<exists>qs. history_ok m qs \<and> replay (x_store x) qs (x_store x') \<and> sorted (map rq_time qs) \<and>
       prefix (not_mine qs) (others_of steps) \<and>
       prefix (my_lines qs) (map fst (requests (zip (map ex_line exchanges) answers))) \<and>
       prefix printed (my_replies qs))"
proof -
  let ?served = "requests (zip (map ex_line exchanges) answers)"
  have client: "res = Inr ()" "printed = map snd ?served" "bytes = frames (map fst ?served)"
    "\<forall>p \<in> set (map fst ?served). length p \<le> frame_limit" "\<forall>a \<in> set printed. length a \<le> frame_limit"
    using client_loop_delivered [OF assms(10), of h'] assms(11) requests_answers [OF assms(10)] by simp_all
  obtain qs tail where inv: "stream_inv h opts (x_store x) t T qs received sent tail x'" and history: "history_ok m qs"
    and rest: "prefix (not_mine qs) (others_of steps)"
    using conn_run_history [OF assms(1,3-9)] by blast
  have small: "\<forall>p \<in> set (my_lines qs). length p \<le> frame_limit" "\<forall>r \<in> set (my_replies qs). length r \<le> frame_limit"
    using inv by (auto simp: stream_inv_def served_ok_def my_lines_def my_replies_def)
  have tail: "tail = []"
    using inv assms(2,12) frames_prefix_decodes [OF _ client(4), of received h] client(3)
    by (auto simp: stream_inv_def tail_ok_def)
  have "prefix (frames (my_lines qs)) received" "prefix sent (frames (my_replies qs))" "sorted (map rq_time qs)"
    "replay (x_store x) qs (x_store x')"
    using inv tail between_sorted by (auto simp: stream_inv_def)
  moreover from this have "prefix (my_lines qs) (map fst ?served)" "prefix printed (my_replies qs)"
    using frames_prefix [OF _ small(1) client(4)] frames_prefix [OF _ client(5) small(2)] client(3) assms(12,13)
      prefix_order.trans by blast+
  ultimately show ?thesis using client(1) history rest by blast
qed

text \<open>Claim C1: the client program and the server agree with the abstract map.  A client runs a session over a network
  that delivers what is sent, in pieces of any size, to a new connection of a reactor with any store, which
  goes on with all its other work: the client ends without an error, and there is one sequential
  history of all requests, which leads to the store as it is and is explained by the abstract map of
  values and deadlines, in which the requests of this connection are the lines typed in, in order and up
  to the first \<^verbatim>\<open>QUIT\<close>, the others are requests that others had executed, in order, and the answers printed are
  the answers to the lines in that history.\<close>

theorem end_to_end:
  assumes "opts_ok opts" "4 + frame_limit \<le> maxReadBufferBytes opts"
    and "reactor_life h ctl opts fd acts items t T r tr r'" "um_find (r_clients r) fd = Some conn"
    and "readBuffer conn = []" "OutputBuffer_Data (writeBuffer conn) = []" "simulates t (r_store r) m"
    and "list_all2 delivered answers exchanges" "client_loop h' exchanges = (res, printed, bytes)"
    and "prefix (t_received tr) bytes" "prefix (frames printed) (t_sent tr)"
  shows "res = Inr () \<and>
    (\<exists>qs. history_ok m qs \<and> replay (r_store r) qs (r_store r') \<and> sorted (map rq_time qs) \<and>
       subseq (not_mine qs) (t_others tr) \<and>
       prefix (my_lines qs) (map fst (requests (zip (map ex_line exchanges) answers))) \<and>
       prefix printed (my_replies qs))"
proof -
  obtain conn' steps where c: "steps_ok h ctl opts steps (ctx_of r conn)"
    "conn_run h ctl opts steps (ctx_of r conn) = (t_received tr, t_sent tr, ctx_of r' conn')" "timed t steps T"
    "subseq (others_of steps) (t_others tr)" "conn_ok opts (sum_list (map (step_budget opts) steps)) (ctx_of r conn)"
    using reactor_follow [OF assms(1,3,4)] by blast
  have "simulates t (x_store (ctx_of r conn)) m" "readBuffer (x_conn (ctx_of r conn)) = []"
    "OutputBuffer_Data (writeBuffer (x_conn (ctx_of r conn))) = []" using assms(5-7) by (simp_all add: ctx_of_def)
  from connection_end_to_end [OF assms(1,2) c(5) this c(1,3,2) assms(8-11)] obtain qs where
    "res = Inr ()" "history_ok m qs" "replay (r_store r) qs (r_store r')" "sorted (map rq_time qs)"
    "prefix (not_mine qs) (others_of steps)" "prefix (my_lines qs) (map fst (requests (zip (map ex_line exchanges) answers)))"
    "prefix printed (my_replies qs)" by (auto simp: ctx_of_def)
  moreover from this(5) c(4) have "subseq (not_mine qs) (t_others tr)"
    using prefix_imp_subseq subseq_order.trans by blast
  ultimately show ?thesis by blast
qed

text \<open>The reactor of the witness for the histories, with the client that sends \<^verbatim>\<open>PING\<close> to it.\<close>

definition demo_exchanges :: "exchange list" where
  "demo_exchanges = [\<lparr>ex_line = ''PING'', ex_sends = [Ret 3, Ret 5],
     ex_recvs = [Ret (take 2 (wire_frame ''+PONG'')), Ret (drop 2 (wire_frame ''+PONG''))]\<rparr>]"

lemma demo_delivered: "list_all2 delivered [''+PONG''] demo_exchanges"
proof -
  have "ex_sends ex = map Ret [3, 5] @ [] \<and> ex_recvs ex = map Ret [take 2 (wire_frame ''+PONG''), drop 2 (wire_frame ''+PONG'')] @ []"
    if "ex \<in> set demo_exchanges" for ex using that by (simp add: demo_exchanges_def)
  moreover have "[] \<notin> set [take 2 (wire_frame ''+PONG''), drop 2 (wire_frame ''+PONG'')]"
    by (simp add: wire_frame_def be32_def)
  ultimately show ?thesis unfolding demo_exchanges_def list_all2_Cons delivered_def
    by (intro conjI exI [of _ "[3, 5]"] exI [of _ "[take 2 (wire_frame ''+PONG''), drop 2 (wire_frame ''+PONG'')]"] exI [of _ "[]"])
      (simp_all add: frame_limit_def)
qed

theorem end_to_end_witness:
  "\<exists>qs r'. reactor_life LittleEndian no_errors NetworkOptions_default 7 demo_acts demo_items 0 1 (c_reactor demo_served)
      demo_traffic r' \<and> client_loop BigEndian demo_exchanges = (Inr (), [''+PONG''], wire_frame ''PING'') \<and>
    history_ok Map.empty qs \<and> prefix (my_lines qs) [''PING''] \<and> prefix [''+PONG''] (my_replies qs)"
proof -
  obtain r' where life: "reactor_life LittleEndian no_errors NetworkOptions_default 7 demo_acts demo_items 0 1
      (c_reactor demo_served) demo_traffic r'" using demo_life by blast
  have fresh: "readBuffer demo_conn = []" "OutputBuffer_Data (writeBuffer demo_conn) = []"
    "simulates 0 (r_store (c_reactor demo_served)) Map.empty"
    by (simp_all add: demo_client(2) simulates_init Connection_init_def OutputBuffer_init_def ob_defs)
  have limit: "4 + frame_limit \<le> maxReadBufferBytes NetworkOptions_default" by (simp add: frame_limit_def NetworkOptions_default_def)
  have served: "requests (zip (map ex_line demo_exchanges) [''+PONG'']) = [(''PING'', ''+PONG'')]" by (simp add: demo_exchanges_def)
  have client: "client_loop BigEndian demo_exchanges = (Inr (), [''+PONG''], wire_frame ''PING'')"
    using client_loop_delivered [OF demo_delivered, of BigEndian] served by simp
  have "prefix (t_received demo_traffic) (wire_frame ''PING'')" "prefix (frames [''+PONG'']) (t_sent demo_traffic)" by simp_all
  from end_to_end [OF default_opts_ok limit life demo_client(1) fresh demo_delivered client this]
    life client served show ?thesis by auto
qed

end
