(* ===== verification/Spec2Isabelle.thy ===== *)
theory Spec2Isabelle
  imports Connection_Properties Reactor_Properties Server_Main End_To_End
begin

text \<open>
  A verification development for tinykvcache, a TCP key-value cache server in C++17.

  \<^bold>\<open>The program.\<close>  Clients send framed text commands over TCP.  A main reactor (\<^verbatim>\<open>TcpServer\<close>) accepts
  connections and hands them to sub-reactors (\<^verbatim>\<open>SubReactor\<close>), each a thread with an event loop over a
  poller.  A sub-reactor decodes frames (\<^verbatim>\<open>FrameCodec\<close>), parses commands (\<^verbatim>\<open>CommandParser\<close>), executes
  them (\<^verbatim>\<open>CommandExecutor\<close>) on the shared store (\<^verbatim>\<open>KVStore\<close>) and queues the framed responses in the
  connection's output buffer (\<^verbatim>\<open>OutputBuffer\<close>) under back pressure.  Keys may expire; a sweeper thread
  removes them.  Counters are kept in \<^verbatim>\<open>ServerMetrics\<close>.  The main reactor and other threads control a
  sub-reactor by members under a mutex and a byte on its \<^verbatim>\<open>WakeupChannel\<close>; SIGINT and SIGTERM reach the
  main reactor the same way.

  \<^bold>\<open>Data.\<close>
  \<^item> \<open>Prelude\<close>: C++ types, exceptions as values, the contract of \<^verbatim>\<open>std::unordered_map\<close> (locale
    \<open>unordered_map\<close>), \<^verbatim>\<open>std::to_string\<close>.
  \<^item> \<open>Frame_Codec\<close>: \<^verbatim>\<open>src/core/frame_codec.cpp\<close>.  Round trip, independence of the way TCP cuts the
    stream, soundness, the error cases.
  \<^item> \<open>Command_Parser\<close>: \<^verbatim>\<open>src/core/command_parser.cpp\<close>.  Well-formedness of every result, the value of
    SET, parse after print.
  \<^item> \<open>Expiration_Queue\<close>, \<open>Kv_Store\<close>, \<open>Kv_Contract\<close>: \<^verbatim>\<open>src/core/kv_store.cpp\<close>.  The invariant of the
    store, the contract of a store (locale \<open>kv_service\<close>), refinement of an abstract map with
    deadlines, exact counters, complete and bounded sweeps.
  \<^item> \<open>Command_Executor\<close>: \<^verbatim>\<open>src/core/command_executor.cpp\<close>.  Whole sessions against the abstract map; sizes
    of responses.
  \<^item> \<open>Output_Buffer\<close>: \<^verbatim>\<open>src/net/output_buffer.cpp\<close> as a byte queue (locale \<open>byte_queue\<close>) with bounds on
    memory and copying.
  \<^item> \<open>Server_Metrics\<close>: \<^verbatim>\<open>src/observability/server_metrics.cpp\<close>; exact counters, and \<^verbatim>\<open>UpdateMaximum\<close> under
    arbitrary interleavings.
  \<^item> \<open>Stats_Report\<close>: the STATS report of \<^verbatim>\<open>src/net/sub_reactor.cpp\<close> and its floating-point estimates.

  \<^bold>\<open>Descriptors.\<close>
  \<^item> \<open>Io_Poller\<close>: \<^verbatim>\<open>src/net/poll\<close>; the abstract poller (locale \<open>poller\<close>), both back ends and the factory.
  \<^item> \<open>Scoped_Fd\<close>: \<^verbatim>\<open>src/net/scoped_fd.cpp\<close>; each descriptor has one owner and is closed once, for every
    program over several objects.
  \<^item> \<open>Socket_Util\<close>: \<^verbatim>\<open>src/net/socket_util.cpp\<close>; a socket is returned open and set up, or closed.
  \<^item> \<open>Wakeup_Channel\<close>: \<^verbatim>\<open>src/net/wakeup\<close>; the contract of a wakeup (locale \<open>wake_contract\<close>, interpreted for
    the channel here and for the sources of a stop in \<open>Server_Main\<close>); the signal handler restores what
    it replaced.

  \<^bold>\<open>Connections and sub-reactors\<close> (\<^verbatim>\<open>src/net/sub_reactor.cpp\<close>).
  \<^item> \<open>Connection_Model\<close>, \<open>Connection_Properties\<close>: the handlers of one connection: requests are answered in
    order, buffers stay bounded, back pressure, closing.
  \<^item> \<open>Sub_Reactor\<close>: the members of a reactor, its control methods and its event loop, as functions.
  \<^item> \<open>Reactor_Invariants\<close>: which descriptors a reactor owns; every operation keeps them, or closes them,
    whatever fails.
  \<^item> \<open>Reactor_Serving\<close>: what holds of a reactor that serves: every connection is registered for exactly
    the events it needs; each phase of the loop keeps this or ends the reactor.
  \<^item> \<open>Reactor_Loop\<close>: the step relation: the phases of the loop (waiting, control requests, clients),
    interleaved with the critical sections and notifications of the control methods and with changes
    of the shared store and metrics by others; its invariant, by rule induction.
  \<^item> \<open>Reactor_Properties\<close>: what follows for every reachable configuration.
  \<^item> \<open>Connection_Stream\<close>: the whole life of a connection, as a sequence of steps (events it is ready for,
    the beginning of a shutdown, and what others do to the store, the metrics and the poller in
    between): what it sends is the framed answers to what it received, in one sequential history of the
    store, which the abstract map of \<open>Kv_Contract\<close> explains.
  \<^item> \<open>Reactor_Stream\<close>: a reactor seen from one of its connections: the phases of its rounds, its control
    methods and the requests of other connections and reactors are steps of that life (a simulation),
    so that the history holds for each client of a reactor.

  \<^bold>\<open>The server.\<close>
  \<^item> \<open>Tcp_Server\<close>: \<^verbatim>\<open>src/net/tcp_server.cpp\<close>: the main reactor from its construction to the end of \<open>Run\<close>,
    and the sweeper.
  \<^item> \<open>Server_Ledger\<close>: every socket the server opened is open in it, with one of its reactors, or closed;
    each operation keeps this in whatever state it returns or throws.
  \<^item> \<open>Server_Properties\<close>: how \<open>Run\<close> ends, how a stop spreads, how clients are distributed, that the sweeper
    ends.
  \<^item> \<open>Server_Logger\<close>: \<^verbatim>\<open>src/observability/logger.cpp\<close>; the output is the lines asked for at or above the
    level in force, whole and in order.
  \<^item> \<open>Config\<close>, \<open>Config_Properties\<close>: \<^verbatim>\<open>src/config\<close> and the start of \<^verbatim>\<open>app/server_main.cpp\<close>; every configuration
    that passes is accepted by the server.
  \<^item> \<open>Server_Main\<close>: \<^verbatim>\<open>app/server_main.cpp\<close>: server and signal handler from construction to destruction; what the
    process leaves behind however it ends, and how a signal stops the server.
  \<^item> \<open>Client\<close>: \<^verbatim>\<open>app/client_main.cpp\<close>; whole sessions against the codec.
  \<^item> \<open>End_To_End\<close>: the client against a reactor: what it prints are the answers of the abstract map to its
    lines, however the network cuts the streams and whatever other clients do.

  \<^bold>\<open>Conventions.\<close>  A byte string is a HOL string.  Counters are 64 bit words and wrap; buffer sizes are
  naturals.  Time is an integer number of nanoseconds of the steady clock.  An operation that may throw
  returns a value of the sum type \<open>result\<close>, and the state in which it leaves its object; a failed
  assertion and undefined behaviour are error values.  What the operating system returns (bytes of
  \<^verbatim>\<open>recv\<close>, counts of \<^verbatim>\<open>send\<close>, descriptors of \<^verbatim>\<open>accept\<close>, errors of \<^verbatim>\<open>epoll_ctl\<close>, readings of the clock) is an
  argument of the operation.  A retry loop is given the finite list of the results of its call; where
  the list ends inside the loop the model says that the call still blocks (\<open>StillBlocked\<close>, or \<open>None\<close>),
  and the theorems assume lists that do not.  A descriptor that the destructor of a \<^verbatim>\<open>ScopedFd\<close> closes is
  appended to a log.

  \<^bold>\<open>Bounds.\<close>  A step of the event loop may run at most one command per byte of a full read buffer for each
  ready descriptor; the budget of a configuration of \<open>Reactor_Loop\<close> bounds the commands still to come, so
  that the counters of the store stay below \<open>2 ^ 64\<close>.  The channel of a reactor has room for \<open>cap\<close> bytes,
  any positive number.  A pass of the sweeper is given one clock reading per sweep; a heap of \<open>n\<close> records
  needs at most \<open>n div 1024 + 1\<close>.

  \<^bold>\<open>Threads.\<close>  The methods of the store are atomic under its mutex and are steps of one sequence.  A reactor
  runs against every interleaving with the methods that other threads call (\<open>Reactor_Loop\<close>).  In the model
  of \<open>Run\<close> the threads of the reactors are functions of the reactor, applied between rounds and at the
  join; the ledger asks of them only that they keep the descriptors a reactor owns, which the event loop
  is proved to do (\<open>EventLoop_threads_keep\<close>).  In the histories of \<open>Connection_Stream\<close> and \<open>Reactor_Stream\<close> an
  event of a connection is atomic on the store: the requests of other reactors come between events, not
  between two requests of one read.  The answer to \<^verbatim>\<open>STATS\<close> depends on the metrics, and a history leaves
  it open.

  \<^bold>\<open>Not modelled.\<close>  The texts of the messages the components log; the prompt and the error texts of the
  client; creating and joining threads, beyond its failure; the descriptors of the pollers and of the
  channels of the reactors in the ledger of the server; in the model of \<open>Run\<close> a signal is a report of the
  channel by the poller, and the byte its handler writes is followed in \<open>Server_Main\<close>.  The TOML parser,
  \<^verbatim>\<open>fmt\<close> and \<^verbatim>\<open>inet_pton\<close> are not part of the repository and are parameters.
\<close>

end
